(* ===== verification/Prelude.thy ===== *)
theory Prelude
  imports Main "HOL-Library.Word"
begin

text \<open>
  Shared vocabulary of the development: the machine integers the program uses, the
  computations that may throw (a state in, a result or a failure and a state out), and the
  generic lemmas on such computations and on lists that the component theories rely on.
\<close>

section \<open>Machine integers\<close>

type_synonym uint8 = "8 word"
type_synonym uint16 = "16 word"
type_synonym uint32 = "32 word"
type_synonym uint64 = "64 word"

lemma ucast_8_of_nat [simp]: "(ucast (of_nat n :: uint32) :: uint8) = of_nat n"
  by (simp add: unsigned_of_nat word_of_nat_eq_iff)

lemma unat_less_length: "unat (w :: 'a :: len word) < 2 ^ LENGTH('a)"
  by (rule unsigned_less)

lemma unat_8_less_256 [simp]: "unat (b :: uint8) < 256"
  using unat_less_length [of b] by simp

lemma unat_8_less_32 [simp]: "unat (b :: uint8) < 4294967296"
  by (rule less_trans [OF unat_8_less_256]) simp

lemma unat_ucast_8_32 [simp]: "unat (ucast (b :: uint8) :: uint32) = unat b"
  by (simp add: unsigned_ucast_eq take_bit_nat_eq_self)

section \<open>Computations with a state and failures\<close>

text \<open>
  A C++ function that reads and writes some state and may throw is a function from the state
  to a failure (\<open>Inl\<close>) or a value (\<open>Inr\<close>), together with the state it leaves behind. A
  throw keeps the effects done before it.
\<close>

type_synonym ('s, 'e, 'a) prog = "'s \<Rightarrow> ('e + 'a) \<times> 's"

definition ret :: "'a \<Rightarrow> ('s, 'e, 'a) prog" where
  "ret x s = (Inr x, s)"

definition throw :: "'e \<Rightarrow> ('s, 'e, 'a) prog" where
  "throw e s = (Inl e, s)"

definition andthen :: "('s, 'e, 'a) prog \<Rightarrow> ('a \<Rightarrow> ('s, 'e, 'b) prog) \<Rightarrow> ('s, 'e, 'b) prog" where
  "andthen m k s = (case m s of (Inl e, s') \<Rightarrow> (Inl e, s') | (Inr x, s') \<Rightarrow> k x s')"

text \<open>Reading a part of the state, and a computation that only changes the state.\<close>

definition gets :: "('s \<Rightarrow> 'a) \<Rightarrow> ('s, 'e, 'a) prog" where
  "gets f s = (Inr (f s), s)"

definition modify :: "('s \<Rightarrow> 's) \<Rightarrow> ('s, 'e, unit) prog" where
  "modify f s = (Inr (), f s)"

text \<open>A total state transformer (a library call that cannot throw).\<close>

definition call :: "('s \<Rightarrow> 'a \<times> 's) \<Rightarrow> ('s, 'e, 'a) prog" where
  "call f s = (case f s of (x, s') \<Rightarrow> (Inr x, s'))"

text \<open>
  The scope of a local object with a destructor: the destructor runs when the scope is left,
  by a return or by a throw.
\<close>

definition with_destructor :: "('s, 'e, 'a) prog \<Rightarrow> ('s \<Rightarrow> 's) \<Rightarrow> ('s, 'e, 'a) prog" where
  "with_destructor m d s = (case m s of (r, s') \<Rightarrow> (r, d s'))"

named_theorems prog_simps

lemmas prog_defs = ret_def throw_def gets_def modify_def call_def

declare ret_def [prog_simps] throw_def [prog_simps] gets_def [prog_simps]
  modify_def [prog_simps] call_def [prog_simps] with_destructor_def [prog_simps]

lemma andthen_Inr [prog_simps]: "m s = (Inr x, s') \<Longrightarrow> andthen m k s = k x s'"
  by (simp add: andthen_def)

lemma andthen_Inl [prog_simps]: "m s = (Inl e, s') \<Longrightarrow> andthen m k s = (Inl e, s')"
  by (simp add: andthen_def)

lemma andthen_ret [simp]: "andthen (ret x) k = k x"
  by (rule ext) (simp add: andthen_def ret_def)

lemma andthen_throw [simp]: "andthen (throw e) k = throw e"
  by (rule ext) (simp add: andthen_def throw_def)

lemma andthen_gets [simp]: "andthen (gets f) k s = k (f s) s"
  by (simp add: andthen_def gets_def)

lemma andthen_modify [simp]: "andthen (modify f) k s = k () (f s)"
  by (simp add: andthen_def modify_def)

lemma andthen_call [simp]: "andthen (call f) k s = k (fst (f s)) (snd (f s))"
  by (simp add: andthen_def call_def split: prod.splits)

lemma andthen_assoc: "andthen (andthen m k) h = andthen m (\<lambda>x. andthen (k x) h)"
  by (rule ext) (auto simp: andthen_def split: prod.splits sum.splits)

lemma andthen_result_Inr:
  "andthen m k s = (Inr y, t) \<longleftrightarrow> (\<exists>x s'. m s = (Inr x, s') \<and> k x s' = (Inr y, t))"
  by (auto simp: andthen_def split: prod.splits sum.splits)

lemma andthen_result_Inl:
  "andthen m k s = (Inl e, t) \<longleftrightarrow>
     m s = (Inl e, t) \<or> (\<exists>x s'. m s = (Inr x, s') \<and> k x s' = (Inl e, t))"
  by (auto simp: andthen_def split: prod.splits sum.splits)

lemma with_destructor_result:
  "with_destructor m d s = (r, t) \<longleftrightarrow> (\<exists>s'. m s = (r, s') \<and> t = d s')"
  by (auto simp: with_destructor_def split: prod.splits)

lemma case_sum_throw_Inr:
  "case_sum (\<lambda>e. throw (f e)) k r s = (Inr y, t) \<longleftrightarrow> (\<exists>n. r = Inr n \<and> k n s = (Inr y, t))"
  by (cases r) (auto simp: throw_def)

section \<open>Lists\<close>

text \<open>The prefix of good elements of a text that continues with a bad one, or ends.\<close>

lemma takeWhile_prefix:
  assumes "\<forall>x \<in> set xs. P x" and "ys = [] \<or> \<not> P (hd ys)"
  shows "takeWhile P (xs @ ys) = xs" and "dropWhile P (xs @ ys) = ys"
  using assms by (induction xs) (auto, (cases ys; auto)+)

lemma length_eq_4: "length xs = 4 \<longleftrightarrow> (\<exists>a b c d. xs = [a, b, c, d])"
  by (auto simp: numeral_eq_Suc length_Suc_conv)

lemma length_eq_6: "length xs = 6 \<longleftrightarrow> (\<exists>a b c d e f. xs = [a, b, c, d, e, f])"
  by (auto simp: numeral_eq_Suc length_Suc_conv)

end
