(* ===== verification/Text_Streams.thy ===== *)
theory Text_Streams
  imports Prelude
begin

text \<open>
  The part of the C++ text library the program uses: an output string stream with its number
  base, fill character and field width; an input string stream with its error flags; the
  extraction of a character and of an unsigned integer from it; and the conversions
  \<open>to_string\<close> and \<open>stoull\<close>. An extraction that fails before it reads leaves its variable as
  it was, which is the result \<open>None\<close> here: the callers decide what an untouched variable
  means.
\<close>

section \<open>Digits\<close>

definition digit_char :: "nat \<Rightarrow> char" where
  "digit_char d = ''0123456789abcdef'' ! d"

definition digit_value :: "char \<Rightarrow> nat option" where
  "digit_value ch =
     (let c = (of_char ch :: nat) in
      if 48 \<le> c \<and> c \<le> 57 then Some (c - 48)
      else if 97 \<le> c \<and> c \<le> 102 then Some (c - 87)
      else if 65 \<le> c \<and> c \<le> 70 then Some (c - 55)
      else None)"

definition is_digit :: "nat \<Rightarrow> char \<Rightarrow> bool" where
  "is_digit base ch = (case digit_value ch of None \<Rightarrow> False | Some d \<Rightarrow> d < base)"

fun show_radix :: "nat \<Rightarrow> nat \<Rightarrow> string" where
  "show_radix base n =
     (if n < base \<or> base < 2 then [digit_char n]
      else show_radix base (n div base) @ [digit_char (n mod base)])"

declare show_radix.simps [simp del]

definition digits_value :: "nat \<Rightarrow> string \<Rightarrow> nat" where
  "digits_value base ds = foldl (\<lambda>n ch. n * base + the (digit_value ch)) 0 ds"

lemma less_16_cases:
  fixes d :: nat
  assumes "d < 16"
  shows "d \<in> {0, 1, 2, 3, 4, 5, 6, 7, 8, 9, 10, 11, 12, 13, 14, 15}"
proof -
  have "d = 0 \<or> d = 1 \<or> d = 2 \<or> d = 3 \<or> d = 4 \<or> d = 5 \<or> d = 6 \<or> d = 7 \<or> d = 8 \<or> d = 9
    \<or> d = 10 \<or> d = 11 \<or> d = 12 \<or> d = 13 \<or> d = 14 \<or> d = 15"
    using assms by presburger
  then show ?thesis by simp
qed

lemma digit_value_digit_char [simp]: "d < 16 \<Longrightarrow> digit_value (digit_char d) = Some d"
  using less_16_cases [of d] by (auto simp: digit_char_def digit_value_def Let_def)

lemma is_digit_digit_char: "d < base \<Longrightarrow> base \<le> 16 \<Longrightarrow> is_digit base (digit_char d)"
  by (simp add: is_digit_def)

lemma show_radix_digits:
  "2 \<le> base \<Longrightarrow> base \<le> 16 \<Longrightarrow> \<forall>c \<in> set (show_radix base n). is_digit base c"
proof (induction base n rule: show_radix.induct)
  case (1 base n)
  then show ?case
    by (subst show_radix.simps) (auto simp: is_digit_digit_char)
qed

lemma show_radix_not_Nil [simp]: "show_radix base n \<noteq> []"
  by (subst show_radix.simps) simp

lemma digits_value_snoc:
  "digits_value base (ds @ [c]) = digits_value base ds * base + the (digit_value c)"
  by (simp add: digits_value_def)

lemma digits_value_single: "digits_value base [c] = the (digit_value c)"
  by (simp add: digits_value_def)

lemma digits_value_show_radix:
  "2 \<le> base \<Longrightarrow> base \<le> 16 \<Longrightarrow> digits_value base (show_radix base n) = n"
proof (induction base n rule: show_radix.induct)
  case (1 base n)
  show ?case
  proof (cases "n < base")
    case True
    with 1 show ?thesis
      by (subst show_radix.simps) (simp add: digits_value_single)
  next
    case False
    have "n mod base < 16"
      using 1 mod_less_divisor [of base n] by linarith
    with False 1 show ?thesis
      by (subst show_radix.simps) (simp add: digits_value_snoc)
  qed
qed

lemma digits_value_zero_prefix:
  "digits_value base (replicate k (CHR ''0'') @ ds) = digits_value base ds"
  by (induction k) (simp_all add: digits_value_def digit_value_def)

lemma length_show_radix_less:
  "2 \<le> base \<Longrightarrow> n < base ^ Suc k \<Longrightarrow> length (show_radix base n) \<le> Suc k"
proof (induction k arbitrary: n)
  case 0
  then show ?case by (subst show_radix.simps) simp
next
  case (Suc k)
  show ?case
  proof (cases "n < base")
    case True
    then show ?thesis by (subst show_radix.simps) simp
  next
    case False
    have "n div base < base ^ Suc k"
      using Suc.prems by (simp add: less_mult_imp_div_less mult.commute)
    with Suc have "length (show_radix base (n div base)) \<le> Suc k" by blast
    with False show ?thesis by (subst show_radix.simps) simp
  qed
qed

section \<open>Output string streams\<close>

record ostream =
  written :: string
  out_base :: nat
  fill :: char
  width :: nat

definition ostringstream :: ostream where
  "ostringstream = \<lparr>written = [], out_base = 10, fill = CHR '' '', width = 0\<rparr>"

text \<open>A formatted insertion pads on the left with the fill character and resets the width.\<close>

definition put_text :: "string \<Rightarrow> ostream \<Rightarrow> ostream" where
  "put_text t out =
     out\<lparr>written := written out @ replicate (width out - length t) (fill out) @ t, width := 0\<rparr>"

definition put_unsigned :: "uint32 \<Rightarrow> ostream \<Rightarrow> ostream" where
  "put_unsigned n out = put_text (show_radix (out_base out) (unat n)) out"

definition to_string :: "uint64 \<Rightarrow> string" where
  "to_string n = show_radix 10 (unat n)"

lemma to_string_digits: "\<forall>c \<in> set (to_string n). is_digit 10 c"
  by (simp add: to_string_def show_radix_digits)

section \<open>Input string streams\<close>

record istream =
  unread :: string
  eofbit :: bool
  failbit :: bool
  in_base :: nat

definition istringstream :: "string \<Rightarrow> istream" where
  "istringstream text = \<lparr>unread = text, eofbit = False, failbit = False, in_base = 10\<rparr>"

definition is_space :: "char \<Rightarrow> bool" where
  "is_space ch = (let c = (of_char ch :: nat) in c = 32 \<or> (9 \<le> c \<and> c \<le> 13))"

text \<open>
  The sentry every formatted extraction constructs first: on a stream in an error state it
  fails; otherwise it skips white space, and reaching the end there sets both bits.
\<close>

definition sentry :: "istream \<Rightarrow> bool \<times> istream" where
  "sentry st =
     (if eofbit st \<or> failbit st then (False, st\<lparr>failbit := True\<rparr>)
      else let r = dropWhile is_space (unread st) in
        if r = [] then (False, st\<lparr>unread := [], eofbit := True, failbit := True\<rparr>)
        else (True, st\<lparr>unread := r\<rparr>))"

definition extract_char :: "istream \<Rightarrow> char option \<times> istream" where
  "extract_char st =
     (case sentry st of
        (False, st') \<Rightarrow> (None, st')
      | (True, st') \<Rightarrow> (Some (hd (unread st')), st'\<lparr>unread := tl (unread st')\<rparr>))"

definition skip_sign :: "string \<Rightarrow> bool \<times> string" where
  "skip_sign s =
     (case s of
        [] \<Rightarrow> (False, [])
      | c # r \<Rightarrow> if c = CHR ''-'' then (True, r)
                else if c = CHR ''+'' then (False, r) else (False, s))"

definition skip_base_prefix :: "nat \<Rightarrow> string \<Rightarrow> string" where
  "skip_base_prefix base s =
     (case s of
        z # x # r \<Rightarrow>
          if base = 16 \<and> z = CHR ''0'' \<and> (x = CHR ''x'' \<or> x = CHR ''X'') then r else s
      | _ \<Rightarrow> s)"

text \<open>
  The extraction of an \<open>unsigned\<close>: an optional sign, in base 16 an optional \<open>0x\<close>, then the
  longest run of digits. No digit gives 0 and a failure; a value above the type's range gives
  the greatest value and a failure; a minus sign negates modulo the range.
\<close>

definition extract_unsigned :: "istream \<Rightarrow> uint32 option \<times> istream" where
  "extract_unsigned st =
     (case sentry st of
        (False, st') \<Rightarrow> (None, st')
      | (True, st') \<Rightarrow>
          (let (neg, s1) = skip_sign (unread st');
               s2 = skip_base_prefix (in_base st') s1;
               ds = takeWhile (is_digit (in_base st')) s2;
               r = dropWhile (is_digit (in_base st')) s2;
               v = digits_value (in_base st') ds
           in (Some (if ds = [] then 0
                     else if 2 ^ 32 \<le> v then 2 ^ 32 - 1
                     else if neg then - of_nat v else of_nat v),
               st'\<lparr>unread := r, eofbit := (r = []), failbit := (ds = [] \<or> 2 ^ 32 \<le> v)\<rparr>)))"

section \<open>stoull\<close>

datatype conversion_error = InvalidArgument | OutOfRange

text \<open>
  \<open>stoull\<close> skips white space, takes an optional sign and the longest run of decimal digits
  and ignores what follows.
\<close>

definition stoull :: "string \<Rightarrow> conversion_error + uint64" where
  "stoull text =
     (let (neg, s1) = skip_sign (dropWhile is_space text);
          ds = takeWhile (is_digit 10) s1;
          v = digits_value 10 ds
      in if ds = [] then Inl InvalidArgument
         else if 2 ^ 64 \<le> v then Inl OutOfRange
         else Inr (if neg then - of_nat v else of_nat v))"

section \<open>Reading a number that was printed\<close>

lemma digit_not_space: "is_digit base c \<Longrightarrow> \<not> is_space c"
  by (auto simp: is_digit_def digit_value_def is_space_def Let_def split: if_splits)

lemma sign_not_digit [simp]: "\<not> is_digit base (CHR ''-'')" "\<not> is_digit base (CHR ''+'')"
  by (auto simp: is_digit_def digit_value_def)

lemma x_not_digit [simp]: "\<not> is_digit base (CHR ''x'')" "\<not> is_digit base (CHR ''X'')"
  by (auto simp: is_digit_def digit_value_def)

lemma skip_sign_digits:
  assumes "ds \<noteq> []" and "\<forall>c \<in> set ds. is_digit base c"
  shows "skip_sign (ds @ r) = (False, ds @ r)"
  using assms by (cases ds) (auto simp: skip_sign_def)

lemma skip_base_prefix_digits:
  assumes "ds \<noteq> []" and "\<forall>c \<in> set ds. is_digit base c"
    and "r = [] \<or> base \<noteq> 16 \<or> hd r \<noteq> CHR ''x'' \<and> hd r \<noteq> CHR ''X''"
  shows "skip_base_prefix base (ds @ r) = ds @ r"
  using assms
  by (cases ds; cases "tl ds"; cases r) (auto simp: skip_base_prefix_def)

lemma dropWhile_space_digits:
  assumes "ds \<noteq> []" and "\<forall>c \<in> set ds. is_digit base c"
  shows "dropWhile is_space (ds @ r) = ds @ r"
  using assms by (cases ds) (auto dest: digit_not_space)

text \<open>
  What an extraction reads where a run of digits stands: its value, if it fits, and the text
  after it.
\<close>

lemma extract_unsigned_digits:
  assumes ds: "ds \<noteq> []" "\<forall>c \<in> set ds. is_digit base c"
    and r: "r = [] \<or> \<not> is_digit base (hd r) \<and> (base = 16 \<longrightarrow> hd r \<noteq> CHR ''x'' \<and> hd r \<noteq> CHR ''X'')"
    and v: "digits_value base ds < 2 ^ 32"
    and st: "unread st = ds @ r" "\<not> eofbit st" "\<not> failbit st" "in_base st = base"
  shows "extract_unsigned st =
    (Some (of_nat (digits_value base ds)), st\<lparr>unread := r, eofbit := (r = [])\<rparr>)"
proof -
  have sent: "sentry st = (True, st)"
    using st ds by (simp add: sentry_def Let_def dropWhile_space_digits)
  have run: "takeWhile (is_digit base) (ds @ r) = ds" "dropWhile (is_digit base) (ds @ r) = r"
    using takeWhile_prefix [of ds "is_digit base" r] ds(2) r by blast+
  have p: "skip_base_prefix base (ds @ r) = ds @ r"
    using skip_base_prefix_digits [OF ds] r by blast
  have "skip_sign (ds @ r) = (False, ds @ r)"
    by (rule skip_sign_digits [OF ds])
  then show ?thesis
    using sent p v st(1,4) ds(1) st(2,3)
    by (simp only: extract_unsigned_def run Let_def prod.case bool.case if_False) simp
qed

lemma extract_char_here:
  assumes "unread st = c # r" "\<not> eofbit st" "\<not> failbit st" "\<not> is_space c"
  shows "extract_char st = (Some c, st\<lparr>unread := r\<rparr>)"
  using assms by (simp add: extract_char_def sentry_def Let_def)

lemma stoull_to_string: "stoull (to_string n) = Inr n"
proof -
  let ?t = "to_string n"
  have digits: "\<forall>c \<in> set ?t. is_digit 10 c" by (rule to_string_digits)
  have ne: "?t \<noteq> []" by (simp add: to_string_def)
  have v: "digits_value 10 ?t = unat n"
    by (simp add: to_string_def digits_value_show_radix)
  have "unat n < 2 ^ 64" using unat_less_length [of n] by simp
  moreover have "dropWhile is_space ?t = ?t" "skip_sign ?t = (False, ?t)"
    using dropWhile_space_digits [OF ne digits, of "[]"] skip_sign_digits [OF ne digits, of "[]"]
    by simp_all
  moreover have "takeWhile (is_digit 10) ?t = ?t" 
    using takeWhile_prefix(1) [OF digits, of "[]"] by simp
  ultimately show ?thesis using ne v by (simp only: stoull_def Let_def prod.case) simp
qed

end
