(* ===== verification/Failures.thy ===== *)
theory Failures
  imports Text_Streams
begin

text \<open>
  The exception classes of the program (\<open>io_exception.cpp\<close>, and those of \<open>address.h\<close> and
  \<open>packet.h\<close>) as records with their fields, their constructors and accessors, and the type
  of the ways in which a function of the program can fail: an exception of one of these
  classes, one of the standard library, or undefined behaviour reached.
\<close>

section \<open>Addresses, as the exception classes carry them\<close>

text \<open>
  \<open>MacAddress\<close> and \<open>IpAddress\<close> are arrays of 6 and of 4 bytes in network order; the length is
  stated where it matters by \<open>is_mac\<close> and \<open>is_ip\<close>.
\<close>

type_synonym MacAddress = "uint8 list"
type_synonym IpAddress = "uint8 list"

definition is_mac :: "MacAddress \<Rightarrow> bool" where
  "is_mac a \<longleftrightarrow> length a = 6"

definition is_ip :: "IpAddress \<Rightarrow> bool" where
  "is_ip a \<longleftrightarrow> length a = 4"

section \<open>IOException\<close>

record io_exception =
  context' :: string
  c_errno' :: int
  io_message :: string

text \<open>The constructor reads \<open>errno\<close>; \<open>strerror\<close> is the C library's text for a number.\<close>

definition IOException :: "(int \<Rightarrow> string) \<Rightarrow> int \<Rightarrow> string \<Rightarrow> io_exception" where
  "IOException strerror errno context0 =
     \<lparr>context' = context0, c_errno' = errno,
      io_message = context0 @ '': '' @ strerror errno\<rparr>"

definition c_errno :: "io_exception \<Rightarrow> int" where
  "c_errno e = c_errno' e"

definition io_context :: "io_exception \<Rightarrow> string" where
  "io_context e = context' e"

definition io_what :: "io_exception \<Rightarrow> string" where
  "io_what e = io_message e"

section \<open>The exceptions of addresses and packets\<close>

record invalid_address_exception =
  ia_message :: string

definition InvalidAddressException :: "string \<Rightarrow> invalid_address_exception" where
  "InvalidAddressException message0 = \<lparr>ia_message = message0\<rparr>"

record no_ip_address_found_exception =
  hostname' :: string
  ni_message :: string

definition NoIpAddressFoundException :: "string \<Rightarrow> no_ip_address_found_exception" where
  "NoIpAddressFoundException hostname0 =
     \<lparr>hostname' = hostname0,
      ni_message = ''no matching IP address found for hostname '' @ hostname0\<rparr>"

record no_mac_address_found_exception =
  ip_address' :: IpAddress
  nm_message :: string

record invalid_packet_exception =
  ip_message :: string

definition InvalidPacketException :: "string \<Rightarrow> invalid_packet_exception" where
  "InvalidPacketException message0 = \<lparr>ip_message = message0\<rparr>"

section \<open>Failures\<close>

text \<open>
  \<open>InvalidPacketPtrExc\<close> is a thrown pointer to an exception object, which a handler for the
  class does not catch. \<open>Undefined\<close> is not an exception: it says that the execution reached
  undefined behaviour, and why.
\<close>

datatype failure =
    IOExc io_exception
  | InvalidAddressExc invalid_address_exception
  | NoIpAddressFoundExc no_ip_address_found_exception
  | NoMacAddressFoundExc no_mac_address_found_exception
  | InvalidPacketExc invalid_packet_exception
  | InvalidPacketPtrExc invalid_packet_exception
  | ConversionExc conversion_error
  | BadOptionalAccess
  | Undefined string

type_synonym ('s, 'a) action = "('s, failure, 'a) prog"

definition undefined_behaviour :: "string \<Rightarrow> ('s, 'a) action" where
  "undefined_behaviour why = throw (Undefined why)"

end
