(* ===== verification/Address.thy ===== *)
theory Address
  imports Failures
begin

text \<open>
  The text form of addresses (\<open>address.cpp\<close>): the stream operators for MAC and IPv4
  addresses, the functions that parse a whole string and render into one, and the addresses
  of a node. Both formats are separated numbers, so they share the contract \<open>octet_text\<close>,
  proved once and interpreted for each.
\<close>

section \<open>Node addresses\<close>

record NodeAddresses =
  mac :: MacAddress
  ip :: IpAddress
  hostname :: string

definition NodeAddresses_new :: NodeAddresses where
  "NodeAddresses_new = \<lparr>mac = replicate 6 0, ip = replicate 4 0, hostname = []\<rparr>"

definition wf_addresses :: "NodeAddresses \<Rightarrow> bool" where
  "wf_addresses a \<longleftrightarrow> is_mac (mac a) \<and> is_ip (ip a)"

section \<open>Reading\<close>

text \<open>
  One field: \<open>input_stream >> ch\<close> and its comparison with the separator, then
  \<open>input_stream >> byte\<close>. Both variables are declared without an initial value, so where the
  extraction leaves them untouched the program reads an indeterminate value. The number is
  stored into a byte, which keeps its low eight bits.
\<close>

definition expect_separator :: "char \<Rightarrow> string \<Rightarrow> (istream, unit) action" where
  "expect_separator sep message0 =
     andthen (call extract_char) (\<lambda>ch.
       case ch of
         None \<Rightarrow> undefined_behaviour ''separator read before it was written''
       | Some c \<Rightarrow>
           if c \<noteq> sep then throw (InvalidAddressExc (InvalidAddressException message0))
           else ret ())"

definition read_octet :: "(istream, uint8) action" where
  "read_octet =
     andthen (call extract_unsigned) (\<lambda>byte.
       case byte of
         None \<Rightarrow> undefined_behaviour ''byte read before it was written''
       | Some b \<Rightarrow> ret (ucast b))"

fun read_octets :: "char \<Rightarrow> string \<Rightarrow> bool \<Rightarrow> nat \<Rightarrow> (istream, uint8 list) action" where
  "read_octets sep message0 first 0 = ret []"
| "read_octets sep message0 first (Suc n) =
     andthen (if first then ret () else expect_separator sep message0) (\<lambda>_.
     andthen read_octet (\<lambda>b.
     andthen (read_octets sep message0 False n) (\<lambda>bs.
     ret (b # bs))))"

text \<open>The operators set the number base for the loop and restore the flags after it.\<close>

definition extract_mac :: "(istream, MacAddress) action" where
  "extract_mac =
     andthen (gets in_base) (\<lambda>fmtflags.
     andthen (modify (\<lambda>st. st\<lparr>in_base := 16\<rparr>)) (\<lambda>_.
     andthen (read_octets (CHR '':'') ''expected `:` in MAC address'' True 6) (\<lambda>address.
     andthen (modify (\<lambda>st. st\<lparr>in_base := fmtflags\<rparr>)) (\<lambda>_.
     ret address))))"

definition extract_ip :: "(istream, IpAddress) action" where
  "extract_ip =
     andthen (gets in_base) (\<lambda>fmtflags.
     andthen (modify (\<lambda>st. st\<lparr>in_base := 10\<rparr>)) (\<lambda>_.
     andthen (read_octets (CHR ''.'') ''expected `.` in IPV4 address'' True 4) (\<lambda>address.
     andthen (modify (\<lambda>st. st\<lparr>in_base := fmtflags\<rparr>)) (\<lambda>_.
     ret address))))"

definition parse_mac_address :: "string \<Rightarrow> failure + MacAddress" where
  "parse_mac_address text =
     (case extract_mac (istringstream text) of
        (Inl e, _) \<Rightarrow> Inl e
      | (Inr address, st) \<Rightarrow>
          if \<not> eofbit st
          then Inl (InvalidAddressExc (InvalidAddressException ''expected end of input''))
          else Inr address)"

definition parse_ip_address :: "string \<Rightarrow> failure + IpAddress" where
  "parse_ip_address text =
     (case extract_ip (istringstream text) of
        (Inl e, _) \<Rightarrow> Inl e
      | (Inr address, st) \<Rightarrow>
          if \<not> eofbit st
          then Inl (InvalidAddressExc (InvalidAddressException ''expected end of input''))
          else Inr address)"

section \<open>Rendering\<close>

fun put_mac_octets :: "bool \<Rightarrow> uint8 list \<Rightarrow> ostream \<Rightarrow> ostream" where
  "put_mac_octets first [] out = out"
| "put_mac_octets first (b # bs) out =
     (let out1 = (if first then out else put_text '':'' out)
      in put_mac_octets False bs
           (put_unsigned (ucast b) (out1\<lparr>fill := CHR ''0'', width := 2\<rparr>)))"

fun put_ip_octets :: "bool \<Rightarrow> uint8 list \<Rightarrow> ostream \<Rightarrow> ostream" where
  "put_ip_octets first [] out = out"
| "put_ip_octets first (b # bs) out =
     (let out1 = (if first then out else put_text ''.'' out)
      in put_ip_octets False bs (put_unsigned (ucast b) out1))"

definition put_mac :: "MacAddress \<Rightarrow> ostream \<Rightarrow> ostream" where
  "put_mac address out =
     (put_mac_octets True address (out\<lparr>out_base := 16\<rparr>))\<lparr>out_base := out_base out\<rparr>"

definition put_ip :: "IpAddress \<Rightarrow> ostream \<Rightarrow> ostream" where
  "put_ip address out =
     (put_ip_octets True address (out\<lparr>out_base := 10\<rparr>))\<lparr>out_base := out_base out\<rparr>"

definition render_mac_address :: "MacAddress \<Rightarrow> string" where
  "render_mac_address address = written (put_mac address ostringstream)"

definition render_ip_address :: "IpAddress \<Rightarrow> string" where
  "render_ip_address address = written (put_ip address ostringstream)"

definition NoMacAddressFoundException :: "IpAddress \<Rightarrow> no_mac_address_found_exception" where
  "NoMacAddressFoundException ip_address0 =
     \<lparr>ip_address' = ip_address0,
      nm_message = ''no matching MAC address found for IP '' @ render_ip_address ip_address0\<rparr>"

section \<open>Separated numbers\<close>

text \<open>The text of a list of numbers with a separator between them.\<close>

fun separated :: "char \<Rightarrow> ('a \<Rightarrow> string) \<Rightarrow> 'a list \<Rightarrow> string" where
  "separated sep shown [] = []"
| "separated sep shown [n] = shown n"
| "separated sep shown (n # m # ns) = shown n @ sep # separated sep shown (m # ns)"

text \<open>
  The contract of a text format for octets: how a number is shown and what separates two. A
  client gets from it what the reading loop makes of such a text, whatever its numbers.
\<close>

locale octet_text =
  fixes sep :: char and base :: nat and shown :: "nat \<Rightarrow> string"
  assumes shown_nonempty: "shown n \<noteq> []"
    and shown_digits: "c \<in> set (shown n) \<Longrightarrow> is_digit base c"
    and shown_value: "digits_value base (shown n) = n"
    and sep_not_digit: "\<not> is_digit base sep"
    and sep_not_x: "sep \<noteq> CHR ''x''" "sep \<noteq> CHR ''X''"
    and sep_not_space: "\<not> is_space sep"
begin

definition number_end :: "string \<Rightarrow> bool" where
  "number_end r \<longleftrightarrow>
     r = [] \<or> \<not> is_digit base (hd r) \<and> (base = 16 \<longrightarrow> hd r \<noteq> CHR ''x'' \<and> hd r \<noteq> CHR ''X'')"

definition rest_of :: "nat list \<Rightarrow> string" where
  "rest_of ns = (if ns = [] then [] else sep # separated sep shown ns)"

lemma separated_Cons: "separated sep shown (n # ns) = shown n @ rest_of ns"
  by (cases ns) (simp_all add: rest_of_def)

lemma read_octet_shown:
  assumes "n < 2 ^ 32" and "number_end r"
    and "unread st = shown n @ r" "\<not> eofbit st" "\<not> failbit st" "in_base st = base"
  shows "read_octet st = (Inr (of_nat n), st\<lparr>unread := r, eofbit := (r = [])\<rparr>)"
proof -
  have "extract_unsigned st =
      (Some (of_nat (digits_value base (shown n))), st\<lparr>unread := r, eofbit := (r = [])\<rparr>)"
    using assms shown_nonempty [of n] shown_digits [of _ n] shown_value [of n]
    by (intro extract_unsigned_digits) (auto simp: number_end_def)
  then show ?thesis
    by (simp add: read_octet_def shown_value andthen_def call_def ret_def)
qed

lemma expect_separator_here:
  assumes "unread st = sep # r" "\<not> eofbit st" "\<not> failbit st"
  shows "expect_separator sep message0 st = (Inr (), st\<lparr>unread := r\<rparr>)"
  using extract_char_here [OF assms sep_not_space]
  by (simp add: expect_separator_def andthen_def call_def ret_def)

text \<open>
  The loop over a text of numbers followed by \<open>r\<close>: it takes the numbers and goes on at \<open>r\<close>
  for the fields it still wants.
\<close>

lemma read_octets_prefix:
  assumes "\<forall>n \<in> set ns. n < 2 ^ 32" and "ns \<noteq> []" and "number_end r"
    and "unread st = (if first then separated sep shown ns else rest_of ns) @ r"
    and "\<not> eofbit st" "\<not> failbit st" "in_base st = base"
  shows "read_octets sep message0 first (length ns + k) st =
    andthen (read_octets sep message0 False k) (\<lambda>bs. ret (map of_nat ns @ bs))
      (st\<lparr>unread := r, eofbit := (r = [])\<rparr>)"
  using assms
proof (induction ns arbitrary: st first)
  case Nil
  then show ?case by simp
next
  case (Cons n ns)
  let ?r = "rest_of ns @ r"
  let ?st1 = "st\<lparr>unread := shown n @ ?r\<rparr>"
  let ?st2 = "st\<lparr>unread := ?r, eofbit := (?r = [])\<rparr>"
  have skip: "(if first then ret () else expect_separator sep message0) st = (Inr (), ?st1)"
    using Cons.prems
    by (cases first) (simp_all add: separated_Cons ret_def rest_of_def expect_separator_here)
  have "number_end ?r"
    using Cons.prems(3) sep_not_digit sep_not_x by (simp add: number_end_def rest_of_def)
  then have one: "read_octet ?st1 = (Inr (of_nat n), ?st2)"
    using read_octet_shown [of n ?r ?st1] Cons.prems by simp
  have more: "read_octets sep message0 False (length ns + k) ?st2 =
      andthen (read_octets sep message0 False k) (\<lambda>bs. ret (map of_nat ns @ bs))
        (st\<lparr>unread := r, eofbit := (r = [])\<rparr>)"
  proof (cases "ns = []")
    case True
    then show ?thesis by (simp add: rest_of_def andthen_def ret_def split: prod.splits sum.splits)
  next
    case False
    with Cons.prems Cons.IH [of ?st2 False] show ?thesis by (simp add: rest_of_def)
  qed
  show ?case
    using skip one more
    by (simp add: andthen_Inr) (simp add: andthen_def ret_def split: prod.splits sum.splits)
qed

lemma read_octets_separated:
  assumes "\<forall>n \<in> set ns. n < 2 ^ 32" and "ns \<noteq> []" and "number_end r"
    and "unread st = separated sep shown ns @ r"
    and "\<not> eofbit st" "\<not> failbit st" "in_base st = base"
  shows "read_octets sep message0 True (length ns) st =
    (Inr (map of_nat ns), st\<lparr>unread := r, eofbit := (r = [])\<rparr>)"
  using read_octets_prefix [of ns r st True message0 0] assms
  by (simp add: andthen_def ret_def)

text \<open>Fewer numbers than fields: the separator after the last one is never written.\<close>

lemma read_octets_short:
  assumes "\<forall>n \<in> set ns. n < 2 ^ 32" and "ns \<noteq> []" and "length ns < k"
    and "unread st = separated sep shown ns"
    and "\<not> eofbit st" "\<not> failbit st" "in_base st = base"
  shows "fst (read_octets sep message0 True k st) =
    Inl (Undefined ''separator read before it was written'')"
proof -
  obtain j where k: "k = length ns + Suc j"
    using assms(3) less_iff_Suc_add by auto
  have "read_octets sep message0 True k st =
      andthen (read_octets sep message0 False (Suc j)) (\<lambda>bs. ret (map of_nat ns @ bs))
        (st\<lparr>unread := [], eofbit := True\<rparr>)"
    using read_octets_prefix [of ns "[]" st True message0 "Suc j"] assms k
    by (simp add: number_end_def)
  then show ?thesis
    by (simp add: andthen_def expect_separator_def extract_char_def sentry_def call_def
        undefined_behaviour_def throw_def)
qed

text \<open>Another character where the separator belongs: the exception with the message.\<close>

lemma read_octets_wrong_separator:
  assumes "\<forall>n \<in> set ns. n < 2 ^ 32" and "ns \<noteq> []" and "length ns < k"
    and "unread st = separated sep shown ns @ c # r"
    and c: "c \<noteq> sep" "\<not> is_space c" "number_end (c # r)"
    and "\<not> eofbit st" "\<not> failbit st" "in_base st = base"
  shows "fst (read_octets sep message0 True k st) =
    Inl (InvalidAddressExc (InvalidAddressException message0))"
proof -
  obtain j where k: "k = length ns + Suc j"
    using assms(3) less_iff_Suc_add by auto
  have "read_octets sep message0 True k st =
      andthen (read_octets sep message0 False (Suc j)) (\<lambda>bs. ret (map of_nat ns @ bs))
        (st\<lparr>unread := c # r, eofbit := False\<rparr>)"
    using read_octets_prefix [of ns "c # r" st True message0 "Suc j"] assms k by simp
  moreover have "extract_char (st\<lparr>unread := c # r, eofbit := False\<rparr>) =
      (Some c, st\<lparr>unread := r, eofbit := False\<rparr>)"
    using extract_char_here [of "st\<lparr>unread := c # r, eofbit := False\<rparr>" c r] assms by simp
  ultimately show ?thesis
    using c(1) by (simp add: andthen_def expect_separator_def call_def throw_def)
qed

end

section \<open>The two formats\<close>

definition mac_digits :: "nat \<Rightarrow> string" where
  "mac_digits n = replicate (2 - length (show_radix 16 n)) (CHR ''0'') @ show_radix 16 n"

interpretation ip_text: octet_text "CHR ''.''" 10 "show_radix 10"
  by unfold_locales
    (auto simp: digits_value_show_radix is_digit_def digit_value_def is_space_def
      dest: show_radix_digits [rule_format, rotated 2])

interpretation mac_text: octet_text "CHR '':''" 16 mac_digits
  by unfold_locales
    (auto simp: mac_digits_def digits_value_show_radix digits_value_zero_prefix is_digit_def
      digit_value_def is_space_def dest: show_radix_digits [rule_format, rotated 2])

section \<open>Rendering writes the separated text\<close>

lemma put_ip_octets_written:
  assumes "width out = 0" and "out_base out = 10"
  shows "written (put_ip_octets first bs out) = written out @
    (if first then separated (CHR ''.'') (show_radix 10) (map unat bs)
     else ip_text.rest_of (map unat bs))"
  using assms
proof (induction bs arbitrary: out first)
  case Nil
  then show ?case by (simp add: ip_text.rest_of_def)
next
  case (Cons b bs)
  then show ?case
    by (cases first)
      (simp_all add: ip_text.separated_Cons ip_text.rest_of_def put_unsigned_def put_text_def)
qed

lemma put_mac_octets_written:
  assumes "width out = 0" and "out_base out = 16"
  shows "written (put_mac_octets first bs out) = written out @
    (if first then separated (CHR '':'') mac_digits (map unat bs)
     else mac_text.rest_of (map unat bs))"
  using assms
proof (induction bs arbitrary: out first)
  case Nil
  then show ?case by (simp add: mac_text.rest_of_def)
next
  case (Cons b bs)
  then show ?case
    by (cases first)
      (simp_all add: mac_text.separated_Cons mac_text.rest_of_def put_unsigned_def put_text_def
        mac_digits_def)
qed

lemma render_ip_separated:
  "render_ip_address a = separated (CHR ''.'') (show_radix 10) (map unat a)"
  by (simp add: render_ip_address_def put_ip_def put_ip_octets_written ostringstream_def)

lemma render_mac_separated:
  "render_mac_address a = separated (CHR '':'') mac_digits (map unat a)"
  by (simp add: render_mac_address_def put_mac_def put_mac_octets_written ostringstream_def)


section \<open>What parsing makes of separated numbers\<close>

lemma parse_ip_separated:
  assumes "length ns = 4" and "\<forall>n \<in> set ns. n < 2 ^ 32" and "ip_text.number_end r"
  shows "parse_ip_address (separated (CHR ''.'') (show_radix 10) ns @ r) =
    (if r = [] then Inr (map of_nat ns)
     else Inl (InvalidAddressExc (InvalidAddressException ''expected end of input'')))"
proof -
  let ?st = "(istringstream (separated (CHR ''.'') (show_radix 10) ns @ r))\<lparr>in_base := 10\<rparr>"
  have "read_octets (CHR ''.'') ''expected `.` in IPV4 address'' True (length ns) ?st =
      (Inr (map of_nat ns), ?st\<lparr>unread := r, eofbit := (r = [])\<rparr>)"
    using assms by (intro ip_text.read_octets_separated) (auto simp: istringstream_def)
  then show ?thesis
    using assms(1) by (simp add: parse_ip_address_def extract_ip_def andthen_Inr ret_def)
qed

lemma parse_mac_separated:
  assumes "length ns = 6" and "\<forall>n \<in> set ns. n < 2 ^ 32" and "mac_text.number_end r"
  shows "parse_mac_address (separated (CHR '':'') mac_digits ns @ r) =
    (if r = [] then Inr (map of_nat ns)
     else Inl (InvalidAddressExc (InvalidAddressException ''expected end of input'')))"
proof -
  let ?st = "(istringstream (separated (CHR '':'') mac_digits ns @ r))\<lparr>in_base := 16\<rparr>"
  have "read_octets (CHR '':'') ''expected `:` in MAC address'' True (length ns) ?st =
      (Inr (map of_nat ns), ?st\<lparr>unread := r, eofbit := (r = [])\<rparr>)"
    using assms by (intro mac_text.read_octets_separated) (auto simp: istringstream_def)
  then show ?thesis
    using assms(1) by (simp add: parse_mac_address_def extract_mac_def andthen_Inr ret_def)
qed

lemma map_of_nat_unat [simp]: "map (of_nat \<circ> unat) (bs :: uint8 list) = bs"
  by (induction bs) simp_all

lemma length_show_byte: "base = 10 \<or> base = 16 \<Longrightarrow> length (show_radix base (unat (b :: uint8))) \<le> (if base = 10 then 3 else 2)"
  using length_show_radix_less [of 10 "unat b" 2] length_show_radix_less [of 16 "unat b" 1]
    less_trans [OF unat_8_less_256, of 1000 b] by auto

lemma length_read_octets:
  "read_octets sep message0 first n st = (Inr bs, st') \<Longrightarrow> length bs = n"
  by (induction n arbitrary: first st bs st')
    (auto simp: ret_def andthen_result_Inr)

lemma mac_text_example:
  "parse_mac_address (separated (CHR '':'') mac_digits [0, 26, 43, 60, 77, 255]) =
     Inr [0, 26, 43, 60, 77, 255]"
  using parse_mac_separated [of "[0, 26, 43, 60, 77, 255]" "[]"]
  by (simp add: mac_text.number_end_def)

lemma ip_text_example:
  "parse_ip_address (separated (CHR ''.'') (show_radix 10) [192, 168, 0, 255]) =
     Inr [192, 168, 0, 255]"
  using parse_ip_separated [of "[192, 168, 0, 255]" "[]"]
  by (simp add: ip_text.number_end_def)

lemma parse_render_ip: "is_ip a \<Longrightarrow> parse_ip_address (render_ip_address a) = Inr a"
  using parse_ip_separated [of "map unat a" "[]"]
  by (simp add: render_ip_separated is_ip_def ip_text.number_end_def)

lemma parse_render_mac: "is_mac a \<Longrightarrow> parse_mac_address (render_mac_address a) = Inr a"
  using parse_mac_separated [of "map unat a" "[]"]
  by (simp add: render_mac_separated is_mac_def mac_text.number_end_def)

text \<open>The stream operators on a rendered address in front of other text.\<close>

lemma number_ends:
  assumes "r = [] \<or> \<not> is_digit 16 (hd r) \<and> hd r \<notin> {CHR ''x'', CHR ''X''}"
  shows "mac_text.number_end r \<and> ip_text.number_end r"
  using assms by (auto simp: mac_text.number_end_def ip_text.number_end_def is_digit_def split: option.splits)

lemma extract_rendered:
  assumes "is_mac m" and "is_ip a" and "mac_text.number_end r \<and> ip_text.number_end r"
  shows "extract_mac (istringstream (render_mac_address m @ r)) = (Inr m, (istringstream r)\<lparr>eofbit := (r = [])\<rparr>)
    \<and> extract_ip (istringstream (render_ip_address a @ r)) = (Inr a, (istringstream r)\<lparr>eofbit := (r = [])\<rparr>)"
proof -
  let ?m = "(istringstream (render_mac_address m @ r))\<lparr>in_base := 16\<rparr>"
    and ?a = "(istringstream (render_ip_address a @ r))\<lparr>in_base := 10\<rparr>"
  have "m \<noteq> []" "a \<noteq> []" using assms(1,2) by (auto simp: is_mac_def is_ip_def)
  then have "read_octets (CHR '':'') what True (length (map unat m)) ?m = (Inr m, ?m\<lparr>unread := r, eofbit := (r = [])\<rparr>)"
    "read_octets (CHR ''.'') what True (length (map unat a)) ?a = (Inr a, ?a\<lparr>unread := r, eofbit := (r = [])\<rparr>)"
    for what
    using assms(3) mac_text.read_octets_separated [of "map unat m" r ?m] ip_text.read_octets_separated [of "map unat a" r ?a]
    by (simp_all add: istringstream_def render_mac_separated render_ip_separated)
  then show ?thesis
    using assms(1,2) by (simp add: extract_mac_def extract_ip_def is_mac_def is_ip_def andthen_Inr ret_def)
      (simp add: istringstream_def)
qed

section \<open>Properties\<close>

text \<open>
  C35: Both text formats lose nothing: the stream operators give back, of the text of an address,
  exactly this address, and stop exactly behind it, wherever what follows does not continue a
  number; and parsing a rendered MAC or IPv4 address gives the address back.
\<close>

theorem addresses_roundtrip:
  assumes "is_mac m" and "is_ip a" and "r = [] \<or> \<not> is_digit 16 (hd r) \<and> hd r \<notin> {CHR ''x'', CHR ''X''}"
  shows "extract_mac (istringstream (render_mac_address m @ r)) =
      (Inr m, (istringstream r)\<lparr>eofbit := (r = [])\<rparr>)
    \<and> extract_ip (istringstream (render_ip_address a @ r)) = (Inr a, (istringstream r)\<lparr>eofbit := (r = [])\<rparr>)
    \<and> parse_mac_address (render_mac_address m) = Inr m \<and> parse_ip_address (render_ip_address a) = Inr a"
  using extract_rendered [OF assms(1,2) number_ends [OF assms(3)]] parse_render_mac [OF assms(1)]
    parse_render_ip [OF assms(2)]
  by blast

theorem addresses_roundtrip_witness:
  "extract_ip (istringstream (render_ip_address [10, 0, 0, 255] @ '' rest'')) =
     (Inr [10, 0, 0, 255], istringstream '' rest'')
   \<and> parse_mac_address (render_mac_address [0, 26, 43, 60, 77, 255]) = Inr [0, 26, 43, 60, 77, 255]"
  using addresses_roundtrip [of "[0, 26, 43, 60, 77, 255]" "[10, 0, 0, 255]" "'' rest''"]
  by (simp add: is_mac_def is_ip_def is_digit_def digit_value_def istringstream_def)

text \<open>
  C40: The parser does not check the range of an octet: four decimal numbers below \<open>2 ^ 32\<close>
  separated by dots are always accepted, each reduced modulo 256; whatever follows the fourth
  number and is not a digit of it is rejected.
\<close>

theorem ip_octets_truncated:
  assumes "length ns = 4" and "\<forall>n \<in> set ns. n < 2 ^ 32"
  shows "parse_ip_address (separated (CHR ''.'') (show_radix 10) ns) =
      Inr (map (\<lambda>n. of_nat (n mod 256)) ns) \<and>
    (\<not> is_digit 10 c \<longrightarrow>
      parse_ip_address (separated (CHR ''.'') (show_radix 10) ns @ c # r) =
        Inl (InvalidAddressExc (InvalidAddressException ''expected end of input'')))"
  using parse_ip_separated [OF assms, of "[]"] parse_ip_separated [OF assms, of "c # r"]
  by (simp_all add: ip_text.number_end_def word_of_nat_eq_iff take_bit_nat_def)

theorem ip_octets_truncated_witness:
  "parse_ip_address (separated (CHR ''.'') (show_radix 10) [300, 1, 256, 4]) = Inr [44, 1, 0, 4]
   \<and> parse_ip_address (separated (CHR ''.'') (show_radix 10) [300, 1, 256, 4] @ '' '') =
     Inl (InvalidAddressExc (InvalidAddressException ''expected end of input''))"
  using ip_octets_truncated [of "[300, 1, 256, 4]" "CHR '' ''" "[]"]
  by (simp add: is_digit_def digit_value_def)

text \<open>
  The other texts of dotted numbers. With fewer than four numbers the loop compares a
  separator that no extraction wrote, which is undefined behaviour rather than the documented
  exception; with another character in a separator's place the exception is thrown.
\<close>

lemma ip_separator_errors:
  assumes "0 < length ns" and "length ns < 4" and "\<forall>n \<in> set ns. n < 2 ^ 32"
  shows "parse_ip_address (separated (CHR ''.'') (show_radix 10) ns) =
      Inl (Undefined ''separator read before it was written'') \<and>
    (c \<noteq> CHR ''.'' \<and> \<not> is_space c \<and> ip_text.number_end (c # r) \<longrightarrow>
      parse_ip_address (separated (CHR ''.'') (show_radix 10) ns @ c # r) =
        Inl (InvalidAddressExc (InvalidAddressException ''expected `.` in IPV4 address'')))"
proof -
  let ?st = "\<lambda>t. (istringstream t)\<lparr>in_base := 10\<rparr>"
  have parse: "fst (read_octets (CHR ''.'') ''expected `.` in IPV4 address'' True 4 (?st t)) = Inl e \<Longrightarrow>
      parse_ip_address t = Inl e" for t e
    by (cases "read_octets (CHR ''.'') ''expected `.` in IPV4 address'' True 4 (?st t)")
      (simp add: parse_ip_address_def extract_ip_def andthen_Inl istringstream_def)
  have ns: "ns \<noteq> []" using assms(1) by auto
  have "parse_ip_address (separated (CHR ''.'') (show_radix 10) ns) =
      Inl (Undefined ''separator read before it was written'')"
    by (rule parse, rule ip_text.read_octets_short [OF assms(3) ns assms(2)])
      (simp_all add: istringstream_def)
  moreover have "parse_ip_address (separated (CHR ''.'') (show_radix 10) ns @ c # r) =
        Inl (InvalidAddressExc (InvalidAddressException ''expected `.` in IPV4 address''))"
    if "c \<noteq> CHR ''.''" "\<not> is_space c" "ip_text.number_end (c # r)"
    by (rule parse, rule ip_text.read_octets_wrong_separator [OF assms(3) ns assms(2), of _ c r])
      (use that in \<open>simp_all add: istringstream_def\<close>)
  ultimately show ?thesis by blast
qed

lemma ip_separator_errors_witness:
  "parse_ip_address (separated (CHR ''.'') (show_radix 10) [10, 0, 0]) =
     Inl (Undefined ''separator read before it was written'')
   \<and> parse_ip_address (separated (CHR ''.'') (show_radix 10) [10, 0] @ '':0:1'') =
     Inl (InvalidAddressExc (InvalidAddressException ''expected `.` in IPV4 address''))"
  using ip_separator_errors [of "[10, 0, 0]"]
    ip_separator_errors [of "[10, 0]" "CHR '':''" "''0:1''"]
  by (simp add: ip_text.number_end_def is_digit_def digit_value_def is_space_def)

text \<open>A successful parse always fills the whole array: 6 bytes for a MAC, 4 for an IP.\<close>

lemma parsed_addresses_sized:
  "(parse_mac_address t = Inr m \<longrightarrow> is_mac m) \<and> (parse_ip_address u = Inr a \<longrightarrow> is_ip a)"
  by (auto simp: parse_mac_address_def parse_ip_address_def extract_mac_def extract_ip_def
      is_mac_def is_ip_def andthen_result_Inr ret_def
      dest!: length_read_octets split: prod.splits sum.splits if_splits)

lemma parsed_addresses_sized_witness:
  "is_mac [0, 26, 43, 60, 77, 255] \<and> is_ip [192, 168, 0, 255]"
  using parsed_addresses_sized mac_text_example ip_text_example by blast

text \<open>
  The columns of the table of participants: a rendered MAC address has exactly 17 characters, a
  rendered IPv4 address between 7 and 15.
\<close>

lemma address_lengths:
  "(is_mac m \<longrightarrow> length (render_mac_address m) = 17) \<and>
   (is_ip a \<longrightarrow> 7 \<le> length (render_ip_address a) \<and> length (render_ip_address a) \<le> 15)"
proof -
  have two: "length (mac_digits (unat b)) = 2" for b :: uint8
    using length_show_byte [of 16 b] by (simp add: mac_digits_def)
  have three: "1 \<le> length (show_radix 10 (unat b))" "length (show_radix 10 (unat b)) \<le> 3" for b :: uint8
    using length_show_byte [of 10 b] by (simp_all add: Suc_le_eq)
  have "length (render_mac_address m) = 17" if "is_mac m"
    using that by (auto simp: is_mac_def length_eq_6 render_mac_separated two)
  moreover have "7 \<le> length (render_ip_address a) \<and> length (render_ip_address a) \<le> 15" if "is_ip a"
  proof -
    from that obtain p q r s where "a = [p, q, r, s]" by (auto simp: is_ip_def length_eq_4)
    then show ?thesis
      using three [of p] three [of q] three [of r] three [of s]
      by (simp add: render_ip_separated)
  qed
  ultimately show ?thesis by blast
qed

end
