(* ===== verification/Std_Map.thy ===== *)
theory Std_Map
  imports Prelude "HOL-Library.List_Lexorder" "HOL-Library.Char_ord"
begin

text \<open>
  \<open>std::map\<close>, as far as the program uses it: a list of entries ordered by key, with
  \<open>insert\<close> (which keeps an entry that is already there), \<open>extract\<close>, \<open>at\<close> and iteration in
  key order. Arrays of bytes and strings compare lexicographically, which is the order
  \<open>List_Lexorder\<close> gives their models. The contract of an index, over what a lookup returns,
  is the locale \<open>key_index\<close>, interpreted on these operations.
\<close>

type_synonym ('k, 'v) std_map = "('k \<times> 'v) list"

text \<open>\<open>insert\<close> returns whether a new entry was made; \<open>extract\<close> returns the entry taken out.\<close>

fun map_insert :: "'k::linorder \<Rightarrow> 'v \<Rightarrow> ('k, 'v) std_map \<Rightarrow> bool \<times> ('k, 'v) std_map" where
  "map_insert k v [] = (True, [(k, v)])"
| "map_insert k v ((k', v') # m) =
     (if k < k' then (True, (k, v) # (k', v') # m)
      else if k = k' then (False, (k', v') # m)
      else (case map_insert k v m of (b, m') \<Rightarrow> (b, (k', v') # m')))"

fun map_extract :: "'k::linorder \<Rightarrow> ('k, 'v) std_map \<Rightarrow> 'v option \<times> ('k, 'v) std_map" where
  "map_extract k [] = (None, [])"
| "map_extract k ((k', v') # m) =
     (if k = k' then (Some v', m)
      else (case map_extract k m of (h, m') \<Rightarrow> (h, (k', v') # m')))"

fun map_at :: "('k::linorder, 'v) std_map \<Rightarrow> 'k \<Rightarrow> 'v option" where
  "map_at [] k = None"
| "map_at ((k', v') # m) k = (if k = k' then Some v' else map_at m k)"

definition map_ok :: "('k::linorder, 'v) std_map \<Rightarrow> bool" where
  "map_ok m \<longleftrightarrow> sorted_wrt (<) (map fst m)"

lemma map_at_map_of: "map_at m = map_of m"
  by (rule ext, induct_tac m) auto

lemma map_at_Nil [simp]: "map_at [] = Map.empty"
  by (rule ext) simp

lemma map_ok_Cons: "map_ok ((k, v) # m) \<longleftrightarrow> (\<forall>k' \<in> fst ` set m. k < k') \<and> map_ok m"
  by (auto simp: map_ok_def)

lemma map_ok_Nil [simp]: "map_ok []"
  by (simp add: map_ok_def)

lemma map_insert_Cons [simp]:
  "map_insert k v (e # m) =
     (if k < fst e then (True, (k, v) # e # m)
      else if k = fst e then (False, e # m)
      else (fst (map_insert k v m), e # snd (map_insert k v m)))"
  by (cases e) (simp split: prod.split)

lemma map_extract_Cons [simp]:
  "map_extract k (e # m) =
     (if k = fst e then (Some (snd e), m)
      else (fst (map_extract k m), e # snd (map_extract k m)))"
  by (cases e) (simp split: prod.split)

lemma map_at_Cons [simp]: "map_at (e # m) k = (if k = fst e then Some (snd e) else map_at m k)"
  by (cases e) simp

declare map_insert.simps(2) [simp del] map_extract.simps(2) [simp del] map_at.simps(2) [simp del]

lemma map_ok_Cons': "map_ok (e # m) \<longleftrightarrow> (\<forall>x \<in> set m. fst e < fst x) \<and> map_ok m"
  by (auto simp: map_ok_def)

lemma map_at_below: "\<forall>x \<in> set m. k < fst x \<Longrightarrow> map_at m k = None"
  by (induction m) auto

lemma fst_map_insert: "map_ok m \<Longrightarrow> fst (map_insert k v m) \<longleftrightarrow> map_at m k = None"
proof (induction m)
  case (Cons e m)
  have "map_at m k = None" if "k < fst e"
    using Cons.prems that by (intro map_at_below) (auto simp: map_ok_Cons')
  then show ?case using Cons by (auto simp: map_ok_Cons')
qed simp

lemma keys_map_insert: "fst ` set (snd (map_insert k v m)) = insert k (fst ` set m)"
  by (induction m) auto

lemma map_ok_insert: "map_ok m \<Longrightarrow> map_ok (snd (map_insert k v m))"
proof (induction m)
  case (Cons e m)
  have "x = k \<or> x \<in> fst ` set m" if "x \<in> fst ` set (snd (map_insert k v m))" for x
    using that keys_map_insert [of k v m] by auto
  then show ?case using Cons by (fastforce simp: map_ok_Cons')
qed (simp add: map_ok_def)

lemma map_at_insert:
  "map_ok m \<Longrightarrow> map_at (snd (map_insert k v m)) =
     (if map_at m k = None then (map_at m)(k := Some v) else map_at m)"
proof (induction m)
  case (Cons e m)
  then show ?case
    using map_at_below [of m k] by (fastforce simp: map_ok_Cons' fun_eq_iff)
qed (simp add: fun_eq_iff)

lemma fst_map_extract: "fst (map_extract k m) = map_at m k"
  by (induction m) auto

lemma keys_map_extract: "set (snd (map_extract k m)) \<subseteq> set m"
  by (induction m) auto

lemma map_ok_extract: "map_ok m \<Longrightarrow> map_ok (snd (map_extract k m))"
  using keys_map_extract [of k] by (induction m) (fastforce simp: map_ok_Cons')+

lemma map_at_extract: "map_ok m \<Longrightarrow> map_at (snd (map_extract k m)) = (map_at m)(k := None)"
proof (induction m)
  case (Cons e m)
  then show ?case
    using map_at_below [of m k] by (auto simp: map_ok_Cons' fun_eq_iff)
qed (simp add: fun_eq_iff)

lemma map_at_values: "map_ok m \<Longrightarrow> snd ` set m = ran (map_at m)"
  by (simp add: map_at_map_of ran_distinct map_ok_def strict_sorted_iff)

section \<open>The contract of an index\<close>

locale key_index =
  fixes lookup :: "'m \<Rightarrow> 'k \<Rightarrow> 'v option"
    and ins :: "'k \<Rightarrow> 'v \<Rightarrow> 'm \<Rightarrow> bool \<times> 'm"
    and ext :: "'k \<Rightarrow> 'm \<Rightarrow> 'v option \<times> 'm"
    and invar :: "'m \<Rightarrow> bool"
  assumes ins_new: "invar m \<Longrightarrow> fst (ins k v m) \<longleftrightarrow> lookup m k = None"
    and ins_lookup: "invar m \<Longrightarrow> lookup (snd (ins k v m)) =
      (if lookup m k = None then (lookup m)(k := Some v) else lookup m)"
    and ins_invar: "invar m \<Longrightarrow> invar (snd (ins k v m))"
    and ext_found: "invar m \<Longrightarrow> fst (ext k m) = lookup m k"
    and ext_lookup: "invar m \<Longrightarrow> lookup (snd (ext k m)) = (lookup m)(k := None)"
    and ext_invar: "invar m \<Longrightarrow> invar (snd (ext k m))"
begin

text \<open>An index entry stands for a value that carries the key: \<open>key\<close> reads it off the value.\<close>

definition keyed :: "('v \<Rightarrow> 'k) \<Rightarrow> 'm \<Rightarrow> bool" where
  "keyed key m \<longleftrightarrow> (\<forall>k v. lookup m k = Some v \<longrightarrow> key v = k)"

lemma keyed_ins: "invar m \<Longrightarrow> keyed key m \<Longrightarrow> keyed key (snd (ins (key v) v m))"
  by (auto simp: keyed_def ins_lookup)

lemma keyed_ext: "invar m \<Longrightarrow> keyed key m \<Longrightarrow> keyed key (snd (ext k m))"
  by (auto simp: keyed_def ext_lookup)

lemma keyed_lookup: "keyed key m \<Longrightarrow> lookup m k = Some v \<Longrightarrow> key v = k"
  by (simp add: keyed_def)

lemma lookup_key: "keyed key m \<Longrightarrow> v \<in> ran (lookup m) \<Longrightarrow> lookup m (key v) = Some v"
  by (auto simp: keyed_def ran_def)

lemma ran_ins:
  "invar m \<Longrightarrow> lookup m k = None \<Longrightarrow> ran (lookup (snd (ins k v m))) = insert v (ran (lookup m))"
  by (simp add: ins_lookup)

lemma ran_ext:
  assumes "invar m" and "keyed key m" and "lookup m k = Some v"
  shows "ran (lookup (snd (ext k m))) = ran (lookup m) - {v}"
proof -
  have "w \<noteq> v" if "lookup m k' = Some w" "k' \<noteq> k" for k' w
    using that assms by (auto simp: keyed_def)
  then show ?thesis
    using assms by (auto simp: ext_lookup ran_def) (metis option.inject)
qed

lemma ran_ins_subset: "invar m \<Longrightarrow> ran (lookup (snd (ins k v m))) \<subseteq> insert v (ran (lookup m))"
  by (auto simp: ins_lookup ran_def)

lemma ran_ext_subset:
  assumes "invar m" and "keyed key m"
  shows "ran (lookup (snd (ext (key v) m))) \<subseteq> ran (lookup m) - {v}"
  using assms by (auto simp: ext_lookup ran_def keyed_def split: if_splits)

lemma ran_ext_key:
  assumes "invar m" and "keyed key m" and "v \<in> ran (lookup m)"
  shows "ran (lookup (snd (ext (key v) m))) = ran (lookup m) - {v}"
  using ran_ext [OF assms(1,2) lookup_key [OF assms(2,3)]] .

end

interpretation std_map: key_index map_at map_insert map_extract map_ok
  by unfold_locales
    (simp_all add: fst_map_insert map_at_insert map_ok_insert fst_map_extract map_at_extract
      map_ok_extract)

lemmas std_map_simps =
  fst_map_insert map_at_insert map_ok_insert fst_map_extract map_at_extract map_ok_extract

end
