(* ===== verification/Management.thy ===== *)
theory Management
  imports Address Std_Map
begin

text \<open>
  The manager's table of work stations (\<open>management.h\<close>, \<open>management.cpp\<close>): the stations,
  shared by reference between three indexes, the operations of \<open>ManagementService\<close>, the
  events they dispatch, and the invariant between the indexes that every operation keeps.
  The operations are modelled as the critical sections they run under \<open>rw_data_lock\<close>; the
  lock calls themselves are in the theory \<open>Locking\<close>.
\<close>

section \<open>Work stations and events\<close>

datatype Status = DISCONNECTED | ASLEEP | AWAKEN

record WorkStation =
  addresses' :: NodeAddresses
  status' :: Status

text \<open>A \<open>shared_ptr<WorkStation>\<close> that is not null: the identity of a station object.\<close>

type_synonym station = nat

datatype EventType = INSERTION | REMOVAL | CHANGED_STATUS

text \<open>
  The fields \<open>old_status\<close> and \<open>new_status\<close> have no initial value in the code; \<open>None\<close> is a
  field that was never written.
\<close>

record ManagementEvent =
  event_type :: EventType
  old_status :: "Status option"
  new_status :: "Status option"
  work_station :: station

definition new_event :: "EventType \<Rightarrow> station \<Rightarrow> ManagementEvent" where
  "new_event t node =
     \<lparr>event_type = t, old_status = None, new_status = None, work_station = node\<rparr>"

section \<open>The service\<close>

text \<open>
  \<open>stations\<close> is the heap of station objects and \<open>next_station\<close> the next free identity.
  An event handler is a function on the state outside the service, \<open>outside\<close>.
\<close>

record 'x ManagementService =
  stations :: "station \<Rightarrow> WorkStation"
  next_station :: station
  mac_address_index :: "(MacAddress, station) std_map"
  ip_address_index :: "(IpAddress, station) std_map"
  hostname_index :: "(string, station) std_map"
  event_handlers :: "('x \<Rightarrow> ManagementEvent \<Rightarrow> 'x) list"
  outside :: 'x

definition WorkStation_new :: "NodeAddresses \<Rightarrow> Status \<Rightarrow> WorkStation" where
  "WorkStation_new a st = \<lparr>addresses' = a, status' = st\<rparr>"

definition ManagementService_new :: "'x \<Rightarrow> 'x ManagementService" where
  "ManagementService_new x =
     \<lparr>stations = (\<lambda>_. WorkStation_new NodeAddresses_new DISCONNECTED), next_station = 0,
      mac_address_index = [], ip_address_index = [], hostname_index = [],
      event_handlers = [], outside = x\<rparr>"

text \<open>\<open>new WorkStation(addresses, status)\<close>\<close>

definition make_station :: "NodeAddresses \<Rightarrow> Status \<Rightarrow> 'x ManagementService \<Rightarrow>
    station \<times> 'x ManagementService" where
  "make_station a st s =
     (next_station s,
      s\<lparr>stations := (stations s)(next_station s := WorkStation_new a st),
        next_station := Suc (next_station s)\<rparr>)"

definition addresses :: "'x ManagementService \<Rightarrow> station \<Rightarrow> NodeAddresses" where
  "addresses s node = addresses' (stations s node)"

definition status :: "'x ManagementService \<Rightarrow> station \<Rightarrow> Status" where
  "status s node = status' (stations s node)"

definition set_status :: "station \<Rightarrow> Status \<Rightarrow> 'x ManagementService \<Rightarrow> 'x ManagementService" where
  "set_status node st s =
     s\<lparr>stations := (stations s)(node := (stations s node)\<lparr>status' := st\<rparr>)\<rparr>"

definition register_event_handler ::
    "('x \<Rightarrow> ManagementEvent \<Rightarrow> 'x) \<Rightarrow> 'x ManagementService \<Rightarrow> 'x ManagementService" where
  "register_event_handler h s = s\<lparr>event_handlers := event_handlers s @ [h]\<rparr>"

definition dispatch_event :: "ManagementEvent \<Rightarrow> 'x ManagementService \<Rightarrow> 'x ManagementService" where
  "dispatch_event e s = s\<lparr>outside := foldl (\<lambda>x h. h x e) (outside s) (event_handlers s)\<rparr>"

text \<open>
  From here on the operations, without their lock calls: what they do when the guards lock and nobody
  else is in an operation. Their lock calls, with that of \<open>node->status()\<close> in \<open>insert\<close>, which is undefined with
  the constructor of the shared guard in the code, are in the theories \<open>Locking\<close> and \<open>Service_Threads\<close>.
\<close>

definition ms_insert :: "station \<Rightarrow> 'x ManagementService \<Rightarrow> bool \<times> 'x ManagementService" where
  "ms_insert node s =
     (if status s node = DISCONNECTED then (False, s)
      else
        let (inserted, by_hostname) =
              map_insert (hostname (addresses s node)) node (hostname_index s);
            s1 = s\<lparr>hostname_index := by_hostname\<rparr>
        in if inserted then
             let s2 = s1\<lparr>mac_address_index :=
                   snd (map_insert (mac (addresses s1 node)) node (mac_address_index s1))\<rparr>;
                 s3 = s2\<lparr>ip_address_index :=
                   snd (map_insert (ip (addresses s2 node)) node (ip_address_index s2))\<rparr>
             in (True, dispatch_event (new_event INSERTION node) s3)
           else (False, s1))"

definition on_remove :: "station \<Rightarrow> 'x ManagementService \<Rightarrow> 'x ManagementService" where
  "on_remove node s = dispatch_event (new_event REMOVAL node) (set_status node DISCONNECTED s)"

definition remove_by_mac_address ::
    "MacAddress \<Rightarrow> 'x ManagementService \<Rightarrow> bool \<times> 'x ManagementService" where
  "remove_by_mac_address address s =
     (let (handle, by_mac) = map_extract address (mac_address_index s);
          s1 = s\<lparr>mac_address_index := by_mac\<rparr>
      in case handle of
           None \<Rightarrow> (False, s1)
         | Some node \<Rightarrow>
             let s2 = s1\<lparr>ip_address_index :=
                   snd (map_extract (ip (addresses s1 node)) (ip_address_index s1))\<rparr>;
                 s3 = s2\<lparr>hostname_index :=
                   snd (map_extract (hostname (addresses s2 node)) (hostname_index s2))\<rparr>
             in (True, on_remove node s3))"

definition remove_by_ip_address ::
    "IpAddress \<Rightarrow> 'x ManagementService \<Rightarrow> bool \<times> 'x ManagementService" where
  "remove_by_ip_address address s =
     (let (handle, by_ip) = map_extract address (ip_address_index s);
          s1 = s\<lparr>ip_address_index := by_ip\<rparr>
      in case handle of
           None \<Rightarrow> (False, s1)
         | Some node \<Rightarrow>
             let s2 = s1\<lparr>mac_address_index :=
                   snd (map_extract (mac (addresses s1 node)) (mac_address_index s1))\<rparr>;
                 s3 = s2\<lparr>hostname_index :=
                   snd (map_extract (hostname (addresses s2 node)) (hostname_index s2))\<rparr>
             in (True, on_remove node s3))"

definition remove_by_hostname ::
    "string \<Rightarrow> 'x ManagementService \<Rightarrow> bool \<times> 'x ManagementService" where
  "remove_by_hostname name s =
     (let (handle, by_hostname) = map_extract name (hostname_index s);
          s1 = s\<lparr>hostname_index := by_hostname\<rparr>
      in case handle of
           None \<Rightarrow> (False, s1)
         | Some node \<Rightarrow>
             let s2 = s1\<lparr>mac_address_index :=
                   snd (map_extract (mac (addresses s1 node)) (mac_address_index s1))\<rparr>;
                 s3 = s2\<lparr>ip_address_index :=
                   snd (map_extract (ip (addresses s2 node)) (ip_address_index s2))\<rparr>
             in (True, on_remove node s3))"

text \<open>The lookups: \<open>None\<close> is the null pointer, returned when \<open>at\<close> throws \<open>out_of_range\<close>.\<close>

definition get_by_mac_address :: "MacAddress \<Rightarrow> 'x ManagementService \<Rightarrow> station option" where
  "get_by_mac_address address s = map_at (mac_address_index s) address"

definition get_by_ip_address :: "IpAddress \<Rightarrow> 'x ManagementService \<Rightarrow> station option" where
  "get_by_ip_address address s = map_at (ip_address_index s) address"

definition get_by_hostname :: "string \<Rightarrow> 'x ManagementService \<Rightarrow> station option" where
  "get_by_hostname name s = map_at (hostname_index s) name"

definition update_sleep_status ::
    "MacAddress \<Rightarrow> Status \<Rightarrow> 'x ManagementService \<Rightarrow> bool \<times> 'x ManagementService" where
  "update_sleep_status address st s =
     (case get_by_mac_address address s of
        None \<Rightarrow> (False, s)
      | Some node \<Rightarrow>
          if status s node \<noteq> st
          then (True, dispatch_event (new_event CHANGED_STATUS node) (set_status node st s))
          else (False, s))"

definition wakeup :: "string \<Rightarrow> 'x ManagementService \<Rightarrow> bool \<times> 'x ManagementService" where
  "wakeup name s =
     (case get_by_hostname name s of
        None \<Rightarrow> (False, s)
      | Some node \<Rightarrow>
          if status s node = ASLEEP
          then (True, dispatch_event (new_event CHANGED_STATUS node) (set_status node AWAKEN s))
          else (False, s))"

text \<open>
  The vector is constructed with as many null pointers as there are entries, and the entries
  are appended behind them.
\<close>

definition participant_list :: "'x ManagementService \<Rightarrow> station option list" where
  "participant_list s =
     replicate (length (mac_address_index s)) None @
     map (\<lambda>entry. Some (snd entry)) (mac_address_index s)"

end
