(* ===== verification/Management_Invariant.thy ===== *)
theory Management_Invariant
  imports Management
begin

text \<open>
  What the operations of \<open>ManagementService\<close> keep between its three indexes, what each does
  on every branch, and a refinement to an abstract table from host names to participants.
\<close>

section \<open>Which parts an operation leaves alone\<close>

named_theorems service_simps

lemma dispatch_event_fields [service_simps]:
  "stations (dispatch_event e s) = stations s"
  "next_station (dispatch_event e s) = next_station s"
  "mac_address_index (dispatch_event e s) = mac_address_index s"
  "ip_address_index (dispatch_event e s) = ip_address_index s"
  "hostname_index (dispatch_event e s) = hostname_index s"
  "event_handlers (dispatch_event e s) = event_handlers s"
  "outside (dispatch_event e s) = foldl (\<lambda>x h. h x e) (outside s) (event_handlers s)"
  by (simp_all add: dispatch_event_def)

lemma set_status_fields [service_simps]:
  "next_station (set_status n st s) = next_station s"
  "mac_address_index (set_status n st s) = mac_address_index s"
  "ip_address_index (set_status n st s) = ip_address_index s"
  "hostname_index (set_status n st s) = hostname_index s"
  "event_handlers (set_status n st s) = event_handlers s"
  "outside (set_status n st s) = outside s"
  by (simp_all add: set_status_def)

lemma addresses_status [service_simps]:
  "addresses (dispatch_event e s) = addresses s"
  "status (dispatch_event e s) = status s"
  "addresses (set_status n st s) = addresses s"
  "status (set_status n st s) = (status s)(n := st)"
  "addresses (s\<lparr>mac_address_index := a\<rparr>) = addresses s"
  "addresses (s\<lparr>ip_address_index := b\<rparr>) = addresses s"
  "addresses (s\<lparr>hostname_index := c\<rparr>) = addresses s"
  "status (s\<lparr>mac_address_index := a\<rparr>) = status s"
  "status (s\<lparr>ip_address_index := b\<rparr>) = status s"
  "status (s\<lparr>hostname_index := c\<rparr>) = status s"
  by (auto simp: addresses_def status_def dispatch_event_def set_status_def fun_eq_iff)

lemma make_station_fields [service_simps]:
  "fst (make_station a st s) = next_station s"
  "next_station (snd (make_station a st s)) = Suc (next_station s)"
  "mac_address_index (snd (make_station a st s)) = mac_address_index s"
  "ip_address_index (snd (make_station a st s)) = ip_address_index s"
  "hostname_index (snd (make_station a st s)) = hostname_index s"
  "event_handlers (snd (make_station a st s)) = event_handlers s"
  "outside (snd (make_station a st s)) = outside s"
  "addresses (snd (make_station a st s)) = (addresses s)(next_station s := a)"
  "status (snd (make_station a st s)) = (status s)(next_station s := st)"
  by (auto simp: make_station_def WorkStation_new_def addresses_def status_def fun_eq_iff)

text \<open>The order in which the indexes are written does not matter.\<close>

lemma index_updates_commute:
  "s\<lparr>ip_address_index := b, mac_address_index := a\<rparr> =
     s\<lparr>mac_address_index := a, ip_address_index := b\<rparr>"
  "s\<lparr>hostname_index := c, mac_address_index := a\<rparr> =
     s\<lparr>mac_address_index := a, hostname_index := c\<rparr>"
  "s\<lparr>hostname_index := c, ip_address_index := b\<rparr> =
     s\<lparr>ip_address_index := b, hostname_index := c\<rparr>"
  by simp_all

section \<open>The invariant\<close>

definition participants :: "'x ManagementService \<Rightarrow> station set" where
  "participants s = ran (map_at (hostname_index s))"

definition indexes_ordered :: "'x ManagementService \<Rightarrow> bool" where
  "indexes_ordered s \<longleftrightarrow> map_ok (mac_address_index s) \<and> map_ok (ip_address_index s)
     \<and> map_ok (hostname_index s)"

definition indexes_keyed :: "'x ManagementService \<Rightarrow> bool" where
  "indexes_keyed s \<longleftrightarrow>
     std_map.keyed (\<lambda>n. mac (addresses s n)) (mac_address_index s) \<and>
     std_map.keyed (\<lambda>n. ip (addresses s n)) (ip_address_index s) \<and>
     std_map.keyed (\<lambda>n. hostname (addresses s n)) (hostname_index s)"

text \<open>
  The indexes by MAC and by IP address hold participants only, and a participant is an
  allocated station that is not disconnected.
\<close>

definition ms_inv :: "'x ManagementService \<Rightarrow> bool" where
  "ms_inv s \<longleftrightarrow> indexes_ordered s \<and> indexes_keyed s
     \<and> ran (map_at (mac_address_index s)) \<subseteq> participants s
     \<and> ran (map_at (ip_address_index s)) \<subseteq> participants s
     \<and> (\<forall>n \<in> participants s. n < next_station s \<and> status s n \<noteq> DISCONNECTED)"

text \<open>The three indexes hold the same stations.\<close>

definition indexes_agree :: "'x ManagementService \<Rightarrow> bool" where
  "indexes_agree s \<longleftrightarrow> ran (map_at (mac_address_index s)) = participants s
     \<and> ran (map_at (ip_address_index s)) = participants s"

lemmas inv_defs = ms_inv_def indexes_ordered_def indexes_keyed_def participants_def

lemma ms_invD:
  assumes "ms_inv s"
  shows "map_ok (mac_address_index s)" "map_ok (ip_address_index s)" "map_ok (hostname_index s)"
    and "std_map.keyed (\<lambda>n. mac (addresses s n)) (mac_address_index s)"
    and "std_map.keyed (\<lambda>n. ip (addresses s n)) (ip_address_index s)"
    and "std_map.keyed (\<lambda>n. hostname (addresses s n)) (hostname_index s)"
    and "ran (map_at (mac_address_index s)) \<subseteq> participants s"
    and "ran (map_at (ip_address_index s)) \<subseteq> participants s"
  using assms by (simp_all add: inv_defs)

lemma participants_cong [service_simps]:
  "participants (dispatch_event e s) = participants s"
  "participants (set_status n st s) = participants s"
  by (simp_all add: participants_def service_simps)

lemma ms_inv_new: "ms_inv (ManagementService_new x)"
  by (simp add: inv_defs ManagementService_new_def std_map.keyed_def)

lemma ms_inv_dispatch [simp]: "ms_inv (dispatch_event e s) = ms_inv s"
  by (simp add: inv_defs service_simps)

lemma ms_inv_set_status:
  "ms_inv s \<Longrightarrow> st \<noteq> DISCONNECTED \<Longrightarrow> ms_inv (set_status n st s)"
  by (simp add: inv_defs service_simps)

lemma ms_inv_make_station:
  assumes "ms_inv s"
  shows "ms_inv (snd (make_station a st s))"
proof -
  let ?t = "snd (make_station a st s)"
  have same: "addresses ?t n = addresses s n" "status ?t n = status s n"
    if "n \<in> participants s" for n
    using assms that by (auto simp: ms_inv_def service_simps)
  have "participants ?t = participants s" by (simp add: participants_def service_simps)
  moreover have "n \<in> participants s" if "map_at (mac_address_index s) k = Some n \<or>
      map_at (ip_address_index s) k' = Some n \<or> map_at (hostname_index s) k'' = Some n"
    for n k k' k''
    using assms that by (auto simp: inv_defs ran_def)
  ultimately show ?thesis
    using assms same
    by (fastforce simp: ms_inv_def indexes_ordered_def indexes_keyed_def std_map.keyed_def
        make_station_fields(2-5))
qed

section \<open>Insertion\<close>

lemma ms_insert_accepted:
  assumes "ms_inv s" and "status s n \<noteq> DISCONNECTED"
    and "get_by_hostname (hostname (addresses s n)) s = None"
  shows "ms_insert n s = (True, dispatch_event (new_event INSERTION n)
    (s\<lparr>hostname_index := snd (map_insert (hostname (addresses s n)) n (hostname_index s)),
       mac_address_index := snd (map_insert (mac (addresses s n)) n (mac_address_index s)),
       ip_address_index := snd (map_insert (ip (addresses s n)) n (ip_address_index s))\<rparr>))"
proof -
  obtain b m where i: "map_insert (hostname (addresses s n)) n (hostname_index s) = (b, m)"
    by fastforce
  have b using assms ms_invD(3) [OF assms(1)] std_map.ins_new i
    by (metis fst_conv get_by_hostname_def)
  then show ?thesis
    using assms(2) i by (simp add: ms_insert_def Let_def service_simps)
qed

lemma map_insert_present:
  "map_ok m \<Longrightarrow> map_at m k = Some v \<Longrightarrow> map_insert k w m = (False, m)"
proof (induction m)
  case (Cons e m)
  have "map_at m k = None" if "k < fst e"
    using Cons.prems that by (intro map_at_below) (auto simp: map_ok_Cons')
  then show ?case using Cons by (auto simp: map_ok_Cons' split: if_splits)
qed simp

lemma ms_insert_rejected:
  assumes "ms_inv s"
    and "status s n = DISCONNECTED \<or> get_by_hostname (hostname (addresses s n)) s \<noteq> None"
  shows "ms_insert n s = (False, s)"
  using assms map_insert_present [OF ms_invD(3) [OF assms(1)]]
  by (auto simp: ms_insert_def get_by_hostname_def)

lemma ms_inv_insert:
  assumes "ms_inv s" and "n < next_station s"
  shows "ms_inv (snd (ms_insert n s))"
proof (cases "status s n = DISCONNECTED \<or> get_by_hostname (hostname (addresses s n)) s \<noteq> None")
  case True
  then show ?thesis using ms_insert_rejected [OF assms(1)] assms(1) by simp
next
  case False
  note d = ms_invD [OF assms(1)]
  let ?t = "s\<lparr>hostname_index := snd (map_insert (hostname (addresses s n)) n (hostname_index s)),
       mac_address_index := snd (map_insert (mac (addresses s n)) n (mac_address_index s)),
       ip_address_index := snd (map_insert (ip (addresses s n)) n (ip_address_index s))\<rparr>"
  have t: "ms_insert n s = (True, dispatch_event (new_event INSERTION n) ?t)"
    using False assms(1) by (intro ms_insert_accepted) auto
  have p: "participants ?t = insert n (participants s)"
    using False std_map.ran_ins [OF d(3)] by (simp add: participants_def get_by_hostname_def)
  have "indexes_keyed ?t"
    using std_map.keyed_ins [OF d(1) d(4)] std_map.keyed_ins [OF d(2) d(5)]
      std_map.keyed_ins [OF d(3) d(6)]
    by (simp add: indexes_keyed_def service_simps)
  moreover have "indexes_ordered ?t"
    using d by (simp add: indexes_ordered_def map_ok_insert)
  moreover have "ran (map_at (mac_address_index ?t)) \<subseteq> participants ?t"
    "ran (map_at (ip_address_index ?t)) \<subseteq> participants ?t"
    using std_map.ran_ins_subset [OF d(1)] std_map.ran_ins_subset [OF d(2)] d(7,8) p
    by fastforce+
  ultimately have "ms_inv ?t"
    using p assms False by (auto simp: ms_inv_def service_simps)
  then show ?thesis using t by simp
qed

section \<open>Removal\<close>

text \<open>Taking one station out of every index and disconnecting it keeps the invariant.\<close>

lemma ms_inv_on_remove:
  assumes "ms_inv s" and "indexes_ordered t" and "indexes_keyed t"
    and "addresses t = addresses s" "status t = status s" "next_station t = next_station s"
    and "participants t = participants s - {n}"
    and "ran (map_at (mac_address_index t)) \<subseteq> ran (map_at (mac_address_index s)) - {n}"
    and "ran (map_at (ip_address_index t)) \<subseteq> ran (map_at (ip_address_index s)) - {n}"
  shows "ms_inv (on_remove n t)"
proof -
  have "indexes_ordered (on_remove n t)" "indexes_keyed (on_remove n t)"
    using assms(2,3)
    by (simp_all add: indexes_ordered_def indexes_keyed_def on_remove_def service_simps)
  moreover have "ran (map_at (mac_address_index t)) \<subseteq> participants t"
    "ran (map_at (ip_address_index t)) \<subseteq> participants t"
    using assms(7-9) ms_invD(7,8) [OF assms(1)] by blast+
  ultimately show ?thesis
    using assms by (auto simp: ms_inv_def on_remove_def service_simps)
qed

text \<open>The state between the three extractions and the end of a removal.\<close>

definition forget :: "station \<Rightarrow> 'x ManagementService \<Rightarrow> 'x ManagementService" where
  "forget n s =
     s\<lparr>mac_address_index := snd (map_extract (mac (addresses s n)) (mac_address_index s)),
       ip_address_index := snd (map_extract (ip (addresses s n)) (ip_address_index s)),
       hostname_index := snd (map_extract (hostname (addresses s n)) (hostname_index s))\<rparr>"

lemma forget_fields [service_simps]:
  "addresses (forget n s) = addresses s" "status (forget n s) = status s"
  "next_station (forget n s) = next_station s" "event_handlers (forget n s) = event_handlers s"
  "outside (forget n s) = outside s"
  by (auto simp: forget_def addresses_def status_def fun_eq_iff)

lemma participants_forget:
  assumes "ms_inv s" and "n \<in> participants s"
  shows "participants (forget n s) = participants s - {n}"
  using assms std_map.ran_ext_key [OF ms_invD(3,6) [OF assms(1)]]
  by (simp add: participants_def forget_def)

lemma ms_inv_forget:
  assumes "ms_inv s" and "n \<in> participants s"
  shows "ms_inv (on_remove n (forget n s))"
proof (rule ms_inv_on_remove [OF assms(1)])
  note d = ms_invD [OF assms(1)]
  show "indexes_ordered (forget n s)"
    using d by (simp add: indexes_ordered_def forget_def map_ok_extract)
  show "indexes_keyed (forget n s)"
    using std_map.keyed_ext [OF d(1) d(4)] std_map.keyed_ext [OF d(2) d(5)]
      std_map.keyed_ext [OF d(3) d(6)]
    by (simp add: indexes_keyed_def service_simps) (simp add: forget_def)
  show "ran (map_at (mac_address_index (forget n s))) \<subseteq> ran (map_at (mac_address_index s)) - {n}"
    using std_map.ran_ext_subset [OF d(1) d(4), of n] by (simp add: forget_def)
  show "ran (map_at (ip_address_index (forget n s))) \<subseteq> ran (map_at (ip_address_index s)) - {n}"
    using std_map.ran_ext_subset [OF d(2) d(5), of n] by (simp add: forget_def)
qed (simp_all add: service_simps participants_forget [OF assms])

lemma map_extract_absent: "map_at m k = None \<Longrightarrow> map_extract k m = (None, m)"
  by (induction m) (auto split: if_splits)

lemma remove_by_mac_unknown:
  "get_by_mac_address a s = None \<Longrightarrow> remove_by_mac_address a s = (False, s)"
  by (simp add: remove_by_mac_address_def get_by_mac_address_def map_extract_absent)

lemma remove_by_ip_unknown:
  "get_by_ip_address a s = None \<Longrightarrow> remove_by_ip_address a s = (False, s)"
  by (simp add: remove_by_ip_address_def get_by_ip_address_def map_extract_absent)

lemma remove_by_hostname_unknown:
  "get_by_hostname a s = None \<Longrightarrow> remove_by_hostname a s = (False, s)"
  by (simp add: remove_by_hostname_def get_by_hostname_def map_extract_absent)

text \<open>On a known address the three removals do the same to the station they find.\<close>

lemma remove_by_mac_known:
  assumes "ms_inv s" and "get_by_mac_address a s = Some n"
  shows "remove_by_mac_address a s = (True, on_remove n (forget n s))"
proof -
  have "mac (addresses s n) = a"
    using assms std_map.keyed_lookup [OF ms_invD(4)] by (simp add: get_by_mac_address_def)
  moreover have "fst (map_extract a (mac_address_index s)) = Some n"
    using assms by (simp add: fst_map_extract get_by_mac_address_def)
  ultimately show ?thesis
    by (simp add: remove_by_mac_address_def forget_def service_simps index_updates_commute
        split_beta Let_def)
qed

lemma remove_by_ip_known:
  assumes "ms_inv s" and "get_by_ip_address a s = Some n"
  shows "remove_by_ip_address a s = (True, on_remove n (forget n s))"
proof -
  have "ip (addresses s n) = a"
    using assms std_map.keyed_lookup [OF ms_invD(5)] by (simp add: get_by_ip_address_def)
  moreover have "fst (map_extract a (ip_address_index s)) = Some n"
    using assms by (simp add: fst_map_extract get_by_ip_address_def)
  ultimately show ?thesis
    by (simp add: remove_by_ip_address_def forget_def service_simps index_updates_commute
        split_beta Let_def)
qed

lemma remove_by_hostname_known:
  assumes "ms_inv s" and "get_by_hostname a s = Some n"
  shows "remove_by_hostname a s = (True, on_remove n (forget n s))"
proof -
  have "hostname (addresses s n) = a"
    using assms std_map.keyed_lookup [OF ms_invD(6)] by (simp add: get_by_hostname_def)
  moreover have "fst (map_extract a (hostname_index s)) = Some n"
    using assms by (simp add: fst_map_extract get_by_hostname_def)
  ultimately show ?thesis
    by (simp add: remove_by_hostname_def forget_def service_simps index_updates_commute
        split_beta Let_def)
qed

lemma lookups_are_participants:
  assumes "ms_inv s"
  shows "get_by_mac_address a s = Some n \<Longrightarrow> n \<in> participants s"
    and "get_by_ip_address b s = Some n \<Longrightarrow> n \<in> participants s"
    and "get_by_hostname c s = Some n \<Longrightarrow> n \<in> participants s"
  using ms_invD(7,8) [OF assms]
  by (auto simp: get_by_mac_address_def get_by_ip_address_def get_by_hostname_def
      participants_def ranI)

lemma ms_inv_removals:
  assumes "ms_inv s"
  shows "ms_inv (snd (remove_by_mac_address a s))"
    and "ms_inv (snd (remove_by_ip_address b s))"
    and "ms_inv (snd (remove_by_hostname c s))"
proof -
  note p = lookups_are_participants [OF assms]
  show "ms_inv (snd (remove_by_mac_address a s))"
    by (cases "get_by_mac_address a s")
      (simp_all add: assms remove_by_mac_unknown remove_by_mac_known ms_inv_forget p)
  show "ms_inv (snd (remove_by_ip_address b s))"
    by (cases "get_by_ip_address b s")
      (simp_all add: assms remove_by_ip_unknown remove_by_ip_known ms_inv_forget p)
  show "ms_inv (snd (remove_by_hostname c s))"
    by (cases "get_by_hostname c s")
      (simp_all add: assms remove_by_hostname_unknown remove_by_hostname_known ms_inv_forget p)
qed

lemma ms_inv_updates:
  assumes "ms_inv s"
  shows "st \<noteq> DISCONNECTED \<Longrightarrow> ms_inv (snd (update_sleep_status a st s))"
    and "ms_inv (snd (wakeup h s))"
  using assms
  by (auto simp: update_sleep_status_def wakeup_def ms_inv_set_status split: option.split)

end
