(* ===== verification/Management_Table.thy ===== *)
theory Management_Table
  imports Management_Invariant
begin

text \<open>
  The service seen as an abstract table from host names to participants, histories of
  operations, and the properties of the service: its invariant on every history, what each
  operation does, where the indexes can fall apart, and the refinement of the table.
\<close>

section \<open>Histories of operations\<close>

text \<open>\<open>Enroll\<close> is the discovery thread's use of the service: a new station, then \<open>insert\<close>.\<close>

datatype ms_op =
    Enroll NodeAddresses Status
  | RemoveByMac MacAddress
  | RemoveByIp IpAddress
  | RemoveByHostname string
  | UpdateStatus MacAddress Status
  | Wakeup string

definition enroll :: "NodeAddresses \<Rightarrow> Status \<Rightarrow> 'x ManagementService \<Rightarrow> bool \<times> 'x ManagementService" where
  "enroll a st s = (case make_station a st s of (node, s') \<Rightarrow> ms_insert node s')"

fun ms_step :: "ms_op \<Rightarrow> 'x ManagementService \<Rightarrow> 'x ManagementService" where
  "ms_step (Enroll a st) s = snd (enroll a st s)"
| "ms_step (RemoveByMac a) s = snd (remove_by_mac_address a s)"
| "ms_step (RemoveByIp a) s = snd (remove_by_ip_address a s)"
| "ms_step (RemoveByHostname h) s = snd (remove_by_hostname h s)"
| "ms_step (UpdateStatus a st) s = snd (update_sleep_status a st s)"
| "ms_step (Wakeup h) s = snd (wakeup h s)"

fun ms_run :: "ms_op list \<Rightarrow> 'x ManagementService \<Rightarrow> 'x ManagementService" where
  "ms_run [] s = s"
| "ms_run (p # ps) s = ms_run ps (ms_step p s)"

text \<open>The program never asks for the status \<open>DISCONNECTED\<close>; only a removal sets it.\<close>

definition op_ok :: "ms_op \<Rightarrow> bool" where
  "op_ok p \<longleftrightarrow> (case p of UpdateStatus _ st \<Rightarrow> st \<noteq> DISCONNECTED | _ \<Rightarrow> True)"

lemma ms_inv_step: "ms_inv s \<Longrightarrow> op_ok p \<Longrightarrow> ms_inv (ms_step p s)"
  by (cases p)
    (auto simp: op_ok_def enroll_def ms_inv_removals ms_inv_updates service_simps split_beta
      intro!: ms_inv_insert ms_inv_make_station)

lemma ms_inv_run: "ms_inv s \<Longrightarrow> list_all op_ok ps \<Longrightarrow> ms_inv (ms_run ps s)"
  by (induction ps arbitrary: s) (simp_all add: ms_inv_step)

section \<open>Lookups after an operation\<close>

lemma get_after_insert:
  assumes "ms_inv s" and "status s n \<noteq> DISCONNECTED"
    and "get_by_hostname (hostname (addresses s n)) s = None"
  defines "t \<equiv> snd (ms_insert n s)"
  shows "get_by_hostname h t =
      (if h = hostname (addresses s n) then Some n else get_by_hostname h s)"
    and "get_by_mac_address a t =
      (if a = mac (addresses s n) \<and> get_by_mac_address a s = None then Some n
       else get_by_mac_address a s)"
    and "get_by_ip_address b t =
      (if b = ip (addresses s n) \<and> get_by_ip_address b s = None then Some n
       else get_by_ip_address b s)"
    and "participants t = insert n (participants s)"
    and "addresses t = addresses s" and "status t = status s"
  using assms(3) ms_invD(1-3) [OF assms(1)] ms_insert_accepted [OF assms(1-3)]
  by (auto simp: t_def get_by_hostname_def get_by_mac_address_def get_by_ip_address_def
      participants_def service_simps map_at_insert)

lemma get_after_forget:
  assumes "ms_inv s"
  shows "get_by_hostname h (on_remove n (forget n s)) =
      (if h = hostname (addresses s n) then None else get_by_hostname h s)"
    and "get_by_mac_address a (on_remove n (forget n s)) =
      (if a = mac (addresses s n) then None else get_by_mac_address a s)"
    and "get_by_ip_address b (on_remove n (forget n s)) =
      (if b = ip (addresses s n) then None else get_by_ip_address b s)"
    and "addresses (on_remove n (forget n s)) = addresses s"
    and "status (on_remove n (forget n s)) = (status s)(n := DISCONNECTED)"
  using ms_invD(1-3) [OF assms]
  by (simp_all add: get_by_hostname_def get_by_mac_address_def get_by_ip_address_def
      on_remove_def service_simps) (simp_all add: forget_def map_at_extract)

lemma participants_iff:
  "ms_inv s \<Longrightarrow> n \<in> participants s \<longleftrightarrow> get_by_hostname (hostname (addresses s n)) s = Some n"
  using std_map.lookup_key [OF ms_invD(6)]
  by (auto simp: participants_def get_by_hostname_def ranI)

lemma agree_get:
  assumes "ms_inv s" and "indexes_agree s"
  shows "get_by_mac_address a s = Some n \<longleftrightarrow> n \<in> participants s \<and> mac (addresses s n) = a"
    and "get_by_ip_address b s = Some n \<longleftrightarrow> n \<in> participants s \<and> ip (addresses s n) = b"
  using assms(2) std_map.lookup_key [OF ms_invD(4) [OF assms(1)], of n]
    std_map.lookup_key [OF ms_invD(5) [OF assms(1)], of n]
    std_map.keyed_lookup [OF ms_invD(4) [OF assms(1)], of a n]
    std_map.keyed_lookup [OF ms_invD(5) [OF assms(1)], of b n]
  by (auto simp: get_by_mac_address_def get_by_ip_address_def indexes_agree_def intro: ranI)

section \<open>When the indexes agree\<close>

lemma agree_forget:
  assumes "ms_inv s" and "indexes_agree s" and "n \<in> participants s"
  shows "indexes_agree (on_remove n (forget n s))"
proof -
  note d = ms_invD [OF assms(1)]
  have "n \<in> ran (map_at (mac_address_index s))" "n \<in> ran (map_at (ip_address_index s))"
    using assms by (simp_all add: indexes_agree_def)
  then show ?thesis
    using std_map.ran_ext_key [OF d(1,4), of n] std_map.ran_ext_key [OF d(2,5), of n]
      participants_forget [OF assms(1,3)] assms(2)
    by (simp add: indexes_agree_def on_remove_def service_simps) (simp add: forget_def)
qed

lemma insert_agree_iff:
  assumes "ms_inv s" and "indexes_agree s" and "n \<notin> participants s"
    and "status s n \<noteq> DISCONNECTED"
    and "get_by_hostname (hostname (addresses s n)) s = None"
  shows "indexes_agree (snd (ms_insert n s)) \<longleftrightarrow>
    get_by_mac_address (mac (addresses s n)) s = None
    \<and> get_by_ip_address (ip (addresses s n)) s = None"
proof -
  note d = ms_invD [OF assms(1)]
  have p: "participants (snd (ms_insert n s)) = insert n (participants s)"
    using get_after_insert(4) [OF assms(1,4,5)] .
  have ran_mac: "ran (map_at (mac_address_index (snd (ms_insert n s)))) =
      (if get_by_mac_address (mac (addresses s n)) s = None then insert n (participants s)
       else participants s)"
    using assms(2) d(1) ms_insert_accepted [OF assms(1,4,5)]
    by (simp add: indexes_agree_def map_at_insert get_by_mac_address_def service_simps)
  have ran_ip: "ran (map_at (ip_address_index (snd (ms_insert n s)))) =
      (if get_by_ip_address (ip (addresses s n)) s = None then insert n (participants s)
       else participants s)"
    using assms(2) d(2) ms_insert_accepted [OF assms(1,4,5)]
    by (simp add: indexes_agree_def map_at_insert get_by_ip_address_def service_simps)
  show ?thesis
    unfolding indexes_agree_def p ran_mac ran_ip using assms(3) by auto
qed

lemma agree_make_station:
  "indexes_agree s \<Longrightarrow> indexes_agree (snd (make_station a st s))"
  by (simp add: indexes_agree_def participants_def service_simps)

lemma agree_set_status:
  "indexes_agree s \<Longrightarrow> indexes_agree (dispatch_event e (set_status n st s))"
  by (simp add: indexes_agree_def service_simps)

section \<open>The abstract table\<close>

text \<open>A participant as a client sees it: its MAC and IP address and its status.\<close>

type_synonym table = "string \<rightharpoonup> MacAddress \<times> IpAddress \<times> Status"

definition abs_table :: "'x ManagementService \<Rightarrow> table" where
  "abs_table s h = map_option (\<lambda>n. (mac (addresses s n), ip (addresses s n), status s n))
     (get_by_hostname h s)"

fun spec_step :: "ms_op \<Rightarrow> table \<Rightarrow> table" where
  "spec_step (Enroll a st) t =
     (if st = DISCONNECTED \<or> t (hostname a) \<noteq> None then t
      else t(hostname a \<mapsto> (mac a, ip a, st)))"
| "spec_step (RemoveByMac m) t =
     (\<lambda>h. case t h of Some (m', i, st) \<Rightarrow> if m' = m then None else t h | None \<Rightarrow> None)"
| "spec_step (RemoveByIp i) t =
     (\<lambda>h. case t h of Some (m, i', st) \<Rightarrow> if i' = i then None else t h | None \<Rightarrow> None)"
| "spec_step (RemoveByHostname h) t = t(h := None)"
| "spec_step (UpdateStatus m st) t =
     (\<lambda>h. case t h of Some (m', i, old) \<Rightarrow> if m' = m then Some (m', i, st) else t h | None \<Rightarrow> None)"
| "spec_step (Wakeup h) t =
     (case t h of Some (m, i, ASLEEP) \<Rightarrow> t(h \<mapsto> (m, i, AWAKEN)) | _ \<Rightarrow> t)"

fun spec_run :: "ms_op list \<Rightarrow> table \<Rightarrow> table" where
  "spec_run [] t = t"
| "spec_run (p # ps) t = spec_run ps (spec_step p t)"

text \<open>A history in which no participant joins with another participant's MAC or IP address.\<close>

definition fresh_op :: "table \<Rightarrow> ms_op \<Rightarrow> bool" where
  "fresh_op t p \<longleftrightarrow> op_ok p \<and> (case p of
     Enroll a st \<Rightarrow> (\<forall>(m, i, st') \<in> ran t. m \<noteq> mac a \<and> i \<noteq> ip a) | _ \<Rightarrow> True)"

fun fresh_run :: "ms_op list \<Rightarrow> table \<Rightarrow> bool" where
  "fresh_run [] t = True"
| "fresh_run (p # ps) t = (fresh_op t p \<and> fresh_run ps (spec_step p t))"

lemma abs_entry:
  assumes "ms_inv s" and "abs_table s h = Some (m, i, st)"
  obtains n where "get_by_hostname h s = Some n" and "n \<in> participants s"
    and "mac (addresses s n) = m" and "ip (addresses s n) = i" and "status s n = st"
    and "hostname (addresses s n) = h"
  using assms lookups_are_participants(3) [OF assms(1)]
    std_map.keyed_lookup [OF ms_invD(6) [OF assms(1)]]
  by (auto simp: abs_table_def get_by_hostname_def)

lemma abs_ran:
  assumes "ms_inv s" and "n \<in> participants s"
  shows "(mac (addresses s n), ip (addresses s n), status s n) \<in> ran (abs_table s)"
  using assms participants_iff [OF assms(1)] by (auto simp: abs_table_def intro!: ranI)

lemma abs_make_station:
  assumes "ms_inv s"
  shows "abs_table (snd (make_station a st s)) = abs_table s"
proof
  fix h
  show "abs_table (snd (make_station a st s)) h = abs_table s h"
    using lookups_are_participants(3) [OF assms, of h] assms
    by (cases "get_by_hostname h s")
      (auto simp: abs_table_def get_by_hostname_def service_simps ms_inv_def)
qed

lemma abs_forget:
  assumes "ms_inv s" and "n \<in> participants s"
  shows "abs_table (on_remove n (forget n s)) = (abs_table s)(hostname (addresses s n) := None)"
proof
  fix h
  have "n' \<noteq> n" if "h \<noteq> hostname (addresses s n)" "get_by_hostname h s = Some n'" for n'
    using that assms(1) std_map.keyed_lookup [OF ms_invD(6) [OF assms(1)]]
    by (metis get_by_hostname_def)
  then show "abs_table (on_remove n (forget n s)) h =
      ((abs_table s)(hostname (addresses s n) := None)) h"
    by (cases "get_by_hostname h s") (simp_all add: abs_table_def get_after_forget [OF assms(1)])
qed

lemma abs_set_status:
  assumes "ms_inv s" and "get_by_hostname h s = Some n"
  shows "abs_table (dispatch_event e (set_status n st s)) =
    (abs_table s)(h \<mapsto> (mac (addresses s n), ip (addresses s n), st))"
proof
  fix h'
  have "n \<noteq> n'" if "h' \<noteq> h" "get_by_hostname h' s = Some n'" for n'
    using that assms std_map.keyed_lookup [OF ms_invD(6) [OF assms(1)]]
    by (metis get_by_hostname_def)
  then show "abs_table (dispatch_event e (set_status n st s)) h' =
      ((abs_table s)(h \<mapsto> (mac (addresses s n), ip (addresses s n), st))) h'"
    using assms
    by (cases "get_by_hostname h' s")
      (auto simp: abs_table_def get_by_hostname_def service_simps)
qed

lemma abs_update_unique:
  assumes "ms_inv s" and "n \<in> participants s"
    and "\<And>h m i st. abs_table s h = Some (m, i, st) \<Longrightarrow> P m i \<longleftrightarrow> h = hostname (addresses s n)"
  shows "(abs_table s)(hostname (addresses s n) := f (abs_table s (hostname (addresses s n)))) =
    (\<lambda>h. case abs_table s h of None \<Rightarrow> None
       | Some (m, i, st) \<Rightarrow> if P m i then f (abs_table s h) else abs_table s h)"
  (is "?l = ?r")
proof
  fix h
  have known: "abs_table s (hostname (addresses s n)) \<noteq> None"
    using assms(1,2) participants_iff [OF assms(1)] by (simp add: abs_table_def)
  show "?l h = ?r h"
  proof (cases "abs_table s h")
    case None
    then show ?thesis using known by auto
  next
    case (Some e)
    obtain m i st where "e = (m, i, st)" by (cases e)
    with Some show ?thesis using assms(3) [of h m i st] by auto
  qed
qed

text \<open>With agreeing indexes a MAC or an IP address names one host.\<close>

lemma agree_unique:
  assumes "ms_inv s" and "indexes_agree s" and "abs_table s h = Some (m, i, st)"
  shows "get_by_mac_address a s = Some n \<Longrightarrow> m = a \<longleftrightarrow> h = hostname (addresses s n)"
    and "get_by_ip_address b s = Some n \<Longrightarrow> i = b \<longleftrightarrow> h = hostname (addresses s n)"
    and "get_by_mac_address a s = None \<Longrightarrow> m \<noteq> a"
    and "get_by_ip_address b s = None \<Longrightarrow> i \<noteq> b"
proof -
  obtain n' where n': "get_by_hostname h s = Some n'" "n' \<in> participants s"
      "mac (addresses s n') = m" "ip (addresses s n') = i" "hostname (addresses s n') = h"
    using abs_entry [OF assms(1,3)] by metis
  have here: "get_by_mac_address m s = Some n'" "get_by_ip_address i s = Some n'"
    using n' agree_get [OF assms(1,2)] by auto
  have one: "n \<in> participants s \<Longrightarrow> h = hostname (addresses s n) \<Longrightarrow> n = n'"
    using n'(1) participants_iff [OF assms(1)] by fastforce
  show "get_by_mac_address a s = Some n \<Longrightarrow> m = a \<longleftrightarrow> h = hostname (addresses s n)"
    using here(1) n' one agree_get(1) [OF assms(1,2)] by (metis option.inject)
  show "get_by_ip_address b s = Some n \<Longrightarrow> i = b \<longleftrightarrow> h = hostname (addresses s n)"
    using here(2) n' one agree_get(2) [OF assms(1,2)] by (metis option.inject)
  show "get_by_mac_address a s = None \<Longrightarrow> m \<noteq> a" "get_by_ip_address b s = None \<Longrightarrow> i \<noteq> b"
    using here by auto
qed

lemma refine_enroll:
  assumes "ms_inv s" and "indexes_agree s" and "fresh_op (abs_table s) (Enroll a st)"
  shows "abs_table (snd (enroll a st s)) = spec_step (Enroll a st) (abs_table s)
    \<and> indexes_agree (snd (enroll a st s))"
proof -
  define n t where "n = next_station s" and "t = snd (make_station a st s)"
  have inv: "ms_inv t" and ag: "indexes_agree t" and abs: "abs_table t = abs_table s"
    using assms(1,2) by (simp_all add: t_def ms_inv_make_station agree_make_station abs_make_station)
  have e: "enroll a st s = ms_insert n t"
    by (simp add: enroll_def n_def t_def split_beta service_simps)
  have n: "addresses t n = a" "status t n = st"
    by (simp_all add: n_def t_def service_simps)
  have "participants t = participants s" by (simp add: t_def participants_def service_simps)
  then have new: "n \<notin> participants t"
    using assms(1) by (auto simp: n_def ms_inv_def)
  show ?thesis
  proof (cases "st = DISCONNECTED \<or> get_by_hostname (hostname a) t \<noteq> None")
    case True
    then have "ms_insert n t = (False, t)"
      using ms_insert_rejected [OF inv] n by simp
    moreover have "st = DISCONNECTED \<or> abs_table s (hostname a) \<noteq> None"
      using True by (auto simp: abs [symmetric] abs_table_def)
    ultimately show ?thesis using e ag abs by auto
  next
    case False
    have fresh: "mac (addresses t n') \<noteq> mac a" "ip (addresses t n') \<noteq> ip a"
      if "n' \<in> participants t" for n'
      using abs_ran [OF inv that] assms(3) abs by (auto simp: fresh_op_def)
    then have "get_by_mac_address (mac a) t = None" "get_by_ip_address (ip a) t = None"
      using agree_get [OF inv ag] by (metis option.exhaust)+
    then have "indexes_agree (snd (ms_insert n t))"
      using insert_agree_iff [OF inv ag new] n False by simp
    moreover have "abs_table (snd (ms_insert n t)) = (abs_table t)(hostname a \<mapsto> (mac a, ip a, st))"
      using get_after_insert(1,5,6) [OF inv, of n] n False by (auto simp: abs_table_def fun_eq_iff)
    moreover have "spec_step (Enroll a st) (abs_table s) = (abs_table t)(hostname a \<mapsto> (mac a, ip a, st))"
      unfolding abs [symmetric] using False by (auto simp: abs_table_def)
    ultimately show ?thesis using e by simp
  qed
qed

lemma refine_removals:
  assumes "ms_inv s" and "indexes_agree s"
  shows "abs_table (snd (remove_by_mac_address m s)) = spec_step (RemoveByMac m) (abs_table s)
      \<and> indexes_agree (snd (remove_by_mac_address m s))"
    and "abs_table (snd (remove_by_ip_address i s)) = spec_step (RemoveByIp i) (abs_table s)
      \<and> indexes_agree (snd (remove_by_ip_address i s))"
    and "abs_table (snd (remove_by_hostname h s)) = spec_step (RemoveByHostname h) (abs_table s)
      \<and> indexes_agree (snd (remove_by_hostname h s))"
proof -
  note p = lookups_are_participants [OF assms(1)] and u = agree_unique [OF assms]
  show "abs_table (snd (remove_by_mac_address m s)) = spec_step (RemoveByMac m) (abs_table s)
      \<and> indexes_agree (snd (remove_by_mac_address m s))"
  proof (cases "get_by_mac_address m s")
    case None
    then show ?thesis using u(3) assms(2)
      by (auto simp: remove_by_mac_unknown fun_eq_iff split: option.splits)
  next
    case (Some n)
    then show ?thesis
      using abs_update_unique [OF assms(1) p(1) [OF Some], of "\<lambda>m' i. m' = m" "\<lambda>_. None"] u(1) [OF _ Some]
        agree_forget [OF assms p(1) [OF Some]] abs_forget [OF assms(1) p(1) [OF Some]]
      by (auto simp: remove_by_mac_known [OF assms(1)] fun_eq_iff split: option.splits prod.splits)
  qed
  show "abs_table (snd (remove_by_ip_address i s)) = spec_step (RemoveByIp i) (abs_table s)
      \<and> indexes_agree (snd (remove_by_ip_address i s))"
  proof (cases "get_by_ip_address i s")
    case None
    then show ?thesis using u(4) assms(2)
      by (auto simp: remove_by_ip_unknown fun_eq_iff split: option.splits)
  next
    case (Some n)
    then show ?thesis
      using abs_update_unique [OF assms(1) p(2) [OF Some], of "\<lambda>m' i'. i' = i" "\<lambda>_. None"] u(2) [OF _ Some]
        agree_forget [OF assms p(2) [OF Some]] abs_forget [OF assms(1) p(2) [OF Some]]
      by (auto simp: remove_by_ip_known [OF assms(1)] fun_eq_iff split: option.splits prod.splits)
  qed
  show "abs_table (snd (remove_by_hostname h s)) = spec_step (RemoveByHostname h) (abs_table s)
      \<and> indexes_agree (snd (remove_by_hostname h s))"
  proof (cases "get_by_hostname h s")
    case None
    then have "abs_table s h = None" by (simp add: abs_table_def)
    then show ?thesis using None assms(2) by (simp add: remove_by_hostname_unknown fun_upd_idem)
  next
    case (Some n)
    moreover have "hostname (addresses s n) = h"
      using Some std_map.keyed_lookup [OF ms_invD(6) [OF assms(1)]] by (simp add: get_by_hostname_def)
    ultimately show ?thesis
      using agree_forget [OF assms p(3) [OF Some]] abs_forget [OF assms(1) p(3) [OF Some]]
      by (simp add: remove_by_hostname_known [OF assms(1)])
  qed
qed

lemma refine_updates:
  assumes "ms_inv s" and "indexes_agree s"
  shows "abs_table (snd (update_sleep_status m st s)) = spec_step (UpdateStatus m st) (abs_table s)
      \<and> indexes_agree (snd (update_sleep_status m st s))"
    and "abs_table (snd (wakeup h s)) = spec_step (Wakeup h) (abs_table s)
      \<and> indexes_agree (snd (wakeup h s))"
proof -
  note u = agree_unique [OF assms]
  show "abs_table (snd (update_sleep_status m st s)) = spec_step (UpdateStatus m st) (abs_table s)
      \<and> indexes_agree (snd (update_sleep_status m st s))"
  proof (cases "get_by_mac_address m s")
    case None
    then show ?thesis using u(3) assms(2)
      by (auto simp: update_sleep_status_def fun_eq_iff split: option.splits)
  next
    case (Some n)
    let ?h = "hostname (addresses s n)"
    have n: "n \<in> participants s" and h: "get_by_hostname ?h s = Some n"
      using lookups_are_participants(1) [OF assms(1) Some] participants_iff [OF assms(1)] by auto
    have entry: "abs_table s ?h = Some (mac (addresses s n), ip (addresses s n), status s n)"
      using h by (simp add: abs_table_def)
    have "spec_step (UpdateStatus m st) (abs_table s) =
        (abs_table s)(?h \<mapsto> (mac (addresses s n), ip (addresses s n), st))"
      using abs_update_unique [OF assms(1) n, of "\<lambda>m' i. m' = m"
          "map_option (\<lambda>(m', i, old). (m', i, st))"] u(1) [OF _ Some] entry
      by (auto simp: fun_eq_iff split: option.splits prod.splits)
    then show ?thesis
      using Some abs_set_status [OF assms(1) h] agree_set_status [OF assms(2)] assms(2) entry
      by (auto simp: update_sleep_status_def)
  qed
  show "abs_table (snd (wakeup h s)) = spec_step (Wakeup h) (abs_table s)
      \<and> indexes_agree (snd (wakeup h s))"
    using assms(2) abs_set_status [OF assms(1)] agree_set_status [OF assms(2)]
    by (cases "get_by_hostname h s")
      (auto simp: wakeup_def abs_table_def split: Status.splits)
qed

lemma refine_step:
  assumes "ms_inv s" and "indexes_agree s" and "fresh_op (abs_table s) p"
  shows "abs_table (ms_step p s) = spec_step p (abs_table s) \<and> indexes_agree (ms_step p s)"
proof (cases p)
  case (Enroll a st)
  then show ?thesis
    using refine_enroll [OF assms(1,2)] assms(3) by (simp only: ms_step.simps)
qed (use refine_removals [OF assms(1,2)] refine_updates [OF assms(1,2)] in
    \<open>simp_all only: ms_step.simps\<close>)

lemma refine_run:
  "ms_inv s \<Longrightarrow> indexes_agree s \<Longrightarrow> fresh_run ps (abs_table s) \<Longrightarrow>
    abs_table (ms_run ps s) = spec_run ps (abs_table s) \<and> indexes_agree (ms_run ps s)"
proof (induction ps arbitrary: s)
  case (Cons p ps)
  then show ?case using refine_step [of s p] ms_inv_step [of s p] by (simp add: fresh_op_def)
qed simp

section \<open>The contract of the removals\<close>

text \<open>What the monitoring thread relies on when it removes the stations that say good-bye.\<close>

locale removable =
  fixes inv :: "'s \<Rightarrow> bool"
    and look :: "'k \<Rightarrow> 's \<Rightarrow> 'v option"
    and rem :: "'k \<Rightarrow> 's \<Rightarrow> bool \<times> 's"
  assumes rem_inv: "inv s \<Longrightarrow> inv (snd (rem k s))"
    and rem_result: "inv s \<Longrightarrow> fst (rem k s) \<longleftrightarrow> look k s \<noteq> None"
    and rem_look: "inv s \<Longrightarrow> look k' (snd (rem k s)) = (if k' = k then None else look k' s)"
begin

primrec remove_all :: "'k list \<Rightarrow> 's \<Rightarrow> 's" where
  "remove_all [] s = s"
| "remove_all (k # ks) s = remove_all ks (snd (rem k s))"

lemma remove_all_inv: "inv s \<Longrightarrow> inv (remove_all ks s)"
  by (induction ks arbitrary: s) (simp_all add: rem_inv)

lemma remove_all_look:
  "inv s \<Longrightarrow> look k (remove_all ks s) = (if k \<in> set ks then None else look k s)"
  by (induction ks arbitrary: s) (simp_all add: rem_inv rem_look)

end

interpretation by_mac: removable ms_inv get_by_mac_address remove_by_mac_address
proof
  fix k k' and s :: "'x ManagementService"
  assume inv: "ms_inv s"
  show "ms_inv (snd (remove_by_mac_address k s))" using ms_inv_removals(1) [OF inv] .
  show "fst (remove_by_mac_address k s) \<longleftrightarrow> get_by_mac_address k s \<noteq> None"
    by (cases "get_by_mac_address k s") (simp_all add: inv remove_by_mac_unknown remove_by_mac_known)
  show "get_by_mac_address k' (snd (remove_by_mac_address k s)) =
      (if k' = k then None else get_by_mac_address k' s)"
    using std_map.keyed_lookup [OF ms_invD(4) [OF inv], of k] get_after_forget(2) [OF inv]
    by (cases "get_by_mac_address k s")
      (simp_all add: inv remove_by_mac_unknown remove_by_mac_known get_by_mac_address_def)
qed

interpretation by_ip: removable ms_inv get_by_ip_address remove_by_ip_address
proof
  fix k k' and s :: "'x ManagementService"
  assume inv: "ms_inv s"
  show "ms_inv (snd (remove_by_ip_address k s))" using ms_inv_removals(2) [OF inv] .
  show "fst (remove_by_ip_address k s) \<longleftrightarrow> get_by_ip_address k s \<noteq> None"
    by (cases "get_by_ip_address k s") (simp_all add: inv remove_by_ip_unknown remove_by_ip_known)
  show "get_by_ip_address k' (snd (remove_by_ip_address k s)) =
      (if k' = k then None else get_by_ip_address k' s)"
    using std_map.keyed_lookup [OF ms_invD(5) [OF inv], of k] get_after_forget(3) [OF inv]
    by (cases "get_by_ip_address k s")
      (simp_all add: inv remove_by_ip_unknown remove_by_ip_known get_by_ip_address_def)
qed

interpretation by_hostname: removable ms_inv get_by_hostname remove_by_hostname
proof
  fix k k' and s :: "'x ManagementService"
  assume inv: "ms_inv s"
  show "ms_inv (snd (remove_by_hostname k s))" using ms_inv_removals(3) [OF inv] .
  show "fst (remove_by_hostname k s) \<longleftrightarrow> get_by_hostname k s \<noteq> None"
    by (cases "get_by_hostname k s")
      (simp_all add: inv remove_by_hostname_unknown remove_by_hostname_known)
  show "get_by_hostname k' (snd (remove_by_hostname k s)) =
      (if k' = k then None else get_by_hostname k' s)"
    using std_map.keyed_lookup [OF ms_invD(6) [OF inv], of k] get_after_forget(1) [OF inv]
    by (cases "get_by_hostname k s")
      (simp_all add: inv remove_by_hostname_unknown remove_by_hostname_known get_by_hostname_def)
qed

end
