(* ===== verification/Management_Properties.thy ===== *)
theory Management_Properties
  imports Management_Table
begin

text \<open>
  The properties of \<open>ManagementService\<close>: its invariant on every history, the refinement of the
  abstract table, and what the operations do on every branch.
\<close>

lemma agree_new: "indexes_agree (ManagementService_new x)"
  by (simp add: indexes_agree_def participants_def ManagementService_new_def)

lemma abs_new: "abs_table (ManagementService_new x) = Map.empty"
  by (rule ext) (simp add: abs_table_def get_by_hostname_def ManagementService_new_def)

lemmas service_ops = enroll_def make_station_def ms_insert_def remove_by_mac_address_def
  remove_by_ip_address_def remove_by_hostname_def update_sleep_status_def wakeup_def
  dispatch_event_def on_remove_def set_status_def new_event_def get_by_mac_address_def
  get_by_ip_address_def get_by_hostname_def addresses_def status_def

text \<open>Two hosts for the witnesses, and a service with the first of them.\<close>

definition host_a :: NodeAddresses where
  "host_a = \<lparr>mac = [1, 2, 3, 4, 5, 6], ip = [10, 0, 0, 1], hostname = ''a''\<rparr>"

definition host_b :: NodeAddresses where
  "host_b = \<lparr>mac = [1, 2, 3, 4, 5, 6], ip = [10, 0, 0, 2], hostname = ''b''\<rparr>"

definition service_a :: "Status \<Rightarrow> unit ManagementService" where
  "service_a st = ms_run [Enroll host_a st] (ManagementService_new ())"

lemma ms_inv_service_a: "ms_inv (service_a st)"
  unfolding service_a_def by (rule ms_inv_run [OF ms_inv_new]) (simp add: op_ok_def)

lemma service_a_simps:
  "st \<noteq> DISCONNECTED \<Longrightarrow> get_by_hostname h (service_a st) = (if h = ''a'' then Some 0 else None)"
  "st \<noteq> DISCONNECTED \<Longrightarrow> get_by_mac_address m (service_a st) =
     (if m = [1, 2, 3, 4, 5, 6] then Some 0 else None)"
  "addresses (service_a st) 0 = host_a"
  "status (service_a st) 0 = st"
  "st \<noteq> DISCONNECTED \<Longrightarrow> mac_address_index (service_a st) = [([1, 2, 3, 4, 5, 6], 0)]"
  "event_handlers (service_a st) = []"
  by (auto simp: service_a_def service_ops ManagementService_new_def WorkStation_new_def host_a_def)

section \<open>Histories\<close>

text \<open>
  Statuses play no part in the indexes: two services that differ in statuses only, and in what their
  handlers made of the events, still do after an operation.
\<close>

definition same_table :: "'x ManagementService \<Rightarrow> 'x ManagementService \<Rightarrow> bool" where
  "same_table s t \<longleftrightarrow> mac_address_index s = mac_address_index t \<and> ip_address_index s = ip_address_index t
     \<and> hostname_index s = hostname_index t \<and> addresses s = addresses t \<and> next_station s = next_station t"

fun harmless :: "ms_op \<Rightarrow> ms_op" where
  "harmless (UpdateStatus a st) = UpdateStatus a (if st = DISCONNECTED then ASLEEP else st)"
| "harmless p = p"

lemma same_table_step: "same_table s t \<Longrightarrow> same_table (ms_step p s) (ms_step (harmless p) t)"
  by (cases p) (auto simp: same_table_def service_ops WorkStation_new_def fun_eq_iff Let_def split_beta split: option.splits)

lemma same_table_run: "same_table s t \<Longrightarrow> same_table (ms_run ps s) (ms_run (map harmless ps) t)"
  by (induction ps arbitrary: s t) (simp_all add: same_table_step)

lemma harmless_ok: "list_all op_ok (map harmless ps)"
proof -
  have "op_ok (harmless p)" for p by (cases p) (simp_all add: op_ok_def)
  then show ?thesis by (induction ps) simp_all
qed

text \<open>
  C11: Whatever the history of operations, the indexes stay in key order, every entry stands
  under the address its station has, the stations indexed by MAC or IP address are among
  those indexed by host name, and these are allocated; and if no operation of the history sets the status
  \<open>DISCONNECTED\<close> by an update, which the program never does, none of them is disconnected, so that the
  whole invariant \<open>ms_inv\<close> holds.
\<close>

theorem service_invariant:
  fixes x :: "'x" and ps :: "ms_op list"
  defines "s \<equiv> ms_run ps (ManagementService_new x)"
  shows "indexes_ordered s \<and> indexes_keyed s
    \<and> ran (map_at (mac_address_index s)) \<subseteq> participants s
    \<and> ran (map_at (ip_address_index s)) \<subseteq> participants s
    \<and> (\<forall>n \<in> participants s. n < next_station s)
    \<and> (list_all op_ok ps \<longrightarrow> ms_inv s)"
proof -
  let ?t = "ms_run (map harmless ps) (ManagementService_new x)"
  have "same_table s ?t" unfolding s_def by (rule same_table_run) (simp add: same_table_def)
  moreover have "ms_inv ?t" by (rule ms_inv_run [OF ms_inv_new harmless_ok])
  moreover have "list_all op_ok ps \<longrightarrow> ms_inv s" unfolding s_def by (intro impI ms_inv_run [OF ms_inv_new])
  ultimately show ?thesis by (auto simp: inv_defs same_table_def)
qed

theorem service_invariant_witness:
  "ms_inv (ms_run [Enroll host_a AWAKEN, Enroll host_b AWAKEN, UpdateStatus (mac host_a) ASLEEP,
      Wakeup ''a'', RemoveByHostname ''b''] (ManagementService_new ()))
    \<and> indexes_keyed (ms_run [Enroll host_a AWAKEN, UpdateStatus (mac host_a) DISCONNECTED] (ManagementService_new ()))"
  using service_invariant [of "[Enroll host_a AWAKEN, Enroll host_b AWAKEN, UpdateStatus (mac host_a) ASLEEP,
      Wakeup ''a'', RemoveByHostname ''b'']" "()"]
    service_invariant [of "[Enroll host_a AWAKEN, UpdateStatus (mac host_a) DISCONNECTED]" "()"]
  by (simp add: op_ok_def del: ms_run.simps)

text \<open>
  After any history a lookup by MAC or by IP address returns a station that has that
  address, is not disconnected, and is the one found under its host name.
\<close>

lemma lookup_sound:
  assumes "list_all op_ok ps"
    and "get_by_mac_address a (ms_run ps (ManagementService_new x)) = Some n
      \<or> get_by_ip_address b (ms_run ps (ManagementService_new x)) = Some n"
  defines "s \<equiv> ms_run ps (ManagementService_new x)"
  shows "status s n \<noteq> DISCONNECTED \<and> get_by_hostname (hostname (addresses s n)) s = Some n
    \<and> (mac (addresses s n) = a \<or> ip (addresses s n) = b)"
proof -
  have inv: "ms_inv s" unfolding s_def by (rule ms_inv_run [OF ms_inv_new assms(1)])
  have found: "get_by_mac_address a s = Some n \<or> get_by_ip_address b s = Some n"
    using assms(2) by (simp add: s_def)
  then have "n \<in> participants s"
    using lookups_are_participants [OF inv] by blast
  moreover have "mac (addresses s n) = a \<or> ip (addresses s n) = b"
    using found std_map.keyed_lookup [OF ms_invD(4) [OF inv]]
      std_map.keyed_lookup [OF ms_invD(5) [OF inv]]
    by (auto simp: get_by_mac_address_def get_by_ip_address_def)
  ultimately show ?thesis
    using inv participants_iff [OF inv] by (simp add: ms_inv_def)
qed

lemma lookup_sound_witness:
  "\<exists>s :: unit ManagementService. status s 0 \<noteq> DISCONNECTED
     \<and> get_by_hostname (hostname (addresses s 0)) s = Some 0
     \<and> (mac (addresses s 0) = mac host_a \<or> ip (addresses s 0) = [])"
proof -
  have "get_by_mac_address (mac host_a) (ms_run [Enroll host_a AWAKEN] (ManagementService_new ())) = Some 0"
    using service_a_simps(2) [of AWAKEN] by (simp add: service_a_def host_a_def)
  then show ?thesis
    using lookup_sound [of "[Enroll host_a AWAKEN]" "mac host_a" "()" 0 "[]"]
    by (auto simp: op_ok_def)
qed

text \<open>
  C1: Refinement. As long as no participant joins with the MAC or IP address of another one,
  the service with its three indexes implements the abstract table from host names to
  participants: every history has the effect that the table's operations have, and the
  three indexes hold the same stations. (Nor is the status set to \<open>DISCONNECTED\<close> by an update, which the
  program never does.)
\<close>

theorem service_refines_table:
  assumes "fresh_run ps Map.empty"
  shows "abs_table (ms_run ps (ManagementService_new x)) = spec_run ps Map.empty
    \<and> indexes_agree (ms_run ps (ManagementService_new x))"
  using refine_run [OF ms_inv_new agree_new, of ps x] assms by (simp add: abs_new)

theorem service_refines_table_witness:
  "abs_table (ms_run [Enroll host_a ASLEEP, Wakeup ''a'', Enroll (host_b\<lparr>mac := [9]\<rparr>) AWAKEN,
       RemoveByHostname ''b''] (ManagementService_new ())) ''a''
     = Some ([1, 2, 3, 4, 5, 6], [10, 0, 0, 1], AWAKEN)"
  using service_refines_table [of "[Enroll host_a ASLEEP, Wakeup ''a'',
      Enroll (host_b\<lparr>mac := [9]\<rparr>) AWAKEN, RemoveByHostname ''b'']" "()"]
  by (simp add: fresh_op_def op_ok_def host_a_def host_b_def)

section \<open>Operations\<close>

text \<open>
  \<open>insert\<close> accepts a station exactly when it is not disconnected and its host name is
  unknown. Then it becomes a participant, found by host name, and every handler gets the
  event; a MAC or IP address that is already indexed keeps its old station. Otherwise nothing
  changes.
\<close>

lemma insert_behaviour:
  assumes "ms_inv s" and "n < next_station s"
  shows "(fst (ms_insert n s) \<longleftrightarrow>
      status s n \<noteq> DISCONNECTED \<and> get_by_hostname (hostname (addresses s n)) s = None)
    \<and> (\<not> fst (ms_insert n s) \<longrightarrow> snd (ms_insert n s) = s)
    \<and> (fst (ms_insert n s) \<longrightarrow>
        participants (snd (ms_insert n s)) = insert n (participants s)
        \<and> get_by_hostname (hostname (addresses s n)) (snd (ms_insert n s)) = Some n
        \<and> get_by_mac_address a (snd (ms_insert n s)) =
            (if a = mac (addresses s n) \<and> get_by_mac_address a s = None then Some n
             else get_by_mac_address a s)
        \<and> outside (snd (ms_insert n s)) =
            foldl (\<lambda>x h. h x (new_event INSERTION n)) (outside s) (event_handlers s))"
proof (cases "status s n = DISCONNECTED \<or> get_by_hostname (hostname (addresses s n)) s \<noteq> None")
  case True
  then show ?thesis using ms_insert_rejected [OF assms(1)] by auto
next
  case False
  then show ?thesis
    using ms_insert_accepted [OF assms(1), of n] get_after_insert [OF assms(1), of n]
    by (simp add: service_simps)
qed

lemma insert_behaviour_witness:
  "\<exists>s :: unit ManagementService. fst (ms_insert 1 s) \<and> participants (snd (ms_insert 1 s)) = {0, 1}
     \<and> get_by_mac_address (mac host_b) (snd (ms_insert 1 s)) = Some 0"
proof -
  let ?s = "snd (make_station host_b AWAKEN (service_a AWAKEN))"
  have one: "next_station (service_a AWAKEN) = 1"
    by (simp add: service_a_def service_ops ManagementService_new_def WorkStation_new_def host_a_def)
  have same: "get_by_hostname h ?s = get_by_hostname h (service_a AWAKEN)"
    "get_by_mac_address m ?s = get_by_mac_address m (service_a AWAKEN)" for h m
    by (simp_all add: get_by_hostname_def get_by_mac_address_def service_simps)
  have "participants ?s = {0}"
    using service_a_simps(1) [of AWAKEN]
    by (auto simp: participants_def ran_def get_by_hostname_def service_simps split: if_splits)
  then show ?thesis
    using insert_behaviour [of ?s 1 "mac host_b"] ms_inv_make_station [OF ms_inv_service_a, of host_b AWAKEN AWAKEN]
      one same service_a_simps(1,2) [of AWAKEN]
    by (intro exI [of _ ?s]) (auto simp: service_simps host_b_def)
qed

text \<open>
  C29: When the indexes agree, removing a participant by its MAC address, by its IP address or
  by its host name is the same operation: it succeeds, the station is found under none of its
  addresses any more and is disconnected, the other participants keep their entries and
  statuses, and the handlers get the removal event.
\<close>

theorem removals_equivalent:
  assumes "ms_inv s" and "indexes_agree s" and "n \<in> participants s"
  defines "t \<equiv> snd (remove_by_hostname (hostname (addresses s n)) s)"
  shows "remove_by_mac_address (mac (addresses s n)) s = (True, t)
    \<and> remove_by_ip_address (ip (addresses s n)) s = (True, t)
    \<and> remove_by_hostname (hostname (addresses s n)) s = (True, t)
    \<and> participants t = participants s - {n} \<and> status t = (status s)(n := DISCONNECTED)
    \<and> get_by_mac_address (mac (addresses s n)) t = None
    \<and> get_by_ip_address (ip (addresses s n)) t = None
    \<and> get_by_hostname (hostname (addresses s n)) t = None
    \<and> (\<forall>h. h \<noteq> hostname (addresses s n) \<longrightarrow> get_by_hostname h t = get_by_hostname h s)
    \<and> outside t = foldl (\<lambda>x h. h x (new_event REMOVAL n)) (outside s) (event_handlers s)"
proof -
  have known: "get_by_mac_address (mac (addresses s n)) s = Some n"
    "get_by_ip_address (ip (addresses s n)) s = Some n"
    "get_by_hostname (hostname (addresses s n)) s = Some n"
    using agree_get [OF assms(1,2)] participants_iff [OF assms(1)] assms(3) by auto
  have t: "t = on_remove n (forget n s)"
    using remove_by_hostname_known [OF assms(1) known(3)] by (simp add: t_def)
  have "outside t = foldl (\<lambda>x h. h x (new_event REMOVAL n)) (outside s) (event_handlers s)"
    by (simp add: t on_remove_def service_simps)
  moreover have "participants t = participants s - {n}"
    using participants_forget [OF assms(1,3)] by (simp add: t on_remove_def service_simps)
  ultimately show ?thesis
    using remove_by_mac_known [OF assms(1) known(1)] remove_by_ip_known [OF assms(1) known(2)]
      remove_by_hostname_known [OF assms(1) known(3)] get_after_forget [OF assms(1)]
    by (simp add: t)
qed

lemma participants_service_a: "participants (service_a AWAKEN) = {0}"
  using service_a_simps(1) [of AWAKEN]
  by (auto simp: participants_def ran_def get_by_hostname_def split: if_splits)

lemma agree_service_a: "indexes_agree (service_a AWAKEN)"
  using refine_run [OF ms_inv_new agree_new, of "[Enroll host_a AWAKEN]" "()"]
  by (simp add: service_a_def abs_new fresh_op_def op_ok_def)

theorem removals_equivalent_witness:
  "\<exists>t. remove_by_mac_address (mac host_a) (service_a AWAKEN) = (True, t)
     \<and> remove_by_ip_address (ip host_a) (service_a AWAKEN) = (True, t)
     \<and> participants t = {} \<and> status t 0 = DISCONNECTED"
proof -
  have "0 \<in> participants (service_a AWAKEN)" by (simp add: participants_service_a)
  from removals_equivalent [OF ms_inv_service_a agree_service_a this]
  show ?thesis
    unfolding service_a_simps(3) participants_service_a
    by (intro exI [of _ "snd (remove_by_hostname (hostname host_a) (service_a AWAKEN))"])
      (elim conjE, intro conjI; simp only: Diff_cancel fun_upd_same)
qed

text \<open>
  Only the host name is checked for duplicates. When a station joins under a new host name
  with the MAC address of a participant and is then removed by its host name, the older
  participant is still registered and connected, but it is no longer found by MAC address and
  no longer in the list of participants.
\<close>

lemma duplicate_mac_loses_participant:
  assumes "ms_inv s" and "get_by_mac_address (mac a) s = Some n"
    and "get_by_hostname (hostname a) s = None" and "st \<noteq> DISCONNECTED"
  defines "t \<equiv> snd (remove_by_hostname (hostname a) (snd (enroll a st s)))"
  shows "fst (enroll a st s) \<and> n \<in> participants t \<and> status t n = status s n
    \<and> get_by_mac_address (mac a) t = None \<and> Some n \<notin> set (participant_list t)"
proof -
  define k u where "k = next_station s" and "u = snd (make_station a st s)"
  have inv: "ms_inv u" by (simp add: u_def ms_inv_make_station assms(1))
  have k: "addresses u k = a" "status u k = st" by (simp_all add: k_def u_def service_simps)
  have n: "n \<in> participants s" using lookups_are_participants(1) [OF assms(1,2)] .
  then have nk: "n \<noteq> k" "status u n = status s n" "addresses u n = addresses s n"
    using assms(1) by (auto simp: k_def u_def ms_inv_def service_simps)
  have same: "get_by_hostname h u = get_by_hostname h s" "get_by_mac_address m u = get_by_mac_address m s"
    for h m by (simp_all add: u_def get_by_hostname_def get_by_mac_address_def service_simps)
  let ?v = "snd (ms_insert k u)"
  have acc: "status u k \<noteq> DISCONNECTED" "get_by_hostname (hostname (addresses u k)) u = None"
    using k same assms(3,4) by simp_all
  note ins = get_after_insert [OF inv acc]
  have v: "ms_inv ?v"
    using ms_inv_insert [OF inv] by (simp add: k_def u_def service_simps)
  have e: "enroll a st s = (True, ?v)"
    using ms_insert_accepted [OF inv acc] by (simp add: enroll_def k_def u_def split_beta service_simps)
  have t: "t = on_remove k (forget k ?v)"
    using remove_by_hostname_known [OF v, of "hostname a" k] ins(1) k by (simp add: t_def e)
  note out = get_after_forget [OF v]
  have hn: "hostname (addresses s n) \<noteq> hostname a"
    using n assms(3) participants_iff [OF assms(1)] by fastforce
  have "get_by_hostname (hostname (addresses s n)) t = Some n"
    using out(1) ins(1,5) k hn same n participants_iff [OF assms(1)] by (simp add: t)
  then have "n \<in> participants t" by (auto simp: participants_def get_by_hostname_def ranI)
  moreover have gone: "get_by_mac_address (mac a) t = None" "status t n = status s n"
    using out(2,5) ins(5,6) k nk by (simp_all add: t)
  moreover have "ms_inv t" unfolding t_def using e v ms_inv_removals(3) by simp
  then have "Some n \<notin> set (participant_list t)"
  proof (intro notI)
    assume inv_t: "ms_inv t" and "Some n \<in> set (participant_list t)"
    then have "n \<in> snd ` set (mac_address_index t)"
      by (auto simp: participant_list_def)
    then have "n \<in> ran (map_at (mac_address_index t))"
      using map_at_values [OF ms_invD(1) [OF inv_t]] by simp
    then have "get_by_mac_address (mac (addresses t n)) t = Some n"
      using std_map.lookup_key [OF ms_invD(4) [OF inv_t]] by (simp add: get_by_mac_address_def)
    moreover have "addresses t n = addresses s n"
      using out(4) ins(5) nk by (simp add: t)
    moreover have "mac (addresses s n) = mac a"
      using assms(2) std_map.keyed_lookup [OF ms_invD(4) [OF assms(1)]]
      by (simp add: get_by_mac_address_def)
    ultimately show False using gone by simp
  qed
  ultimately show ?thesis using e by simp
qed

lemma duplicate_mac_loses_participant_witness:
  "0 \<in> participants (snd (remove_by_hostname ''b'' (snd (enroll host_b AWAKEN (service_a AWAKEN)))))
   \<and> get_by_mac_address (mac host_a)
       (snd (remove_by_hostname ''b'' (snd (enroll host_b AWAKEN (service_a AWAKEN))))) = None"
  using duplicate_mac_loses_participant [OF ms_inv_service_a, of host_b AWAKEN 0 AWAKEN]
  by (simp add: service_a_simps host_b_def host_a_def)

text \<open>
  \<open>wakeup\<close> succeeds exactly for the host name of a sleeping participant. It then sets the
  status to awake and dispatches one event, which does not carry the two statuses; in every
  other case it changes nothing. Nothing is sent over the network.
\<close>

lemma wakeup_behaviour:
  "wakeup h s =
    (if \<exists>n. get_by_hostname h s = Some n \<and> status s n = ASLEEP
     then (True, (set_status (the (get_by_hostname h s)) AWAKEN s)
       \<lparr>outside := foldl (\<lambda>x f. f x \<lparr>event_type = CHANGED_STATUS, old_status = None,
          new_status = None, work_station = the (get_by_hostname h s)\<rparr>) (outside s) (event_handlers s)\<rparr>)
     else (False, s))"
  by (auto simp: wakeup_def dispatch_event_def new_event_def service_simps split: option.split)

text \<open>
  \<open>update_sleep_status\<close> reports a change exactly when the MAC address is indexed and the
  station had another status. The new status is then seen through every index, because they
  share the station, and no other station changes.
\<close>

lemma update_sleep_status_behaviour:
  fixes st :: Status
  assumes "ms_inv s" and "get_by_mac_address a s = Some n"
  defines "t \<equiv> snd (update_sleep_status a st s)"
  shows "(fst (update_sleep_status a st s) \<longleftrightarrow> status s n \<noteq> st)
    \<and> get_by_hostname (hostname (addresses s n)) t = Some n \<and> status t n = st
    \<and> (\<forall>m. m \<noteq> n \<longrightarrow> status t m = status s m)
    \<and> participants t = participants s
    \<and> outside t = (if status s n = st then outside s
        else foldl (\<lambda>x f. f x (new_event CHANGED_STATUS n)) (outside s) (event_handlers s))"
proof -
  have "get_by_hostname (hostname (addresses s n)) s = Some n"
    using lookups_are_participants(1) [OF assms(1,2)] participants_iff [OF assms(1)] by simp
  then show ?thesis
    using assms(2)
    by (auto simp: t_def update_sleep_status_def get_by_hostname_def service_simps)
qed

lemma update_sleep_status_behaviour_witness:
  "fst (update_sleep_status (mac host_a) ASLEEP (service_a AWAKEN))
   \<and> status (snd (update_sleep_status (mac host_a) ASLEEP (service_a AWAKEN))) 0 = ASLEEP"
  using update_sleep_status_behaviour [OF ms_inv_service_a, of "mac host_a" AWAKEN 0 ASLEEP]
  by (simp add: service_a_simps host_a_def)

text \<open>
  The list of participants starts with one null pointer for each entry of the MAC index,
  and the stations come after them: it is twice as long as the table, and its first element
  is null as soon as there is a participant.
\<close>

lemma participant_list_nulls:
  assumes "ms_inv s"
  shows "length (participant_list s) = 2 * length (mac_address_index s)
    \<and> set (participant_list s) - {None} = Some ` ran (map_at (mac_address_index s))
    \<and> (mac_address_index s \<noteq> [] \<longrightarrow> hd (participant_list s) = None)"
proof -
  have "set (participant_list s) - {None} = Some ` snd ` set (mac_address_index s)"
    by (auto simp: participant_list_def)
  moreover have "length (participant_list s) = 2 * length (mac_address_index s)"
    "mac_address_index s \<noteq> [] \<longrightarrow> hd (participant_list s) = None"
    by (cases "mac_address_index s"; simp add: participant_list_def)+
  ultimately show ?thesis
    using map_at_values [OF ms_invD(1) [OF assms]] by simp
qed

lemma participant_list_nulls_witness:
  "hd (participant_list (service_a AWAKEN)) = None \<and> length (participant_list (service_a AWAKEN)) = 2"
  using participant_list_nulls [OF ms_inv_service_a, of AWAKEN] by (simp add: service_a_simps)

end
