(* ===== verification/Locking.thy ===== *)
theory Locking
  imports Management_Properties
begin

text \<open>
  The lock calls of the program: \<open>std::shared_mutex\<close>, the class \<open>SharedLockGuard\<close> of
  \<open>lock.h\<close>, \<open>lock_guard\<close>, and for every operation of \<open>ManagementService\<close> the sequence of
  lock calls it makes, in the order of the code and on the branch the state selects.
\<close>

section \<open>Shared mutexes\<close>

record rwlock =
  readers :: nat
  writer :: bool

definition free :: rwlock where
  "free = \<lparr>readers = 0, writer = False\<rparr>"

text \<open>The mutex of the table, the mutex of one station's status, and that of the event handlers.\<close>

datatype lock_name = RwDataLock | RwStatusLock station | EventLock

datatype lock_act =
    Lock lock_name
  | Unlock lock_name
  | LockShared lock_name
  | UnlockShared lock_name

text \<open>
  A call either succeeds, waits, or has undefined behaviour: unlocking a mutex that is not held
  in the mode of the call.
\<close>

datatype lock_outcome = Done "lock_name \<Rightarrow> rwlock" | Waits lock_act | UndefinedUnlock lock_act

fun lock_call :: "lock_act \<Rightarrow> (lock_name \<Rightarrow> rwlock) \<Rightarrow> lock_outcome" where
  "lock_call (Lock n) ls =
     (if writer (ls n) \<or> 0 < readers (ls n) then Waits (Lock n)
      else Done (ls(n := (ls n)\<lparr>writer := True\<rparr>)))"
| "lock_call (Unlock n) ls =
     (if writer (ls n) then Done (ls(n := (ls n)\<lparr>writer := False\<rparr>))
      else UndefinedUnlock (Unlock n))"
| "lock_call (LockShared n) ls =
     (if writer (ls n) then Waits (LockShared n)
      else Done (ls(n := (ls n)\<lparr>readers := Suc (readers (ls n))\<rparr>)))"
| "lock_call (UnlockShared n) ls =
     (if 0 < readers (ls n) then Done (ls(n := (ls n)\<lparr>readers := readers (ls n) - 1\<rparr>))
      else UndefinedUnlock (UnlockShared n))"

fun lock_calls :: "lock_act list \<Rightarrow> (lock_name \<Rightarrow> rwlock) \<Rightarrow> lock_outcome" where
  "lock_calls [] ls = Done ls"
| "lock_calls (a # as) ls =
     (case lock_call a ls of Done ls' \<Rightarrow> lock_calls as ls' | other \<Rightarrow> other)"

section \<open>Guards\<close>

text \<open>The constructor of \<open>SharedLockGuard\<close> calls \<open>unlock_shared\<close>, and so does its destructor.\<close>

definition SharedLockGuard :: "lock_name \<Rightarrow> lock_act list \<Rightarrow> lock_act list" where
  "SharedLockGuard n inside = UnlockShared n # inside @ [UnlockShared n]"

definition lock_guard :: "lock_name \<Rightarrow> lock_act list \<Rightarrow> lock_act list" where
  "lock_guard n inside = Lock n # inside @ [Unlock n]"

section \<open>The operations' lock calls\<close>

definition status_locks :: "station \<Rightarrow> lock_act list" where
  "status_locks node = SharedLockGuard (RwStatusLock node) []"

definition insert_locks :: "station \<Rightarrow> 'x ManagementService \<Rightarrow> lock_act list" where
  "insert_locks node s =
     status_locks node @
     (if status s node = DISCONNECTED then [] else lock_guard RwDataLock [])"

definition on_remove_locks :: "station \<Rightarrow> lock_act list" where
  "on_remove_locks node = lock_guard (RwStatusLock node) []"

definition remove_by_mac_address_locks ::
    "MacAddress \<Rightarrow> 'x ManagementService \<Rightarrow> lock_act list" where
  "remove_by_mac_address_locks address s =
     lock_guard RwDataLock
       (case fst (map_extract address (mac_address_index s)) of
          None \<Rightarrow> [] | Some node \<Rightarrow> on_remove_locks node)"

definition remove_by_ip_address_locks ::
    "IpAddress \<Rightarrow> 'x ManagementService \<Rightarrow> lock_act list" where
  "remove_by_ip_address_locks address s =
     lock_guard RwDataLock
       (case fst (map_extract address (ip_address_index s)) of
          None \<Rightarrow> [] | Some node \<Rightarrow> on_remove_locks node)"

definition remove_by_hostname_locks :: "string \<Rightarrow> 'x ManagementService \<Rightarrow> lock_act list" where
  "remove_by_hostname_locks name s =
     lock_guard RwDataLock
       (case fst (map_extract name (hostname_index s)) of
          None \<Rightarrow> [] | Some node \<Rightarrow> on_remove_locks node)"

text \<open>The three lookups and \<open>participant_list\<close> hold one shared guard.\<close>

definition lookup_locks :: "lock_act list" where
  "lookup_locks = SharedLockGuard RwDataLock []"

definition update_sleep_status_locks ::
    "MacAddress \<Rightarrow> 'x ManagementService \<Rightarrow> lock_act list" where
  "update_sleep_status_locks address s =
     lookup_locks @
     (case get_by_mac_address address s of
        None \<Rightarrow> [] | Some node \<Rightarrow> lock_guard (RwStatusLock node) [])"

definition wakeup_locks :: "string \<Rightarrow> 'x ManagementService \<Rightarrow> lock_act list" where
  "wakeup_locks name s =
     lookup_locks @
     (case get_by_hostname name s of
        None \<Rightarrow> [] | Some node \<Rightarrow> lock_guard (RwStatusLock node) [])"

lemmas lock_scripts = SharedLockGuard_def lock_guard_def status_locks_def insert_locks_def
  on_remove_locks_def remove_by_mac_address_locks_def remove_by_ip_address_locks_def
  remove_by_hostname_locks_def lookup_locks_def update_sleep_status_locks_def wakeup_locks_def

section \<open>Properties\<close>

text \<open>
  The removals use their locks correctly: whenever the table's mutex and the mutexes of the
  stations are free, they run without waiting and leave every mutex as they found it.
\<close>

lemma removal_locks_balanced:
  assumes "ls RwDataLock = free" and "\<forall>n. ls (RwStatusLock n) = free"
  shows "lock_calls (remove_by_mac_address_locks m s) ls = Done ls
    \<and> lock_calls (remove_by_ip_address_locks i s) ls = Done ls
    \<and> lock_calls (remove_by_hostname_locks h s) ls = Done ls"
proof -
  have "ls(RwDataLock := free, RwStatusLock n := free) = ls" "ls(RwDataLock := free) = ls" for n
    using assms by (auto simp: fun_eq_iff)
  then show ?thesis
    using assms by (auto simp: lock_scripts free_def fun_upd_twist split: option.split)
qed

lemma removal_locks_balanced_witness:
  "lock_calls (remove_by_hostname_locks ''a'' (service_a AWAKEN)) (\<lambda>_. free) = Done (\<lambda>_. free)"
  using removal_locks_balanced [of "\<lambda>_. free", where s = "service_a AWAKEN"] by simp

text \<open>
  Every operation that reads under a \<open>SharedLockGuard\<close> begins by unlocking a mutex it does
  not hold. While no reader holds the mutex, also while a writer does, this is undefined
  behaviour: the lookups and \<open>participant_list\<close>, \<open>status\<close>, \<open>insert\<close>,
  \<open>update_sleep_status\<close> and \<open>wakeup\<close> never wait for a writer.
\<close>

lemma shared_guard_unlocks_unheld:
  "(readers (ls RwDataLock) = 0 \<longrightarrow>
      lock_calls lookup_locks ls = UndefinedUnlock (UnlockShared RwDataLock)
      \<and> lock_calls (update_sleep_status_locks m s) ls = UndefinedUnlock (UnlockShared RwDataLock)
      \<and> lock_calls (wakeup_locks h s) ls = UndefinedUnlock (UnlockShared RwDataLock))
   \<and> (readers (ls (RwStatusLock n)) = 0 \<longrightarrow>
      lock_calls (status_locks n) ls = UndefinedUnlock (UnlockShared (RwStatusLock n))
      \<and> lock_calls (insert_locks n s) ls = UndefinedUnlock (UnlockShared (RwStatusLock n)))"
  by (simp add: lock_scripts)

lemma shared_guard_unlocks_unheld_witness:
  "lock_calls lookup_locks ((\<lambda>_. free)(RwDataLock := \<lparr>readers = 0, writer = True\<rparr>))
     = UndefinedUnlock (UnlockShared RwDataLock)"
  using shared_guard_unlocks_unheld [of "(\<lambda>_. free)(RwDataLock := \<lparr>readers = 0, writer = True\<rparr>)",
      where s = "service_a AWAKEN"]
  by simp

end
