(* ===== verification/Lock_Programs.thy ===== *)
theory Lock_Programs
  imports Locking
begin

text \<open>
  Threads that lock: programs whose steps are single lock calls and single accesses to shared
  data, run by any number of threads in any interleaving. The locale \<open>guarded_calls\<close> states
  the discipline of a set of calls (which lock guards which data, in which order locks are taken)
  and proves, for every such set, that no two threads race for guarded data and that they never
  deadlock.
\<close>

section \<open>Programs\<close>

text \<open>What a step reads or writes. Not all of it is guarded by a lock.\<close>

datatype location = TableData | StatusData station | AddressData | HandlerList | OutsideData

datatype access = Reads | Writes

datatype ('s, 'r) prog =
    Return 'r
  | Locks lock_act "('s, 'r) prog"
  | Touch "(location \<times> access) list" "'s \<Rightarrow> 's \<times> ('s, 'r) prog"

primrec prog_bind :: "('s, 'a) prog \<Rightarrow> ('a \<Rightarrow> ('s, 'b) prog) \<Rightarrow> ('s, 'b) prog" where
  "prog_bind (Return r) k = k r"
| "prog_bind (Locks a p) k = Locks a (prog_bind p k)"
| "prog_bind (Touch as f) k = Touch as (\<lambda>s. map_prod id (\<lambda>p. prog_bind p k) (f s))"

text \<open>The two guards as scopes; the constructor of the shared one is a parameter.\<close>

definition lock_scope :: "lock_name \<Rightarrow> ('s, 'r) prog \<Rightarrow> ('s, 'r) prog" where
  "lock_scope n p = Locks (Lock n) (prog_bind p (\<lambda>r. Locks (Unlock n) (Return r)))"

definition shared_scope :: "(lock_name \<Rightarrow> lock_act) \<Rightarrow> lock_name \<Rightarrow> ('s, 'r) prog \<Rightarrow> ('s, 'r) prog" where
  "shared_scope ctor n p = Locks (ctor n) (prog_bind p (\<lambda>r. Locks (UnlockShared n) (Return r)))"

section \<open>Locks and their holders\<close>

record holders =
  writer_of :: "nat option"
  readers_of :: "nat set"

definition nobody :: holders where
  "nobody = \<lparr>writer_of = None, readers_of = {}\<rparr>"

datatype by_outcome = Holding "lock_name \<Rightarrow> holders" | MustWait | UndefinedCall

definition owns :: "nat \<Rightarrow> holders \<Rightarrow> bool" where
  "owns t h \<longleftrightarrow> writer_of h = Some t \<or> t \<in> readers_of h"

text \<open>Locking a mutex one owns and unlocking one that one does not own are undefined.\<close>

fun lock_by :: "nat \<Rightarrow> lock_act \<Rightarrow> (lock_name \<Rightarrow> holders) \<Rightarrow> by_outcome" where
  "lock_by t (Lock n) h =
     (if owns t (h n) then UndefinedCall
      else if writer_of (h n) \<noteq> None \<or> readers_of (h n) \<noteq> {} then MustWait
      else Holding (h(n := (h n)\<lparr>writer_of := Some t\<rparr>)))"
| "lock_by t (Unlock n) h =
     (if writer_of (h n) = Some t then Holding (h(n := (h n)\<lparr>writer_of := None\<rparr>)) else UndefinedCall)"
| "lock_by t (LockShared n) h =
     (if owns t (h n) then UndefinedCall
      else if writer_of (h n) \<noteq> None then MustWait
      else Holding (h(n := (h n)\<lparr>readers_of := insert t (readers_of (h n))\<rparr>)))"
| "lock_by t (UnlockShared n) h =
     (if t \<in> readers_of (h n) then Holding (h(n := (h n)\<lparr>readers_of := readers_of (h n) - {t}\<rparr>))
      else UndefinedCall)"

text \<open>Seen without its holders, a lock behaves as in the theory \<open>Locking\<close>.\<close>

definition counted :: "(lock_name \<Rightarrow> holders) \<Rightarrow> lock_name \<Rightarrow> rwlock" where
  "counted h n = \<lparr>readers = card (readers_of (h n)), writer = (writer_of (h n) \<noteq> None)\<rparr>"

lemma counted_upd:
  "counted (h(n := x)) = (counted h)(n := \<lparr>readers = card (readers_of x), writer = (writer_of x \<noteq> None)\<rparr>)"
  by (simp add: counted_def fun_eq_iff)

lemma lock_by_counted:
  assumes "\<And>n. finite (readers_of (h n))" and "lock_by t a h = Holding h'"
  shows "lock_call a (counted h) = Done (counted h')"
proof -
  have "0 < card (readers_of (h n))" if "t \<in> readers_of (h n)" for n
    using assms(1) that by (auto simp: card_gt_0_iff)
  then show ?thesis
    using assms by (cases a) (auto simp: counted_upd owns_def card_insert_if counted_def split: if_splits)
qed

section \<open>Threads\<close>

record ('s, 'r) threads =
  shared :: 's
  lock_state :: "lock_name \<Rightarrow> holders"
  doing :: "nat \<Rightarrow> ('s, 'r) prog option"
  returned :: "(nat \<times> 'r) list"
  undefined_call :: bool

definition threads_start :: "'s \<Rightarrow> ('s, 'r) threads" where
  "threads_start s = \<lparr>shared = s, lock_state = (\<lambda>_. nobody), doing = (\<lambda>_. None), returned = [],
     undefined_call = False\<rparr>"

text \<open>After undefined behaviour nothing is said any more: there are no further steps.\<close>

inductive work_step :: "('s, 'r) threads \<Rightarrow> ('s, 'r) threads \<Rightarrow> bool" where
  thread_locks: "work_step T (T\<lparr>lock_state := h, doing := (doing T)(t := Some p)\<rparr>)"
    if "\<not> undefined_call T" and "doing T t = Some (Locks a p)" and "lock_by t a (lock_state T) = Holding h"
| thread_undefined: "work_step T (T\<lparr>undefined_call := True\<rparr>)"
    if "\<not> undefined_call T" and "doing T t = Some (Locks a p)" and "lock_by t a (lock_state T) = UndefinedCall"
| thread_touches: "work_step T (T\<lparr>shared := s, doing := (doing T)(t := Some p)\<rparr>)"
    if "\<not> undefined_call T" and "doing T t = Some (Touch as f)" and "f (shared T) = (s, p)"
| thread_returns: "work_step T (T\<lparr>doing := (doing T)(t := None), returned := returned T @ [(t, r)]\<rparr>)"
    if "\<not> undefined_call T" and "doing T t = Some (Return r)"

inductive calls_step :: "('c \<Rightarrow> ('s, 'r) prog) \<Rightarrow> ('s, 'r) threads \<Rightarrow> ('s, 'r) threads \<Rightarrow> bool" for start where
  thread_calls: "calls_step start T (T\<lparr>doing := (doing T)(t := Some (start c))\<rparr>)"
    if "\<not> undefined_call T" and "doing T t = None"
| thread_works: "calls_step start T T'" if "work_step T T'"

inductive calls_reachable ::
    "('c \<Rightarrow> ('s, 'r) prog) \<Rightarrow> 's \<Rightarrow> ('s, 'r) threads \<Rightarrow> bool" for start s0 where
  calls_start: "calls_reachable start s0 (threads_start s0)"
| calls_steps: "calls_reachable start s0 T \<Longrightarrow> calls_step start T T' \<Longrightarrow> calls_reachable start s0 T'"

inductive_cases work_stepE: "work_step T T'"

section \<open>Discipline\<close>

datatype lock_mode = Exclusive | Shared

type_synonym held = "(lock_name \<times> lock_mode) set"

definition holds :: "(lock_name \<Rightarrow> holders) \<Rightarrow> nat \<Rightarrow> held" where
  "holds h t = {(n, Exclusive) | n. writer_of (h n) = Some t} \<union> {(n, Shared) | n. t \<in> readers_of (h n)}"

text \<open>Data that a lock guards is read with the lock and written with the exclusive lock.\<close>

fun may_access :: "(location \<Rightarrow> lock_name option) \<Rightarrow> held \<Rightarrow> location \<times> access \<Rightarrow> bool" where
  "may_access guard H (l, Reads) = (\<forall>n. guard l = Some n \<longrightarrow> (n, Exclusive) \<in> H \<or> (n, Shared) \<in> H)"
| "may_access guard H (l, Writes) = (\<forall>n. guard l = Some n \<longrightarrow> (n, Exclusive) \<in> H)"

text \<open>A step changes only what it says it writes; \<open>same l\<close> is that two states agree at \<open>l\<close>.\<close>

definition writes_only :: "(location \<Rightarrow> 's \<Rightarrow> 's \<Rightarrow> bool) \<Rightarrow> (location \<times> access) list \<Rightarrow>
    ('s \<Rightarrow> 's \<times> 'p) \<Rightarrow> bool" where
  "writes_only same as f \<longleftrightarrow> (\<forall>l s. (l, Writes) \<notin> set as \<longrightarrow> same l s (fst (f s)))"

text \<open>
  A program that holds the locks \<open>H\<close>: it takes locks in the order of their ranks, unlocks what it
  holds, and accesses what it may. With \<open>lax\<close> it may call \<open>unlock_shared\<close> on a mutex it does not hold;
  that is undefined, and nothing is asked of what would follow.
\<close>

inductive disciplined :: "bool \<Rightarrow> (lock_name \<Rightarrow> nat) \<Rightarrow> (location \<Rightarrow> lock_name option) \<Rightarrow>
    (location \<Rightarrow> 's \<Rightarrow> 's \<Rightarrow> bool) \<Rightarrow> held \<Rightarrow> ('s, 'r) prog \<Rightarrow> bool"
  for lax rank guard same where
  disciplined_return: "disciplined lax rank guard same {} (Return r)"
| disciplined_lock: "\<forall>(m, k) \<in> H. rank m < rank n \<Longrightarrow> disciplined lax rank guard same (insert (n, Exclusive) H) p \<Longrightarrow>
    disciplined lax rank guard same H (Locks (Lock n) p)"
| disciplined_lock_shared: "\<forall>(m, k) \<in> H. rank m < rank n \<Longrightarrow>
    disciplined lax rank guard same (insert (n, Shared) H) p \<Longrightarrow>
    disciplined lax rank guard same H (Locks (LockShared n) p)"
| disciplined_unlock: "(n, Exclusive) \<in> H \<Longrightarrow> disciplined lax rank guard same (H - {(n, Exclusive)}) p \<Longrightarrow>
    disciplined lax rank guard same H (Locks (Unlock n) p)"
| disciplined_unlock_shared: "lax \<or> (n, Shared) \<in> H \<Longrightarrow>
    (n, Shared) \<in> H \<longrightarrow> disciplined lax rank guard same (H - {(n, Shared)}) p \<Longrightarrow>
    disciplined lax rank guard same H (Locks (UnlockShared n) p)"
| disciplined_touch: "\<forall>a \<in> set as. may_access guard H a \<Longrightarrow> writes_only same as f \<Longrightarrow>
    (\<And>s. disciplined lax rank guard same H (snd (f s))) \<Longrightarrow> disciplined lax rank guard same H (Touch as f)"

inductive_simps disciplined_simps:
  "disciplined lax rank guard same H (Return r)"
  "disciplined lax rank guard same H (Locks (Lock n) p)"
  "disciplined lax rank guard same H (Locks (LockShared n) p)"
  "disciplined lax rank guard same H (Locks (Unlock n) p)"
  "disciplined lax rank guard same H (Locks (UnlockShared n) p)"
  "disciplined lax rank guard same H (Touch as f)"

section \<open>What the threads keep\<close>

definition threads_inv :: "bool \<Rightarrow> (lock_name \<Rightarrow> nat) \<Rightarrow> (location \<Rightarrow> lock_name option) \<Rightarrow>
    (location \<Rightarrow> 's \<Rightarrow> 's \<Rightarrow> bool) \<Rightarrow> ('s, 'r) threads \<Rightarrow> bool" where
  "threads_inv lax rank guard same T \<longleftrightarrow>
     (\<forall>t. doing T t = None \<longrightarrow> holds (lock_state T) t = {})
     \<and> (\<forall>t p. doing T t = Some p \<longrightarrow> disciplined lax rank guard same (holds (lock_state T) t) p)
     \<and> (\<forall>n t. writer_of (lock_state T n) = Some t \<longrightarrow> readers_of (lock_state T n) = {})"

lemma threads_invD:
  "threads_inv lax rank guard same T \<Longrightarrow> doing T t = Some p \<Longrightarrow> disciplined lax rank guard same (holds (lock_state T) t) p"
  by (simp add: threads_inv_def)

text \<open>What a call does to what the threads hold.\<close>

definition held_after :: "lock_act \<Rightarrow> held \<Rightarrow> held" where
  "held_after a H = (case a of
     Lock n \<Rightarrow> insert (n, Exclusive) H | Unlock n \<Rightarrow> H - {(n, Exclusive)}
   | LockShared n \<Rightarrow> insert (n, Shared) H | UnlockShared n \<Rightarrow> H - {(n, Shared)})"

lemma holds_iff:
  "(n, Exclusive) \<in> holds h t \<longleftrightarrow> writer_of (h n) = Some t"
  "(n, Shared) \<in> holds h t \<longleftrightarrow> t \<in> readers_of (h n)"
  by (auto simp: holds_def)

lemma held_eqI:
  assumes "\<And>n. (n, Exclusive) \<in> H \<longleftrightarrow> (n, Exclusive) \<in> K" and "\<And>n. (n, Shared) \<in> H \<longleftrightarrow> (n, Shared) \<in> K"
  shows "H = (K :: held)"
proof (rule set_eqI)
  show "x \<in> H \<longleftrightarrow> x \<in> K" for x using assms by (cases x; cases "snd x") auto
qed

lemma holds_lock_by:
  assumes "lock_by t a h = Holding h'"
  shows "holds h' t = held_after a (holds h t)" and "t' \<noteq> t \<Longrightarrow> holds h' t' = holds h t'"
proof -
  show "holds h' t = held_after a (holds h t)"
    using assms by (cases a) (auto simp: held_after_def holds_iff owns_def split: if_splits intro!: held_eqI)
  show "holds h' t' = holds h t'" if "t' \<noteq> t"
    using assms that by (cases a) (auto simp: holds_iff owns_def split: if_splits intro!: held_eqI)
qed

lemma lock_by_exclusive:
  assumes "lock_by t a h = Holding h'"
    and "\<forall>n t. writer_of (h n) = Some t \<longrightarrow> readers_of (h n) = {}"
  shows "\<forall>n t. writer_of (h' n) = Some t \<longrightarrow> readers_of (h' n) = {}"
  using assms by (cases a) (auto split: if_splits)

lemma disciplined_locks:
  assumes "disciplined lax rank guard same (holds h t) (Locks a p)" and "lock_by t a h = Holding h'"
  shows "disciplined lax rank guard same (holds h' t) p"
  using assms(1) holds_lock_by(1) [OF assms(2)] assms(2)
  by (cases a) (auto simp: disciplined_simps held_after_def holds_iff split: if_splits)

text \<open>A disciplined call is defined, but for an \<open>unlock_shared\<close> of a lax one.\<close>

lemma disciplined_defined:
  assumes "disciplined False rank guard same (holds h t) (Locks a p)"
  shows "lock_by t a h \<noteq> UndefinedCall"
proof (cases a)
  case (Lock n)
  then have "(n, k) \<notin> holds h t" for k using assms by (auto simp: disciplined_simps)
  then show ?thesis using Lock by (auto simp: owns_def holds_def)
next
  case (LockShared n)
  then have "(n, k) \<notin> holds h t" for k using assms by (auto simp: disciplined_simps)
  then show ?thesis using LockShared by (auto simp: owns_def holds_def)
qed (use assms in \<open>auto simp: disciplined_simps holds_def\<close>)

lemma threads_inv_works:
  assumes "work_step T T'" and "threads_inv lax rank guard same T"
  shows "threads_inv lax rank guard same T'"
  using assms(1)
proof (cases rule: work_step.cases)
  case (thread_locks t a p h)
  have "disciplined lax rank guard same (holds (lock_state T) t) (Locks a p)"
    using assms(2) thread_locks(3) by (simp add: threads_inv_def)
  then have "disciplined lax rank guard same (holds h t) p" by (rule disciplined_locks [OF _ thread_locks(4)])
  moreover have "holds h t' = holds (lock_state T) t'" if "t' \<noteq> t" for t'
    using holds_lock_by(2) [OF thread_locks(4) that] .
  moreover have "\<forall>n t. writer_of (h n) = Some t \<longrightarrow> readers_of (h n) = {}"
    using lock_by_exclusive [OF thread_locks(4)] assms(2) by (simp add: threads_inv_def)
  ultimately show ?thesis
    using assms(2) thread_locks(1,3) by (auto simp: threads_inv_def)
next
  case (thread_undefined t a p)
  then show ?thesis using assms(2) by (simp add: threads_inv_def)
next
  case (thread_touches t as f s p)
  have "disciplined lax rank guard same (holds (lock_state T) t) (Touch as f)"
    using assms(2) thread_touches(3) by (simp add: threads_inv_def)
  then have "disciplined lax rank guard same (holds (lock_state T) t) (snd (f (shared T)))"
    by (simp add: disciplined_simps)
  then have "disciplined lax rank guard same (holds (lock_state T) t) p" using thread_touches(4) by simp
  then show ?thesis using assms(2) thread_touches(1,3) by (auto simp: threads_inv_def)
next
  case (thread_returns t r)
  have "holds (lock_state T) t = {}"
    using threads_invD [OF assms(2) thread_returns(3)] by (simp add: disciplined_simps)
  then show ?thesis using assms(2) thread_returns(1) by (auto simp: threads_inv_def)
qed

text \<open>Two threads at steps on the same data, at least one of which writes it.\<close>

definition racing :: "('s, 'r) threads \<Rightarrow> location \<Rightarrow> bool" where
  "racing T l \<longleftrightarrow> (\<exists>t t' as as' f f'. t \<noteq> t' \<and> doing T t = Some (Touch as f) \<and> doing T t' = Some (Touch as' f')
     \<and> (l, Writes) \<in> set as \<and> l \<in> fst ` set as')"

lemma no_race:
  assumes "threads_inv lax rank guard same T" and "guard l = Some n"
  shows "\<not> racing T l"
proof
  assume "racing T l"
  then obtain t t' as as' f f' a where t: "t \<noteq> t'" "doing T t = Some (Touch as f)" "doing T t' = Some (Touch as' f')"
    "(l, Writes) \<in> set as" "(l, a) \<in> set as'"
    by (force simp: racing_def)
  let ?h = "lock_state T"
  have "may_access guard (holds ?h t) (l, Writes)" "may_access guard (holds ?h t') (l, a)"
    using assms(1) t(2-5) by (fastforce simp: threads_inv_def disciplined_simps)+
  then have "writer_of (?h n) = Some t" "writer_of (?h n) = Some t' \<or> t' \<in> readers_of (?h n)"
    using assms(2) by (cases a; auto simp: holds_iff)+
  then show False using assms(1) t(1) by (auto simp: threads_inv_def)
qed

text \<open>A thread that waits, waits for one that holds a lock below all that it could wait for itself.\<close>

fun wanted :: "lock_act \<Rightarrow> lock_name" where
  "wanted (Lock n) = n"
| "wanted (Unlock n) = n"
| "wanted (LockShared n) = n"
| "wanted (UnlockShared n) = n"

lemma waits_for_holder:
  assumes "lock_by t a h = MustWait"
  obtains k t' where "(wanted a, k) \<in> holds h t'"
  using assms by (cases a) (auto simp: holds_def split: if_splits)

lemma waits_upwards:
  assumes "lock_by t a h = MustWait" and "disciplined lax rank guard same H (Locks a p)" and "(m, k) \<in> H"
  shows "rank m < rank (wanted a)"
  using assms by (cases a) (auto simp: disciplined_simps split: if_splits)

lemma no_deadlock:
  assumes "threads_inv lax rank guard same T" and "\<And>n. rank n \<le> b" and "\<not> undefined_call T"
    and "doing T t = Some p"
  shows "\<exists>T'. work_step T T'"
proof -
  have locks: "\<exists>T'. work_step T T'" if "doing T t = Some (Locks a q)" for t a q
    using that
  proof (induction "b - rank (wanted a)" arbitrary: t a q rule: less_induct)
    case less
    show ?case
    proof (cases "lock_by t a (lock_state T)")
      case MustWait
      then obtain k t' where t': "(wanted a, k) \<in> holds (lock_state T) t'" by (rule waits_for_holder)
      then obtain p' where p': "doing T t' = Some p'"
        using assms(1) by (cases "doing T t'") (auto simp: threads_inv_def)
      have disc: "disciplined lax rank guard same (holds (lock_state T) t') p'"
        using assms(1) p' by (simp add: threads_inv_def)
      show ?thesis
      proof (cases p')
        case (Return r)
        then show ?thesis using disc t' by (simp add: disciplined_simps)
      next
        case (Touch as f)
        then show ?thesis using thread_touches [of T t' as f] assms(3) p' by (metis surj_pair)
      next
        case (Locks a' q')
        show ?thesis
        proof (cases "lock_by t' a' (lock_state T)")
          case MustWait
          have "rank (wanted a) < rank (wanted a')"
            using waits_upwards [OF MustWait _ t'] disc Locks by blast
          then have "b - rank (wanted a') < b - rank (wanted a)"
            using assms(2) [of "wanted a'"] by simp
          then show ?thesis using less(1) p' Locks by blast
        qed (use thread_locks [of T t' a' q'] thread_undefined [of T t' a' q'] assms(3) p' Locks in blast)+
      qed
    qed (use thread_locks [of T t a q] thread_undefined [of T t a q] assms(3) less(2) in blast)+
  qed
  show ?thesis
  proof (cases p)
    case (Return r)
    then show ?thesis using thread_returns [of T t r] assms(3,4) by blast
  next
    case (Touch as f)
    then show ?thesis using thread_touches [of T t as f] assms(3,4) by (metis surj_pair)
  next
    case (Locks a q)
    then show ?thesis using locks assms(4) by simp
  qed
qed

section \<open>How long threads work\<close>

text \<open>A program that takes at most \<open>n\<close> steps, whatever the data are.\<close>

primrec within :: "nat \<Rightarrow> ('s, 'r) prog \<Rightarrow> bool" where
  "within 0 p = False"
| "within (Suc n) p = (case p of Return r \<Rightarrow> True | Locks a q \<Rightarrow> within n q
     | Touch as f \<Rightarrow> \<forall>s. within n (snd (f s)))"

definition busy :: "('s, 'r) threads \<Rightarrow> nat set" where
  "busy T = {t. doing T t \<noteq> None}"

definition budgeted :: "(nat \<Rightarrow> nat) \<Rightarrow> ('s, 'r) threads \<Rightarrow> bool" where
  "budgeted f T \<longleftrightarrow> (\<forall>t p. doing T t = Some p \<longrightarrow> within (f t) p)"

lemma budgetedD: "budgeted f T \<Longrightarrow> doing T t = Some p \<Longrightarrow> within (f t) p"
  by (simp add: budgeted_def)

lemma budgeted_next:
  assumes "budgeted f T" and "doing T t = Some p" and "doing T' = (doing T)(t := Some q)"
    and "within (f t - 1) q" and "0 < f t" and "finite (busy T)"
  shows "\<exists>f'. budgeted f' T' \<and> busy T' = busy T \<and> sum f' (busy T) < sum f (busy T)"
proof (intro exI conjI)
  show "budgeted (f(t := f t - 1)) T'" using assms(1,3,4) by (auto simp: budgeted_def)
  show "busy T' = busy T" using assms(2,3) by (auto simp: busy_def)
  show "sum (f(t := f t - 1)) (busy T) < sum f (busy T)"
    using assms(2,5,6) by (intro sum_strict_mono_ex1) (auto simp: busy_def)
qed

lemma works_within:
  assumes "work_step T T'" and "budgeted f T" and "finite (busy T)"
  shows "0 < sum f (busy T)
    \<and> (undefined_call T' \<or> (\<exists>f'. budgeted f' T' \<and> finite (busy T') \<and> sum f' (busy T') < sum f (busy T)))"
proof -
  have pos: "0 < f t \<and> t \<in> busy T" if "doing T t = Some p" for t p
    using assms(2) that unfolding budgeted_def busy_def by (metis gr0I mem_Collect_eq option.discI within.simps(1))
  then have sum: "0 < sum f (busy T)" if "doing T t = Some p" for t p
    using that assms(3) by (metis member_le_sum le_zero_eq not_gr_zero zero_le)
  have less: "within (f t - 1) q" if "doing T t = Some (Locks a q)" for t a q
    using budgetedD [OF assms(2) that] by (cases "f t") simp_all
  have touch: "within (f t - 1) q" if "doing T t = Some (Touch as g)" "g s = (s', q)" for t as g s s' q
    using budgetedD [OF assms(2) that(1)] that(2) by (cases "f t") (simp_all, metis snd_conv)
  show ?thesis
    using assms(1)
  proof (cases rule: work_step.cases)
    case (thread_locks t a p h)
    have "doing T' = (doing T)(t := Some p)" using thread_locks(1) by simp
    from budgeted_next [OF assms(2) thread_locks(3) this less [OF thread_locks(3)] _ assms(3)]
    show ?thesis using pos [OF thread_locks(3)] sum [OF thread_locks(3)] assms(3) by auto
  next
    case (thread_undefined t a p)
    then show ?thesis using sum [OF thread_undefined(3)] by simp
  next
    case (thread_touches t as g s p)
    have "doing T' = (doing T)(t := Some p)" using thread_touches(1) by simp
    from budgeted_next [OF assms(2) thread_touches(3) this touch [OF thread_touches(3,4)] _ assms(3)]
    show ?thesis using pos [OF thread_touches(3)] sum [OF thread_touches(3)] assms(3) by auto
  next
    case (thread_returns t r)
    have b: "busy T' = busy T - {t}" using thread_returns(1) by (auto simp: busy_def)
    have "budgeted f T'" using assms(2) thread_returns(1) by (auto simp: budgeted_def)
    moreover have "sum f (busy T - {t}) < sum f (busy T)"
      using pos [OF thread_returns(3)] sum [OF thread_returns(3)] assms(3) by (simp add: sum_diff1_nat)
    ultimately show ?thesis using b sum [OF thread_returns(3)] assms(3) by auto
  qed
qed

lemma works_bounded:
  "(work_step ^^ k) T T' \<Longrightarrow> budgeted f T \<Longrightarrow> finite (busy T) \<Longrightarrow> k \<le> sum f (busy T)"
proof (induction k arbitrary: T f)
  case (Suc k)
  then obtain T1 where T1: "work_step T T1" "(work_step ^^ k) T1 T'" by (metis relpowp_Suc_D2)
  note w = works_within [OF T1(1) Suc.prems(2,3)]
  show ?case
  proof (cases "undefined_call T1")
    case True
    then have "\<not> work_step T1 T2" for T2 by (auto elim: work_stepE)
    then have "k = 0" using T1(2) by (metis not0_implies_Suc relpowp_Suc_D2)
    then show ?thesis using w by simp
  next
    case False
    then obtain f' where "budgeted f' T1" "finite (busy T1)" "sum f' (busy T1) < sum f (busy T)" using w by blast
    then show ?thesis using Suc.IH [OF T1(2)] by fastforce
  qed
qed simp

section \<open>The contract of a set of calls\<close>

text \<open>
  Every call of the set is disciplined, and there are finitely many ranks. Then in every state
  that threads reach with these calls, whatever they call and however they are interleaved, there
  is no race for guarded data and no deadlock.
\<close>

locale guarded_calls =
  fixes lax :: bool and rank :: "lock_name \<Rightarrow> nat" and guard :: "location \<Rightarrow> lock_name option"
    and same :: "location \<Rightarrow> 's \<Rightarrow> 's \<Rightarrow> bool" and start :: "'c \<Rightarrow> ('s, 'r) prog" and b :: nat
  assumes start_disciplined: "disciplined lax rank guard same {} (start c)"
    and rank_bounded: "rank n \<le> b"
begin

lemma threads_reachable_inv: "calls_reachable start s0 T \<Longrightarrow> threads_inv lax rank guard same T"
proof (induction rule: calls_reachable.induct)
  case calls_start
  show ?case by (simp add: threads_inv_def threads_start_def holds_def nobody_def)
next
  case (calls_steps T T')
  from calls_steps(2) show ?case
  proof (cases rule: calls_step.cases)
    case (thread_calls t c)
    then show ?thesis using calls_steps.IH start_disciplined by (auto simp: threads_inv_def)
  next
    case thread_works
    then show ?thesis using calls_steps.IH threads_inv_works by blast
  qed
qed

lemma race_free: "calls_reachable start s0 T \<Longrightarrow> guard l = Some n \<Longrightarrow> \<not> racing T l"
  using no_race threads_reachable_inv by blast

lemma never_undefined: "calls_reachable start s0 T \<Longrightarrow> \<not> lax \<Longrightarrow> \<not> undefined_call T"
proof (induction rule: calls_reachable.induct)
  case calls_start
  show ?case by (simp add: threads_start_def)
next
  case (calls_steps T T')
  have inv: "threads_inv False rank guard same T"
    using threads_reachable_inv [OF calls_steps(1)] calls_steps.prems by simp
  from calls_steps(2) show ?case
  proof (cases rule: calls_step.cases)
    case thread_works
    then show ?thesis
    proof (cases rule: work_step.cases)
      case (thread_undefined t a p)
      then show ?thesis
        using disciplined_defined [OF threads_invD [OF inv thread_undefined(3)]] by simp
    qed (use calls_steps.IH calls_steps.prems in simp_all)
  qed (use calls_steps.IH calls_steps.prems in simp_all)
qed

lemma deadlock_free:
  "calls_reachable start s0 T \<Longrightarrow> \<not> undefined_call T \<Longrightarrow> doing T t = Some p \<Longrightarrow> \<exists>T'. work_step T T'"
  using no_deadlock [OF threads_reachable_inv] rank_bounded by blast

end

end
