(* ===== verification/Service_Threads.thy ===== *)
theory Service_Threads
  imports Lock_Programs
begin

text \<open>
  The operations of \<open>ManagementService\<close> and \<open>WorkStation\<close> statement by statement, with the locks
  of \<open>management.cpp\<close>, called by any number of threads. A parameter says what the constructor of
  \<open>SharedLockGuard\<close> calls: \<open>unlock_shared\<close> in the code, \<open>lock_shared\<close> as it is meant.
\<close>

section \<open>The operations\<close>

abbreviation table_access :: "(location \<times> access) list" where
  "table_access \<equiv> [(AddressData, Reads), (TableData, Reads), (TableData, Writes)]"

text \<open>The loop over the handlers is one step; no lock is taken for it.\<close>

definition dispatch_prog :: "ManagementEvent \<Rightarrow> ('x ManagementService, 'r) prog \<Rightarrow> ('x ManagementService, 'r) prog" where
  "dispatch_prog event k = Touch [(HandlerList, Reads), (OutsideData, Writes)] (\<lambda>s. (dispatch_event event s, k))"

definition status_prog :: "(lock_name \<Rightarrow> lock_act) \<Rightarrow> station \<Rightarrow> ('x ManagementService, Status) prog" where
  "status_prog ctor node =
     shared_scope ctor (RwStatusLock node) (Touch [(StatusData node, Reads)] (\<lambda>s. (s, Return (status s node))))"

definition insert_prog :: "(lock_name \<Rightarrow> lock_act) \<Rightarrow> station \<Rightarrow> ('x ManagementService, bool) prog" where
  "insert_prog ctor node =
     prog_bind (status_prog ctor node) (\<lambda>st.
     if st = DISCONNECTED then Return False
     else lock_scope RwDataLock (
       Touch table_access (\<lambda>s.
         let (inserted, by_hostname) = map_insert (hostname (addresses s node)) node (hostname_index s) in
         (s\<lparr>hostname_index := by_hostname\<rparr>,
          if inserted then
            Touch table_access (\<lambda>s.
              (s\<lparr>mac_address_index := snd (map_insert (mac (addresses s node)) node (mac_address_index s))\<rparr>,
            Touch table_access (\<lambda>s.
              (s\<lparr>ip_address_index := snd (map_insert (ip (addresses s node)) node (ip_address_index s))\<rparr>,
            dispatch_prog (new_event INSERTION node) (Return True)))))
          else Return False))))"

definition on_remove_prog :: "station \<Rightarrow> ('x ManagementService, unit) prog" where
  "on_remove_prog node =
     prog_bind (lock_scope (RwStatusLock node)
       (Touch [(StatusData node, Writes)] (\<lambda>s. (set_status node DISCONNECTED s, Return ())))) (\<lambda>_.
     dispatch_prog (new_event REMOVAL node) (Return ()))"

definition remove_by_mac_address_prog :: "MacAddress \<Rightarrow> ('x ManagementService, bool) prog" where
  "remove_by_mac_address_prog address =
     lock_scope RwDataLock (
       Touch table_access (\<lambda>s.
         let (handle, by_mac) = map_extract address (mac_address_index s) in
         (s\<lparr>mac_address_index := by_mac\<rparr>,
          case handle of
            None \<Rightarrow> Return False
          | Some node \<Rightarrow>
              Touch table_access (\<lambda>s.
                (s\<lparr>ip_address_index := snd (map_extract (ip (addresses s node)) (ip_address_index s))\<rparr>,
              Touch table_access (\<lambda>s.
                (s\<lparr>hostname_index := snd (map_extract (hostname (addresses s node)) (hostname_index s))\<rparr>,
              prog_bind (on_remove_prog node) (\<lambda>_. Return True))))))))"

definition remove_by_ip_address_prog :: "IpAddress \<Rightarrow> ('x ManagementService, bool) prog" where
  "remove_by_ip_address_prog address =
     lock_scope RwDataLock (
       Touch table_access (\<lambda>s.
         let (handle, by_ip) = map_extract address (ip_address_index s) in
         (s\<lparr>ip_address_index := by_ip\<rparr>,
          case handle of
            None \<Rightarrow> Return False
          | Some node \<Rightarrow>
              Touch table_access (\<lambda>s.
                (s\<lparr>mac_address_index := snd (map_extract (mac (addresses s node)) (mac_address_index s))\<rparr>,
              Touch table_access (\<lambda>s.
                (s\<lparr>hostname_index := snd (map_extract (hostname (addresses s node)) (hostname_index s))\<rparr>,
              prog_bind (on_remove_prog node) (\<lambda>_. Return True))))))))"

definition remove_by_hostname_prog :: "string \<Rightarrow> ('x ManagementService, bool) prog" where
  "remove_by_hostname_prog name =
     lock_scope RwDataLock (
       Touch table_access (\<lambda>s.
         let (handle, by_hostname) = map_extract name (hostname_index s) in
         (s\<lparr>hostname_index := by_hostname\<rparr>,
          case handle of
            None \<Rightarrow> Return False
          | Some node \<Rightarrow>
              Touch table_access (\<lambda>s.
                (s\<lparr>mac_address_index := snd (map_extract (mac (addresses s node)) (mac_address_index s))\<rparr>,
              Touch table_access (\<lambda>s.
                (s\<lparr>ip_address_index := snd (map_extract (ip (addresses s node)) (ip_address_index s))\<rparr>,
              prog_bind (on_remove_prog node) (\<lambda>_. Return True))))))))"

text \<open>The lookups, under the shared guard of the table.\<close>

definition lookup_prog :: "(lock_name \<Rightarrow> lock_act) \<Rightarrow> ('x ManagementService \<Rightarrow> 'r) \<Rightarrow>
    ('x ManagementService, 'r) prog" where
  "lookup_prog ctor lookup = shared_scope ctor RwDataLock (Touch [(TableData, Reads)] (\<lambda>s. (s, Return (lookup s))))"

definition update_sleep_status_prog :: "(lock_name \<Rightarrow> lock_act) \<Rightarrow> MacAddress \<Rightarrow> Status \<Rightarrow>
    ('x ManagementService, bool) prog" where
  "update_sleep_status_prog ctor address st =
     prog_bind (lookup_prog ctor (get_by_mac_address address)) (\<lambda>found.
     case found of
       None \<Rightarrow> Return False
     | Some node \<Rightarrow>
         prog_bind (lock_scope (RwStatusLock node)
           (Touch [(StatusData node, Reads)] (\<lambda>s. (s,
             if status s node \<noteq> st
             then Touch [(StatusData node, Writes)] (\<lambda>s. (set_status node st s, Return True))
             else Return False)))) (\<lambda>updated.
         if updated then dispatch_prog (new_event CHANGED_STATUS node) (Return True) else Return False))"

definition wakeup_prog :: "(lock_name \<Rightarrow> lock_act) \<Rightarrow> string \<Rightarrow> ('x ManagementService, bool) prog" where
  "wakeup_prog ctor name =
     prog_bind (lookup_prog ctor (get_by_hostname name)) (\<lambda>found.
     case found of
       None \<Rightarrow> Return False
     | Some node \<Rightarrow>
         prog_bind (lock_scope (RwStatusLock node)
           (Touch [(StatusData node, Reads)] (\<lambda>s. (s,
             if status s node = ASLEEP
             then Touch [(StatusData node, Writes)] (\<lambda>s. (set_status node AWAKEN s, Return True))
             else Return False)))) (\<lambda>wokeup.
         if wokeup then dispatch_prog (new_event CHANGED_STATUS node) (Return True) else Return False))"

definition register_event_handler_prog :: "('x \<Rightarrow> ManagementEvent \<Rightarrow> 'x) \<Rightarrow> ('x ManagementService, unit) prog" where
  "register_event_handler_prog h =
     lock_scope EventLock (Touch [(HandlerList, Writes)] (\<lambda>s. (register_event_handler h s, Return ())))"

section \<open>Calls\<close>

datatype 'x service_call =
    CStatus station
  | CInsert station
  | CRemoveByMac MacAddress
  | CRemoveByIp IpAddress
  | CRemoveByHostname string
  | CGetByMac MacAddress
  | CGetByIp IpAddress
  | CGetByHostname string
  | CUpdate MacAddress Status
  | CWakeup string
  | CList
  | CRegister "'x \<Rightarrow> ManagementEvent \<Rightarrow> 'x"

datatype answer =
    ABool bool
  | AStation "station option"
  | AStations "station option list"
  | AStatus Status
  | ANothing

abbreviation answers :: "('r \<Rightarrow> answer) \<Rightarrow> ('s, 'r) prog \<Rightarrow> ('s, answer) prog" where
  "answers g p \<equiv> prog_bind p (\<lambda>r. Return (g r))"

fun service_prog :: "(lock_name \<Rightarrow> lock_act) \<Rightarrow> 'x service_call \<Rightarrow> ('x ManagementService, answer) prog" where
  "service_prog ctor (CStatus node) = answers AStatus (status_prog ctor node)"
| "service_prog ctor (CInsert node) = answers ABool (insert_prog ctor node)"
| "service_prog ctor (CRemoveByMac a) = answers ABool (remove_by_mac_address_prog a)"
| "service_prog ctor (CRemoveByIp a) = answers ABool (remove_by_ip_address_prog a)"
| "service_prog ctor (CRemoveByHostname h) = answers ABool (remove_by_hostname_prog h)"
| "service_prog ctor (CGetByMac a) = answers AStation (lookup_prog ctor (get_by_mac_address a))"
| "service_prog ctor (CGetByIp a) = answers AStation (lookup_prog ctor (get_by_ip_address a))"
| "service_prog ctor (CGetByHostname h) = answers AStation (lookup_prog ctor (get_by_hostname h))"
| "service_prog ctor (CUpdate a st) = answers ABool (update_sleep_status_prog ctor a st)"
| "service_prog ctor (CWakeup h) = answers ABool (wakeup_prog ctor h)"
| "service_prog ctor CList = answers AStations (lookup_prog ctor participant_list)"
| "service_prog ctor (CRegister h) = answers (\<lambda>_. ANothing) (register_event_handler_prog h)"

text \<open>The same calls as the operations of the theory \<open>Management\<close>.\<close>

fun service_op :: "'x service_call \<Rightarrow> 'x ManagementService \<Rightarrow> answer \<times> 'x ManagementService" where
  "service_op (CStatus node) s = (AStatus (status s node), s)"
| "service_op (CInsert node) s = map_prod ABool id (ms_insert node s)"
| "service_op (CRemoveByMac a) s = map_prod ABool id (remove_by_mac_address a s)"
| "service_op (CRemoveByIp a) s = map_prod ABool id (remove_by_ip_address a s)"
| "service_op (CRemoveByHostname h) s = map_prod ABool id (remove_by_hostname h s)"
| "service_op (CGetByMac a) s = (AStation (get_by_mac_address a s), s)"
| "service_op (CGetByIp a) s = (AStation (get_by_ip_address a s), s)"
| "service_op (CGetByHostname h) s = (AStation (get_by_hostname h s), s)"
| "service_op (CUpdate a st) s = map_prod ABool id (update_sleep_status a st s)"
| "service_op (CWakeup h) s = map_prod ABool id (wakeup h s)"
| "service_op CList s = (AStations (participant_list s), s)"
| "service_op (CRegister h) s = (ANothing, register_event_handler h s)"

lemmas service_progs = dispatch_prog_def status_prog_def insert_prog_def on_remove_prog_def
  remove_by_mac_address_prog_def remove_by_ip_address_prog_def remove_by_hostname_prog_def lookup_prog_def
  update_sleep_status_prog_def wakeup_prog_def register_event_handler_prog_def lock_scope_def shared_scope_def

section \<open>The discipline\<close>

fun lock_rank :: "lock_name \<Rightarrow> nat" where
  "lock_rank RwDataLock = 0"
| "lock_rank (RwStatusLock n) = 1"
| "lock_rank EventLock = 2"

fun service_guard :: "location \<Rightarrow> lock_name option" where
  "service_guard TableData = Some RwDataLock"
| "service_guard (StatusData n) = Some (RwStatusLock n)"
| "service_guard _ = None"

fun same_at :: "location \<Rightarrow> 'x ManagementService \<Rightarrow> 'x ManagementService \<Rightarrow> bool" where
  "same_at TableData s s' = (mac_address_index s = mac_address_index s' \<and> ip_address_index s = ip_address_index s'
     \<and> hostname_index s = hostname_index s')"
| "same_at (StatusData n) s s' = (status s n = status s' n)"
| "same_at AddressData s s' = (addresses s = addresses s')"
| "same_at HandlerList s s' = (event_handlers s = event_handlers s')"
| "same_at OutsideData s s' = (outside s = outside s')"

lemma all_locations: "(\<forall>l. P l) \<longleftrightarrow> P TableData \<and> (\<forall>n. P (StatusData n)) \<and> P AddressData \<and> P HandlerList \<and> P OutsideData"
  by (auto; metis location.exhaust)

lemma same_refl [simp]: "same_at l s s"
  by (cases l) simp_all

lemmas discipline_simps = disciplined_simps writes_only_def all_locations

lemma service_disciplined:
  "disciplined lax lock_rank service_guard same_at {} (service_prog LockShared c)"
  "disciplined True lock_rank service_guard same_at {} (service_prog UnlockShared c)"
  by (cases c; auto simp: service_progs discipline_simps addresses_def status_def set_status_def
      dispatch_event_def register_event_handler_def Let_def fun_eq_iff split: prod.splits option.splits)+

lemma lock_rank_bounded: "lock_rank n \<le> 2"
  by (cases n) simp_all

text \<open>The code's guard, and the guard as it is meant.\<close>

interpretation as_written: guarded_calls True lock_rank service_guard same_at "service_prog UnlockShared" 2
  by unfold_locales (rule service_disciplined lock_rank_bounded)+

interpretation as_meant: guarded_calls False lock_rank service_guard same_at "service_prog LockShared" 2
  by unfold_locales (rule service_disciplined lock_rank_bounded)+

definition shared_guard :: "(lock_name \<Rightarrow> lock_act) \<Rightarrow> bool" where
  "shared_guard ctor \<longleftrightarrow> ctor = LockShared \<or> ctor = UnlockShared"

lemma shared_guard_cases: "shared_guard LockShared" "shared_guard UnlockShared"
  by (simp_all add: shared_guard_def)

section \<open>A thread that runs alone\<close>

text \<open>The first \<open>k\<close> steps of a program, up to its result, of the thread \<open>t\<close>.\<close>

fun run_thread :: "nat \<Rightarrow> nat \<Rightarrow> ('s, 'r) prog \<Rightarrow> 's \<Rightarrow> (lock_name \<Rightarrow> holders) \<Rightarrow>
    (('s, 'r) prog \<times> 's \<times> (lock_name \<Rightarrow> holders)) option" where
  "run_thread 0 t p s h = Some (p, s, h)"
| "run_thread (Suc k) t (Return r) s h = Some (Return r, s, h)"
| "run_thread (Suc k) t (Locks a p) s h =
     (case lock_by t a h of Holding h' \<Rightarrow> run_thread k t p s h' | _ \<Rightarrow> None)"
| "run_thread (Suc k) t (Touch as f) s h = run_thread k t (snd (f s)) (fst (f s)) h"

lemma run_thread_reaches:
  assumes "run_thread k t p s h = Some (p', s', h')"
    and "calls_reachable start s0 T" and "doing T t = Some p" and "shared T = s" and "lock_state T = h"
    and "\<not> undefined_call T"
  shows "calls_reachable start s0 (T\<lparr>shared := s', lock_state := h', doing := (doing T)(t := Some p')\<rparr>)"
  using assms
proof (induction k t p s h arbitrary: T rule: run_thread.induct)
  case (1 t p s h)
  then have "T\<lparr>shared := s', lock_state := h', doing := (doing T)(t := Some p')\<rparr> = T"
    by (cases T) (auto simp: fun_upd_idem)
  then show ?case using 1(2) by (simp only:)
next
  case (2 k t r s h)
  then have "T\<lparr>shared := s', lock_state := h', doing := (doing T)(t := Some p')\<rparr> = T"
    by (cases T) (auto simp: fun_upd_idem)
  then show ?case using 2(2) by (simp only:)
next
  case (3 k t a p s h)
  then obtain h1 where h1: "lock_by t a h = Holding h1" "run_thread k t p s h1 = Some (p', s', h')"
    by (auto split: by_outcome.splits)
  let ?T = "T\<lparr>lock_state := h1, doing := (doing T)(t := Some p)\<rparr>"
  have "work_step T ?T" using 3(3-7) h1(1) by (intro work_step.thread_locks) auto
  then have "calls_reachable start s0 ?T" using 3(3) by (blast intro: calls_steps thread_works)
  then have "calls_reachable start s0 (?T\<lparr>shared := s', lock_state := h', doing := (doing ?T)(t := Some p')\<rparr>)"
    by (rule "3.IH" [OF h1]) (use 3(5,7) in simp_all)
  moreover have "?T\<lparr>shared := s', lock_state := h', doing := (doing ?T)(t := Some p')\<rparr> =
      T\<lparr>shared := s', lock_state := h', doing := (doing T)(t := Some p')\<rparr>" by simp
  ultimately show ?case by (simp only:)
next
  case (4 k t as f s h)
  let ?T = "T\<lparr>shared := fst (f s), doing := (doing T)(t := Some (snd (f s)))\<rparr>"
  have "work_step T ?T" using 4(3-7) by (intro work_step.thread_touches) auto
  then have "calls_reachable start s0 ?T" using 4(3) by (blast intro: calls_steps thread_works)
  then have "calls_reachable start s0 (?T\<lparr>shared := s', lock_state := h', doing := (doing ?T)(t := Some p')\<rparr>)"
    by (rule "4.IH" [rotated]) (use 4(2,6,7) in simp_all)
  moreover have "?T\<lparr>shared := s', lock_state := h', doing := (doing ?T)(t := Some p')\<rparr> =
      T\<lparr>shared := s', lock_state := h', doing := (doing T)(t := Some p')\<rparr>" by simp
  ultimately show ?case by (simp only:)
qed

lemma call_reaches:
  assumes "run_thread k t (start c) (shared T) (lock_state T) = Some (p', s', h')"
    and "calls_reachable start s0 T" and "doing T t = None" and "\<not> undefined_call T"
  shows "calls_reachable start s0 (T\<lparr>shared := s', lock_state := h', doing := (doing T)(t := Some p')\<rparr>)"
proof -
  let ?T = "T\<lparr>doing := (doing T)(t := Some (start c))\<rparr>"
  have "calls_reachable start s0 ?T"
    using assms(2-4) by (blast intro: calls_steps thread_calls)
  from run_thread_reaches [OF _ this, of k t "start c" "shared T" "lock_state T"] show ?thesis
    using assms(1,4) by simp
qed

lemma free_again [simp]:
  "(\<lambda>_. nobody)(n := nobody\<lparr>writer_of := None\<rparr>) = (\<lambda>_. nobody)"
  "(\<lambda>_. nobody)(n := nobody\<lparr>readers_of := {}\<rparr>) = (\<lambda>_. nobody)"
  by (auto simp: nobody_def fun_eq_iff)

text \<open>A call that no other thread disturbs does what the sequential operation does.\<close>

lemma run_alone:
  "run_thread 10 t (service_prog LockShared c) s (\<lambda>_. nobody) =
     Some (Return (fst (service_op c s)), snd (service_op c s), \<lambda>_. nobody)"
  by (cases c) (auto simp: service_progs eval_nat_numeral owns_def nobody_def Let_def split_beta
      ms_insert_def remove_by_mac_address_def remove_by_ip_address_def remove_by_hostname_def on_remove_def
      update_sleep_status_def wakeup_def addresses_def fun_upd_idem split: option.splits)

text \<open>A state after a call on a fresh set of threads.\<close>

lemma call_alone_reaches:
  assumes "run_thread k t (start c) s (\<lambda>_. nobody) = Some (p, s', h')"
  shows "calls_reachable start s ((threads_start s)\<lparr>shared := s', lock_state := h', doing := (\<lambda>_. None)(t := Some p)\<rparr>)"
proof -
  have "run_thread k t (start c) (shared (threads_start s)) (lock_state (threads_start s)) = Some (p, s', h')"
    using assms by (simp add: threads_start_def)
  from call_reaches [where start = start, OF this calls_start] show ?thesis by (simp add: threads_start_def)
qed

lemma call_begins:
  assumes "calls_reachable start s0 T" and "\<not> undefined_call T" and "doing T t = None"
  shows "calls_reachable start s0 (T\<lparr>doing := (doing T)(t := Some (start c))\<rparr>)"
  using assms by (blast intro: calls_steps thread_calls)

text \<open>A state in which one thread holds the table's lock and another one is about to ask for it.\<close>

lemma two_callers:
  obtains T where "calls_reachable (service_prog LockShared) (service_a AWAKEN) T" and "busy T = {0, 1}"
    and "\<not> undefined_call T" and "writer_of (lock_state T RwDataLock) = Some 0"
proof -
  let ?c = "CRemoveByMac (mac host_a) :: unit service_call" and ?d = "CRemoveByIp (ip host_a) :: unit service_call"
  have "\<exists>p h. run_thread 1 0 (service_prog LockShared (CRemoveByMac a)) s (\<lambda>_. nobody) = Some (p, s, h)
      \<and> writer_of (h RwDataLock) = Some 0" for a and s :: "unit ManagementService"
    by (simp add: service_progs owns_def nobody_def)
  then obtain p h where run: "run_thread 1 0 (service_prog LockShared ?c) (service_a AWAKEN) (\<lambda>_. nobody) =
      Some (p, service_a AWAKEN, h)" and h: "writer_of (h RwDataLock) = Some 0"
    by meson
  let ?T = "(threads_start (service_a AWAKEN))\<lparr>shared := service_a AWAKEN, lock_state := h, doing := (\<lambda>_. None)(0 := Some p)\<rparr>"
  let ?T' = "?T\<lparr>doing := (doing ?T)(1 := Some (service_prog LockShared ?d))\<rparr>"
  have T: "calls_reachable (service_prog LockShared) (service_a AWAKEN) ?T"
    by (rule call_alone_reaches [where start = "service_prog LockShared", OF run])
  have "\<not> undefined_call ?T" "doing ?T 1 = None" by (simp_all add: threads_start_def)
  from call_begins [OF T this, of ?d]
  have "calls_reachable (service_prog LockShared) (service_a AWAKEN) ?T'" .
  moreover have "busy ?T' = {0, 1}" by (auto simp: busy_def split: if_splits)
  ultimately show thesis using that [of ?T'] h by (simp add: threads_start_def)
qed

text \<open>When no thread is in a call, no lock is held.\<close>

lemma idle_locks_free:
  assumes "threads_inv lax rank guard same T" and "\<forall>t. doing T t = None"
  shows "lock_state T = (\<lambda>_. nobody)"
proof (rule ext)
  fix n
  have "\<forall>t. holds (lock_state T) t = {}" using assms by (simp add: threads_inv_def)
  then have "writer_of (lock_state T n) \<noteq> Some t \<and> t \<notin> readers_of (lock_state T n)" for t
    by (metis holds_iff empty_iff)
  then have "writer_of (lock_state T n) = None" "readers_of (lock_state T n) = {}"
    by (auto intro: option.exhaust)
  then show "lock_state T n = nobody" by (simp add: nobody_def)
qed

section \<open>Properties\<close>

text \<open>
  A call that runs alone is the operation: in every state that threads reach with a shared
  guard that locks, when no thread is in a call, any thread can call any operation and get to the
  state in which the service is as the sequential operation leaves it, with that operation's
  result returned and all locks free. So the programs, read from the code statement by
  statement, and the operations of the theory \<open>Management\<close> describe the same code.
\<close>

lemma calls_alone:
  assumes "calls_reachable (service_prog LockShared) s0 T" and "\<forall>t. doing T t = None" and "\<not> undefined_call T"
  shows "calls_reachable (service_prog LockShared) s0
    (T\<lparr>shared := snd (service_op c (shared T)), returned := returned T @ [(t, fst (service_op c (shared T)))]\<rparr>)"
proof -
  have free: "lock_state T = (\<lambda>_. nobody)"
    by (rule idle_locks_free [OF as_meant.threads_reachable_inv [OF assms(1)] assms(2)])
  let ?r = "fst (service_op c (shared T))"
  let ?T = "T\<lparr>shared := snd (service_op c (shared T)), lock_state := (\<lambda>_. nobody), doing := (doing T)(t := Some (Return ?r))\<rparr>"
  have "calls_reachable (service_prog LockShared) s0 ?T"
    by (rule call_reaches [OF _ assms(1)]) (use assms(2,3) free run_alone in simp_all)
  moreover have "work_step ?T (?T\<lparr>doing := (doing ?T)(t := None), returned := returned ?T @ [(t, ?r)]\<rparr>)"
    by (rule thread_returns) (use assms(3) in simp_all)
  ultimately have "calls_reachable (service_prog LockShared) s0
      (?T\<lparr>doing := (doing ?T)(t := None), returned := returned ?T @ [(t, ?r)]\<rparr>)"
    by (blast intro: calls_steps thread_works)
  moreover have "?T\<lparr>doing := (doing ?T)(t := None), returned := returned ?T @ [(t, ?r)]\<rparr> =
      T\<lparr>shared := snd (service_op c (shared T)), returned := returned T @ [(t, ?r)]\<rparr>"
    using free assms(2) by (cases T) (auto simp: fun_upd_idem)
  ultimately show ?thesis by (simp only:)
qed

text \<open>
  C9: No data race for the guarded data: in every interleaving of any calls by any threads, as
  long as nothing undefined happened, no thread writes the indexes or the status of a station
  while another thread reads or writes the same. This holds for the guard that locks, and also for
  the guard of the code, with which a reader runs into undefined behaviour before it reads.
\<close>

theorem service_race_free:
  assumes "shared_guard ctor" and "calls_reachable (service_prog ctor) s0 T"
  shows "\<not> racing T TableData \<and> \<not> racing T (StatusData n)"
  using assms as_written.race_free [of s0 T] as_meant.race_free [of s0 T] by (auto simp: shared_guard_def)

theorem service_race_free_witness:
  "\<exists>T. calls_reachable (service_prog LockShared) (service_a AWAKEN) T \<and> busy T = {0, 1}
    \<and> writer_of (lock_state T RwDataLock) = Some 0 \<and> \<not> racing T TableData"
proof -
  obtain T where T: "calls_reachable (service_prog LockShared) (service_a AWAKEN) T" "busy T = {0, 1}"
    "writer_of (lock_state T RwDataLock) = Some 0" by (rule two_callers)
  from service_race_free [OF shared_guard_cases(1) T(1)] show ?thesis using T by blast
qed

text \<open>
  C10: No deadlock: in every state that any calls by any threads reach, as long as nothing undefined
  happened, if a thread is in a call then some thread can do its next step.
\<close>

theorem service_deadlock_free:
  assumes "shared_guard ctor" and "calls_reachable (service_prog ctor) s0 T" and "\<not> undefined_call T"
    and "doing T t = Some p"
  shows "\<exists>T'. work_step T T'"
  using assms as_written.deadlock_free [of s0 T t p] as_meant.deadlock_free [of s0 T t p]
  by (auto simp: shared_guard_def)

theorem service_deadlock_free_witness:
  "\<exists>T T'. calls_reachable (service_prog LockShared) (service_a AWAKEN) T \<and> busy T = {0, 1} \<and> work_step T T'"
proof -
  obtain T where T: "calls_reachable (service_prog LockShared) (service_a AWAKEN) T" "busy T = {0, 1}"
    "\<not> undefined_call T" by (rule two_callers)
  then have "0 \<in> busy T" by simp
  then obtain p where "doing T 0 = Some p" by (auto simp: busy_def)
  from service_deadlock_free [OF shared_guard_cases(1) T(1,3) this] show ?thesis using T(1,2) by blast
qed

lemma service_within: "shared_guard ctor \<Longrightarrow> within 10 (service_prog ctor c)"
  by (cases c) (auto simp: service_progs eval_nat_numeral Let_def split_beta split: option.splits)

lemma within_mono: "within n p \<Longrightarrow> n \<le> m \<Longrightarrow> within m p"
proof (induction n arbitrary: p m)
  case (Suc n)
  then obtain m' where "m = Suc m'" "n \<le> m'" by (cases m) auto
  then show ?case using Suc by (auto split: prog.splits)
qed simp

lemma reachable_within:
  "calls_reachable start s0 T \<Longrightarrow> (\<And>c. within n (start c)) \<Longrightarrow> \<forall>t p. doing T t = Some p \<longrightarrow> within n p"
proof (induction rule: calls_reachable.induct)
  case calls_start
  then show ?case by (simp add: threads_start_def)
next
  case (calls_steps T T')
  note ih = calls_steps.IH [OF calls_steps.prems, rule_format]
  from calls_steps(2) show ?case
  proof (cases rule: calls_step.cases)
    case (thread_calls t c)
    then show ?thesis using ih calls_steps.prems by auto
  next
    case thread_works
    then show ?thesis
    proof (cases rule: work_step.cases)
      case (thread_locks t a p h)
      have "within n p"
        using ih [OF thread_locks(3)] within_mono [of "n - 1" p n] by (cases n) auto
      then show ?thesis using thread_locks(1) ih by auto
    next
      case (thread_undefined t a p)
      then show ?thesis using ih by auto
    next
      case (thread_touches t as f s p)
      have "within n p"
        using ih [OF thread_touches(3)] thread_touches(4) within_mono [of "n - 1" p n] by (cases n) (auto, metis snd_conv)
      then show ?thesis using thread_touches(1) ih by auto
    next
      case (thread_returns t r)
      then show ?thesis using ih by auto
    qed
  qed
qed

text \<open>Threads that start no new calls get to a state in which none of them can go on.\<close>

lemma calls_finish:
  assumes "shared_guard ctor" and "calls_reachable (service_prog ctor) s0 T" and "finite (busy T)"
  obtains k T' where "(work_step ^^ k) T T'" and "\<not> (\<exists>T''. work_step T' T'')"
proof -
  let ?P = "\<lambda>k. \<exists>T'. (work_step ^^ k) T T'"
  have "budgeted (\<lambda>_. 10) T"
    using reachable_within [OF assms(2) service_within [OF assms(1)]] by (simp add: budgeted_def)
  then have bound: "k \<le> 10 * card (busy T)" if "?P k" for k
    using works_bounded [of k T _ "\<lambda>_. 10"] assms(3) that by (auto simp: mult.commute)
  have "?P 0" by simp
  then obtain k where k: "?P k" "\<forall>k'. ?P k' \<longrightarrow> k' \<le> k"
    using GreatestI_nat [of ?P 0] Greatest_le_nat [of ?P] bound by blast
  then obtain T' where T': "(work_step ^^ k) T T'" by blast
  have "\<not> work_step T' T''" for T''
    using k(2) relpowp_Suc_I [OF T'] by (metis Suc_n_not_le_n)
  then show thesis using that T' by blast
qed

lemma works_reachable:
  "(work_step ^^ k) T T' \<Longrightarrow> calls_reachable start s0 T \<Longrightarrow> calls_reachable start s0 T'"
  by (induction k arbitrary: T') (auto intro: calls_steps thread_works)

text \<open>
  C16: Every call ends: threads that are in calls and start no new ones do, all together and in
  whatever order, at most ten steps for each of them; when none of them can go on any more, all
  of them have returned, or something undefined has happened; and with a shared guard that locks
  nothing undefined ever happens, so that with it all of them return.
\<close>

theorem service_calls_end:
  assumes "shared_guard ctor" and "calls_reachable (service_prog ctor) s0 T" and "finite (busy T)"
    and "(work_step ^^ k) T T'"
  shows "k \<le> 10 * card (busy T)
    \<and> (\<not> (\<exists>T''. work_step T' T'') \<longrightarrow> (\<forall>t. doing T' t = None) \<or> undefined_call T')
    \<and> (ctor = LockShared \<longrightarrow> \<not> undefined_call T')"
proof -
  have "budgeted (\<lambda>_. 10) T"
    using reachable_within [OF assms(2) service_within [OF assms(1)]] by (simp add: budgeted_def)
  from works_bounded [OF assms(4) this assms(3)] have "k \<le> 10 * card (busy T)" by (simp add: mult.commute)
  moreover have T': "calls_reachable (service_prog ctor) s0 T'" by (rule works_reachable [OF assms(4,2)])
  have "\<exists>T''. work_step T' T''" if "\<not> undefined_call T'" "doing T' t = Some p" for t p
    using assms(1) T' that as_written.deadlock_free [of s0 T' t p] as_meant.deadlock_free [of s0 T' t p]
    by (auto simp: shared_guard_def)
  moreover have "\<not> undefined_call T'" if "ctor = LockShared"
    using as_meant.never_undefined [of s0 T'] T' that by simp
  ultimately show ?thesis by (metis not_None_eq)
qed

theorem service_calls_end_witness:
  "\<exists>T k T'. calls_reachable (service_prog LockShared) (service_a AWAKEN) T \<and> busy T = {0, 1}
    \<and> (work_step ^^ k) T T' \<and> k \<le> 20 \<and> (\<forall>t. doing T' t = None) \<and> \<not> undefined_call T'"
proof -
  obtain T where T: "calls_reachable (service_prog LockShared) (service_a AWAKEN) T" "busy T = {0, 1}"
    by (rule two_callers)
  then have f: "finite (busy T)" by simp
  obtain k T' where k: "(work_step ^^ k) T T'" "\<not> (\<exists>T''. work_step T' T'')"
    by (rule calls_finish [OF shared_guard_cases(1) T(1) f])
  have "k \<le> 20 \<and> (\<forall>t. doing T' t = None) \<and> \<not> undefined_call T'"
    using service_calls_end [OF shared_guard_cases(1) T(1) f k(1)] k(2) T(2) by auto
  then show ?thesis using T k(1) by blast
qed

end
