(* ===== verification/Service_Table.thy ===== *)
theory Service_Table
  imports Service_Threads
begin

text \<open>
  What the threads of the theory \<open>Service_Threads\<close> do to the table: what every operation keeps of the
  indexes holds between two holders of the table's lock. And what they can do in
  spite of the locks: a late update of a station that was removed, and a race for the handlers.
\<close>

section \<open>The table between two holders of its lock\<close>

type_synonym table = "(MacAddress, station) std_map \<times> (IpAddress, station) std_map \<times> (string, station) std_map"

definition table_part :: "'x ManagementService \<Rightarrow> table" where
  "table_part s = (mac_address_index s, ip_address_index s, hostname_index s)"

text \<open>
  A program that keeps \<open>J\<close>: \<open>Some tb\<close> is that it holds the table's lock and the table is \<open>tb\<close>.
  \<open>A\<close> are the addresses of the stations, which nobody changes; with \<open>broken\<close> the shared guard is
  that of the code, and nobody ever gets past it.
\<close>

inductive table_safe :: "bool \<Rightarrow> (station \<Rightarrow> NodeAddresses) \<Rightarrow> (table \<Rightarrow> bool) \<Rightarrow> table option \<Rightarrow>
    ('x ManagementService, 'r) prog \<Rightarrow> bool"
  for broken A J where
  safe_return: "table_safe broken A J None (Return r)"
| safe_lock: "(\<And>tb. J tb \<Longrightarrow> table_safe broken A J (Some tb) p) \<Longrightarrow>
    table_safe broken A J None (Locks (Lock RwDataLock) p)"
| safe_unlock: "J tb \<Longrightarrow> table_safe broken A J None p \<Longrightarrow>
    table_safe broken A J (Some tb) (Locks (Unlock RwDataLock) p)"
| safe_other_lock: "n \<noteq> RwDataLock \<Longrightarrow> table_safe broken A J x p \<Longrightarrow>
    table_safe broken A J x (Locks (Lock n) p)"
| safe_other_unlock: "n \<noteq> RwDataLock \<Longrightarrow> table_safe broken A J x p \<Longrightarrow>
    table_safe broken A J x (Locks (Unlock n) p)"
| safe_lock_shared: "\<not> broken \<Longrightarrow> table_safe broken A J x p \<Longrightarrow>
    table_safe broken A J x (Locks (LockShared n) p)"
| safe_unlock_shared: "\<not> broken \<longrightarrow> table_safe broken A J x p \<Longrightarrow>
    table_safe broken A J x (Locks (UnlockShared n) p)"
| safe_touch: "(\<And>s. x = None \<or> x = Some (table_part s) \<Longrightarrow> addresses s = A \<Longrightarrow>
      addresses (fst (f s)) = A \<and> (x = None \<longrightarrow> table_part (fst (f s)) = table_part s)
      \<and> table_safe broken A J (map_option (\<lambda>_. table_part (fst (f s))) x) (snd (f s))) \<Longrightarrow>
    table_safe broken A J x (Touch as f)"

inductive_simps table_safe_simps:
  "table_safe broken A J x (Return r)"
  "table_safe broken A J x (Locks (Lock RwDataLock) p)"
  "table_safe broken A J x (Locks (Lock (RwStatusLock n)) p)"
  "table_safe broken A J x (Locks (Lock EventLock) p)"
  "table_safe broken A J x (Locks (Unlock RwDataLock) p)"
  "table_safe broken A J x (Locks (Unlock (RwStatusLock n)) p)"
  "table_safe broken A J x (Locks (Unlock EventLock) p)"
  "table_safe broken A J x (Locks (LockShared n) p)"
  "table_safe broken A J x (Locks (UnlockShared n) p)"
  "table_safe broken A J x (Touch as f)"

definition held_table :: "('x ManagementService, 'r) threads \<Rightarrow> nat \<Rightarrow> table option" where
  "held_table T t = (if writer_of (lock_state T RwDataLock) = Some t then Some (table_part (shared T)) else None)"

definition table_inv :: "bool \<Rightarrow> (station \<Rightarrow> NodeAddresses) \<Rightarrow> (table \<Rightarrow> bool) \<Rightarrow>
    ('x ManagementService, 'r) threads \<Rightarrow> bool" where
  "table_inv broken A J T \<longleftrightarrow> addresses (shared T) = A
     \<and> (\<forall>t p. doing T t = Some p \<longrightarrow> table_safe broken A J (held_table T t) p)
     \<and> (\<forall>t. doing T t = None \<longrightarrow> held_table T t = None)
     \<and> (writer_of (lock_state T RwDataLock) = None \<longrightarrow> J (table_part (shared T)))
     \<and> (broken \<longrightarrow> (\<forall>n. readers_of (lock_state T n) = {}))"

lemma table_invD:
  assumes "table_inv broken A J T"
  shows "addresses (shared T) = A" and "doing T t = Some p \<Longrightarrow> table_safe broken A J (held_table T t) p"
    and "writer_of (lock_state T RwDataLock) = None \<Longrightarrow> J (table_part (shared T))"
    and "broken \<Longrightarrow> readers_of (lock_state T n) = {}"
    and "doing T t = None \<Longrightarrow> held_table T t = None"
  using assms by (simp_all add: table_inv_def)

lemma table_inv_locks:
  assumes "doing T t = Some (Locks a p)" and "lock_by t a (lock_state T) = Holding h"
    and "table_inv broken A J T"
  shows "table_inv broken A J (T\<lparr>lock_state := h, doing := (doing T)(t := Some p)\<rparr>)"
    (is "table_inv broken A J ?T")
proof -
  note inv = table_invD [OF assms(3)]
  have safe: "table_safe broken A J (held_table T t) (Locks a p)" by (rule inv(2) [OF assms(1)])
  have others: "held_table ?T t' = held_table T t'" if "t' \<noteq> t" for t'
    using holds_lock_by(2) [OF assms(2) that] by (auto simp: held_table_def set_eq_iff holds_iff [symmetric])
  have "table_safe broken A J (held_table ?T t) p \<and> (writer_of (h RwDataLock) = None \<longrightarrow> J (table_part (shared T)))
    \<and> (broken \<longrightarrow> (\<forall>n. readers_of (h n) = {}))"
  proof (cases a)
    case (Lock n)
    then show ?thesis
      using assms(2) safe inv(3,4)
      by (cases n; cases "table_part (shared T)") (auto simp: held_table_def table_safe_simps split: if_splits)
  next
    case (Unlock n)
    then show ?thesis
      using assms(2) safe inv(3,4)
      by (cases n) (auto simp: held_table_def table_safe_simps split: if_splits)
  next
    case (LockShared n)
    then show ?thesis
      using assms(2) safe inv(3,4) by (auto simp: held_table_def table_safe_simps split: if_splits)
  next
    case (UnlockShared n)
    have "\<not> broken" using assms(2) UnlockShared inv(4) by (auto split: if_splits)
    moreover from this have "table_safe broken A J (held_table T t) p"
      using safe UnlockShared by (simp add: table_safe_simps)
    ultimately show ?thesis
      using assms(2) UnlockShared inv(3) by (auto simp: held_table_def split: if_splits)
  qed
  then show ?thesis
    using inv(1,2,5) others by (auto simp: table_inv_def)
qed

lemma table_inv_touches:
  assumes "doing T t = Some (Touch as f)" and "f (shared T) = (s, p)" and "table_inv broken A J T"
  shows "table_inv broken A J (T\<lparr>shared := s, doing := (doing T)(t := Some p)\<rparr>)"
    (is "table_inv broken A J ?T")
proof -
  note inv = table_invD [OF assms(3)]
  have safe: "table_safe broken A J (held_table T t) (Touch as f)" by (rule inv(2) [OF assms(1)])
  have "held_table T t = None \<or> held_table T t = Some (table_part (shared T))" by (simp add: held_table_def)
  then have r: "addresses s = A" "held_table T t = None \<Longrightarrow> table_part s = table_part (shared T)"
    "table_safe broken A J (map_option (\<lambda>_. table_part s) (held_table T t)) p"
    using safe inv(1) assms(2) by (auto simp: table_safe_simps dest!: spec [of _ "shared T"])
  have "held_table ?T t = map_option (\<lambda>_. table_part s) (held_table T t)" by (simp add: held_table_def)
  moreover have "held_table ?T t' = held_table T t'" if "t' \<noteq> t" for t'
    using r(2) that by (auto simp: held_table_def)
  moreover have "J (table_part s)" if "writer_of (lock_state T RwDataLock) = None"
    using r(2) inv(3) that by (simp add: held_table_def)
  ultimately show ?thesis
    using r inv(2,4,5) by (auto simp: table_inv_def)
qed

lemma table_inv_returns:
  assumes "doing T t = Some (Return r)" and "table_inv broken A J T"
  shows "table_inv broken A J (T\<lparr>doing := (doing T)(t := None), returned := rs\<rparr>)"
proof -
  note inv = table_invD [OF assms(2)]
  have "held_table T t = None" using inv(2) [OF assms(1)] by (cases "held_table T t") (simp_all add: table_safe_simps)
  moreover have "held_table (T\<lparr>doing := (doing T)(t := None), returned := rs\<rparr>) = held_table T"
    by (simp add: held_table_def fun_eq_iff)
  ultimately show ?thesis using inv by (auto simp: table_inv_def)
qed

lemma table_inv_reachable:
  assumes "calls_reachable start s0 T" and "\<And>c. table_safe broken (addresses s0) J None (start c)"
    and "J (table_part s0)"
  shows "table_inv broken (addresses s0) J T"
  using assms(1)
proof (induction rule: calls_reachable.induct)
  case calls_start
  show ?case using assms(3) by (simp add: table_inv_def threads_start_def nobody_def held_table_def)
next
  case (calls_steps T T')
  note ih = calls_steps.IH
  from calls_steps(2) show ?case
  proof (cases rule: calls_step.cases)
    case (thread_calls t c)
    have "held_table T' = held_table T" using thread_calls(1) by (simp add: held_table_def fun_eq_iff)
    then show ?thesis
      using table_invD [OF ih] thread_calls(1,3) assms(2) [of c] by (auto simp: table_inv_def)
  next
    case thread_works
    then show ?thesis
    proof (cases rule: work_step.cases)
      case (thread_undefined t a p)
      have "held_table T' = held_table T" using thread_undefined(1) by (simp add: held_table_def fun_eq_iff)
      then show ?thesis using ih thread_undefined(1) by (simp add: table_inv_def)
    next
      case (thread_returns t r)
      show ?thesis unfolding thread_returns(1) by (rule table_inv_returns [OF thread_returns(3) ih])
    qed (use ih table_inv_locks table_inv_touches in blast)+
  qed
qed

section \<open>Whole operations on the table\<close>

text \<open>
  What the critical section of an operation does to the table alone: the sequential operation on a
  service with the stations of \<open>s0\<close>. An insertion reads the status of its station before its critical section, and
  gets there only if it was not disconnected; so here no station is.
\<close>

definition with_table :: "'x ManagementService \<Rightarrow> table \<Rightarrow> 'x ManagementService" where
  "with_table s0 tb = (case tb of (m, i, h) \<Rightarrow>
     s0\<lparr>stations := (\<lambda>n. (stations s0 n)\<lparr>status' := AWAKEN\<rparr>),
       mac_address_index := m, ip_address_index := i, hostname_index := h\<rparr>)"

definition section_of :: "'x ManagementService \<Rightarrow> 'x service_call \<Rightarrow> table \<Rightarrow> table" where
  "section_of s0 c tb = table_part (snd (service_op c (with_table s0 tb)))"

fun removes :: "'x service_call \<Rightarrow> bool" where
  "removes (CRemoveByMac a) = True"
| "removes (CRemoveByIp a) = True"
| "removes (CRemoveByHostname h) = True"
| "removes _ = False"

lemma with_table_simps [simp]:
  "mac_address_index (with_table s0 (m, i, h)) = m" "ip_address_index (with_table s0 (m, i, h)) = i"
  "hostname_index (with_table s0 (m, i, h)) = h" "addresses (with_table s0 tb) = addresses s0"
  "status (with_table s0 tb) n = AWAKEN"
  by (auto simp: with_table_def addresses_def status_def fun_eq_iff split: prod.splits)

lemma table_part_simps [simp]:
  "table_part (dispatch_event e s) = table_part s" "table_part (set_status n st s) = table_part s"
  "table_part (register_event_handler h s) = table_part s"
  "table_part (s\<lparr>mac_address_index := m\<rparr>) = (m, snd (table_part s))"
  "table_part (s\<lparr>ip_address_index := i\<rparr>) = (fst (table_part s), i, snd (snd (table_part s)))"
  "table_part (s\<lparr>hostname_index := hn\<rparr>) = (fst (table_part s), fst (snd (table_part s)), hn)"
  "table_part (with_table s0 tb) = tb"
  by (auto simp: table_part_def dispatch_event_def set_status_def register_event_handler_def with_table_def
      split: prod.splits)

lemma addresses_simps:
  "addresses (dispatch_event e s) = addresses s" "addresses (set_status n st s) = addresses s"
  "addresses (register_event_handler h s) = addresses s" "addresses (s\<lparr>mac_address_index := m\<rparr>) = addresses s"
  "addresses (s\<lparr>ip_address_index := i\<rparr>) = addresses s" "addresses (s\<lparr>hostname_index := hn\<rparr>) = addresses s"
  by (auto simp: addresses_def dispatch_event_def set_status_def register_event_handler_def fun_eq_iff)

lemma section_simps:
  "section_of s0 (CInsert n) (m, i, h) =
    (if fst (map_insert (hostname (addresses s0 n)) n h)
     then (snd (map_insert (mac (addresses s0 n)) n m), snd (map_insert (ip (addresses s0 n)) n i),
       snd (map_insert (hostname (addresses s0 n)) n h))
     else (m, i, snd (map_insert (hostname (addresses s0 n)) n h)))"
  "section_of s0 (CRemoveByMac a) (m, i, h) =
    (case fst (map_extract a m) of None \<Rightarrow> (snd (map_extract a m), i, h)
     | Some n \<Rightarrow> (snd (map_extract a m), snd (map_extract (ip (addresses s0 n)) i),
         snd (map_extract (hostname (addresses s0 n)) h)))"
  "section_of s0 (CRemoveByIp b) (m, i, h) =
    (case fst (map_extract b i) of None \<Rightarrow> (m, snd (map_extract b i), h)
     | Some n \<Rightarrow> (snd (map_extract (mac (addresses s0 n)) m), snd (map_extract b i),
         snd (map_extract (hostname (addresses s0 n)) h)))"
  "section_of s0 (CRemoveByHostname k) (m, i, h) =
    (case fst (map_extract k h) of None \<Rightarrow> (m, i, snd (map_extract k h))
     | Some n \<Rightarrow> (snd (map_extract (mac (addresses s0 n)) m), snd (map_extract (ip (addresses s0 n)) i),
         snd (map_extract k h)))"
  by (auto simp: section_of_def ms_insert_def remove_by_mac_address_def remove_by_ip_address_def
      remove_by_hostname_def on_remove_def addresses_simps Let_def split_beta split: option.splits)

text \<open>
  Every call keeps what the operations on the table keep. With the guard of the code only the
  removals get to the table.
\<close>

lemma service_safe:
  fixes s0 :: "'x ManagementService" and c :: "'x service_call"
  assumes "shared_guard ctor" and "broken = (ctor = UnlockShared)"
    and "\<And>c tb. J tb \<Longrightarrow> broken \<longrightarrow> removes c \<Longrightarrow> J (section_of s0 c tb)"
  shows "table_safe broken (addresses s0) J None (service_prog ctor c)"
proof -
  have quiet: "table_safe broken (addresses s0) J None (answers g (lookup_prog ctor f))"
    "table_safe broken (addresses s0) J None (answers AStatus (status_prog ctor n))" for g f n
    using assms(1,2) by (auto simp: shared_guard_def service_progs table_safe_simps)
  note closed = assms(3) [of "(m, i, h)" c for m i h]
  note progs = service_progs table_safe_simps table_part_def addresses_simps service_simps Let_def split_beta
  let ?A = "addresses s0"
  show ?thesis
  proof (cases c)
    case (CInsert n)
    have "J (m, i, h) \<Longrightarrow> \<not> broken \<Longrightarrow> fst (map_insert (hostname (?A n)) n h) \<Longrightarrow>
        m' = snd (map_insert (mac (?A n)) n m) \<Longrightarrow> i' = snd (map_insert (ip (?A n)) n i) \<Longrightarrow>
        h' = snd (map_insert (hostname (?A n)) n h) \<Longrightarrow> J (m', i', h')"
      and "J (m, i, h) \<Longrightarrow> \<not> broken \<Longrightarrow> \<not> fst (map_insert (hostname (?A n)) n h) \<Longrightarrow>
        h' = snd (map_insert (hostname (?A n)) n h) \<Longrightarrow> J (m, i, h')" for m i h m' i' h'
      using closed [of m i h] CInsert by (simp_all add: section_simps)
    note keep = this
    show ?thesis
      using assms(1,2) CInsert by (auto simp: shared_guard_def progs) (erule keep; (assumption | (simp; fail)))+
  next
    case (CRemoveByMac a)
    have "J (m, i, h) \<Longrightarrow> fst (map_extract a m) = None \<Longrightarrow> m' = snd (map_extract a m) \<Longrightarrow> J (m', i, h)"
      and "J (m, i, h) \<Longrightarrow> m' = snd (map_extract a m) \<Longrightarrow>
        i' = snd (map_extract (ip (?A n)) i) \<Longrightarrow> h' = snd (map_extract (hostname (?A n)) h) \<Longrightarrow> fst (map_extract a m) = Some n \<Longrightarrow> J (m', i', h')"
      for m i h m' i' h' n
      using closed [of m i h] CRemoveByMac by (simp_all add: section_simps)
    note keep = this
    show ?thesis using CRemoveByMac by (auto simp: progs split: option.splits) (erule keep; (assumption | (simp; fail)))+
  next
    case (CRemoveByIp a)
    have "J (m, i, h) \<Longrightarrow> fst (map_extract a i) = None \<Longrightarrow> i' = snd (map_extract a i) \<Longrightarrow> J (m, i', h)"
      and "J (m, i, h) \<Longrightarrow> i' = snd (map_extract a i) \<Longrightarrow>
        m' = snd (map_extract (mac (?A n)) m) \<Longrightarrow> h' = snd (map_extract (hostname (?A n)) h) \<Longrightarrow> fst (map_extract a i) = Some n \<Longrightarrow> J (m', i', h')"
      for m i h m' i' h' n
      using closed [of m i h] CRemoveByIp by (simp_all add: section_simps)
    note keep = this
    show ?thesis using CRemoveByIp by (auto simp: progs split: option.splits) (erule keep; (assumption | (simp; fail)))+
  next
    case (CRemoveByHostname k)
    have "J (m, i, h) \<Longrightarrow> fst (map_extract k h) = None \<Longrightarrow> h' = snd (map_extract k h) \<Longrightarrow> J (m, i, h')"
      and "J (m, i, h) \<Longrightarrow> h' = snd (map_extract k h) \<Longrightarrow>
        m' = snd (map_extract (mac (?A n)) m) \<Longrightarrow> i' = snd (map_extract (ip (?A n)) i) \<Longrightarrow> fst (map_extract k h) = Some n \<Longrightarrow> J (m', i', h')"
      for m i h m' i' h' n
      using closed [of m i h] CRemoveByHostname by (simp_all add: section_simps)
    note keep = this
    show ?thesis using CRemoveByHostname by (auto simp: progs split: option.splits) (erule keep; (assumption | (simp; fail)))+
  qed (use assms(1,2) quiet in \<open>auto simp: shared_guard_def service_progs table_safe_simps addresses_simps
      split: option.splits\<close>)
qed

text \<open>The operations are these sections, on every service with the same addresses and no station disconnected.\<close>

lemma quiet_op:
  assumes "\<not> removes c" and "\<And>n. c \<noteq> CInsert n"
  shows "table_part (snd (service_op c t)) = table_part t"
  using assms by (cases c) (auto simp: update_sleep_status_def wakeup_def split: option.splits)

lemma section_of_op:
  assumes "addresses t = addresses s0" and "\<And>n. status t n \<noteq> DISCONNECTED"
  shows "table_part (snd (service_op c t)) = section_of s0 c (table_part t)"
proof (cases "\<not> removes c \<and> (\<forall>n. c \<noteq> CInsert n)")
  case True
  then show ?thesis using quiet_op [of c t] quiet_op [of c "with_table s0 (table_part t)"] by (simp add: section_of_def)
next
  case False
  have tb: "table_part t = (mac_address_index t, ip_address_index t, hostname_index t)" by (simp add: table_part_def)
  show ?thesis
    using False assms unfolding tb
    by (cases c) (auto simp: section_simps ms_insert_def remove_by_mac_address_def remove_by_ip_address_def
        remove_by_hostname_def on_remove_def addresses_simps Let_def split_beta table_part_def service_simps
        split: option.splits)
qed

section \<open>What holds of the table\<close>

text \<open>Something that the operations keep holds whenever nobody has the table's lock.\<close>

lemma table_keeps:
  fixes s0 :: "'x ManagementService"
  assumes "shared_guard ctor" and "calls_reachable (service_prog ctor) s0 T"
    and "writer_of (lock_state T RwDataLock) = None" and "J (table_part s0)"
    and "\<And>c tb. J tb \<Longrightarrow> ctor = UnlockShared \<longrightarrow> removes c \<Longrightarrow> J (section_of s0 c tb)"
  shows "J (table_part (shared T))" and "addresses (shared T) = addresses s0"
proof -
  have "table_safe (ctor = UnlockShared) (addresses s0) J None (service_prog ctor c)"
    for c :: "'x service_call"
    by (rule service_safe [where J = J, OF assms(1) refl]) (rule assms(5))
  from table_inv_reachable [where J = J, OF assms(2) this assms(4)]
  have "table_inv (ctor = UnlockShared) (addresses s0) J T" .
  then show "J (table_part (shared T))" "addresses (shared T) = addresses s0"
    using table_invD(1,3) assms(3) by blast+
qed

text \<open>The invariant of the service, as far as the table and the addresses go.\<close>

definition table_sound :: "'x ManagementService \<Rightarrow> table \<Rightarrow> bool" where
  "table_sound s0 tb \<longleftrightarrow> (\<exists>N. ms_inv ((with_table s0 tb)\<lparr>next_station := N\<rparr>))"

lemma next_station_simps [simp]:
  "addresses (s\<lparr>next_station := N\<rparr>) = addresses s" "status (s\<lparr>next_station := N\<rparr>) = status s"
  "table_part (s\<lparr>next_station := N\<rparr>) = table_part s" "participants (s\<lparr>next_station := N\<rparr>) = participants s"
  "indexes_ordered (s\<lparr>next_station := N\<rparr>) = indexes_ordered s" "indexes_keyed (s\<lparr>next_station := N\<rparr>) = indexes_keyed s"
  by (simp_all add: addresses_def status_def table_part_def participants_def indexes_ordered_def indexes_keyed_def fun_eq_iff)

lemma table_sound_of:
  assumes "ms_inv u" and "addresses u = addresses s0"
  shows "table_sound s0 (table_part u)"
proof -
  have "ms_inv ((with_table s0 (table_part u))\<lparr>next_station := next_station u\<rparr>)"
    using assms by (auto simp: table_part_def inv_defs)
  then show ?thesis unfolding table_sound_def by blast
qed

lemma table_sound_section:
  assumes "table_sound s0 tb"
  shows "table_sound s0 (section_of s0 c tb)"
proof -
  obtain N where N: "ms_inv ((with_table s0 tb)\<lparr>next_station := N\<rparr>)" using assms by (auto simp: table_sound_def)
  define M where "M = (case c of CInsert n \<Rightarrow> max N (Suc n) | _ \<Rightarrow> N)"
  let ?t = "(with_table s0 tb)\<lparr>next_station := M\<rparr>"
  have "N \<le> M" by (auto simp: M_def split: service_call.split)
  then have t: "ms_inv ?t" using N by (fastforce simp: ms_inv_def)
  have "ms_inv (snd (service_op c ?t)) \<or> table_part (snd (service_op c ?t)) = table_part ?t"
  proof (cases c)
    case (CInsert n)
    then show ?thesis using ms_inv_insert [OF t, of n] by (simp add: M_def)
  next
    case (CUpdate a st)
    then show ?thesis by (simp add: update_sleep_status_def split: option.split)
  next
    case (CWakeup h)
    then show ?thesis by (simp add: wakeup_def split: option.split)
  qed (use ms_inv_removals [OF t] in simp_all)
  moreover have "addresses (snd (service_op c ?t)) = addresses s0"
    by (cases c) (auto simp: ms_insert_def remove_by_mac_address_def remove_by_ip_address_def
        remove_by_hostname_def on_remove_def update_sleep_status_def wakeup_def addresses_simps Let_def split_beta
        split: option.splits)
  moreover have "table_part (snd (service_op c ?t)) = section_of s0 c tb"
    using section_of_op [of ?t s0 c] by simp
  ultimately show ?thesis
    using table_sound_of [of "snd (service_op c ?t)" s0] table_sound_of [OF t, of s0] assms by (auto simp: assms)
qed

section \<open>Properties\<close>

lemma first_run:
  assumes "run_thread k t (start c) s (\<lambda>_. nobody) = Some (p, s, \<lambda>_. nobody)"
  shows "calls_reachable start s ((threads_start s)\<lparr>doing := (\<lambda>_. None)(t := Some p)\<rparr>)"
  using call_alone_reaches [where start = start, OF assms] by (simp add: threads_start_def)

lemma call_done:
  "calls_reachable (service_prog LockShared) s ((threads_start s)
     \<lparr>shared := snd (service_op c s), lock_state := (\<lambda>_. nobody), doing := (\<lambda>_. None)(t := Some (Return (fst (service_op c s))))\<rparr>)"
  by (rule call_alone_reaches [where start = "service_prog LockShared", OF run_alone])

text \<open>
  C17: The indexes of the shared table stay sound under any calls from any threads: whenever no thread
  holds the table's lock, they are ordered, each key is the address of the station it leads
  to, and what the MAC and IP indexes hold is in the host name index too.
\<close>

theorem table_indexes_sound:
  fixes s0 :: "'x ManagementService"
  assumes "shared_guard ctor" and "calls_reachable (service_prog ctor) s0 T"
    and "writer_of (lock_state T RwDataLock) = None" and "ms_inv s0"
  shows "indexes_ordered (shared T) \<and> indexes_keyed (shared T)
    \<and> ran (map_at (mac_address_index (shared T))) \<subseteq> participants (shared T)
    \<and> ran (map_at (ip_address_index (shared T))) \<subseteq> participants (shared T)"
proof -
  have s0: "table_sound s0 (table_part s0)" by (rule table_sound_of [OF assms(4) refl])
  have "table_sound s0 (table_part (shared T))" and A: "addresses (shared T) = addresses s0"
    using table_keeps [where J = "table_sound s0", OF assms(1-3) s0] table_sound_section by blast+
  then obtain N where "ms_inv ((with_table s0 (table_part (shared T)))\<lparr>next_station := N\<rparr>)"
    by (auto simp: table_sound_def)
  then show ?thesis using A by (auto simp: inv_defs table_part_def)
qed

theorem table_indexes_sound_witness:
  "indexes_keyed (snd (remove_by_mac_address (mac host_a) (service_a AWAKEN)))"
  using table_indexes_sound [OF shared_guard_cases(1) call_done [where s = "service_a AWAKEN" and c = "CRemoveByMac (mac host_a)" and t = 0]]
    ms_inv_service_a [of AWAKEN]
  by (simp add: nobody_def)

text \<open>
  C18: With the guard of the code no participant ever gets into the table: whatever is called, in
  every interleaving up to the first undefined behaviour, a host name that the table did not have
  at the start it never has; \<open>insert\<close> reads the status first, and that is undefined.
\<close>

theorem nobody_is_inserted:
  fixes s0 :: "'x ManagementService"
  assumes "calls_reachable (service_prog UnlockShared) s0 T"
    and "writer_of (lock_state T RwDataLock) = None" and "ms_inv s0" and "get_by_hostname k s0 = None"
  shows "get_by_hostname k (shared T) = None"
proof -
  let ?J = "\<lambda>tb. map_ok (snd (snd tb)) \<and> map_at (snd (snd tb)) k = None"
  have start: "?J (table_part s0)" using assms(3,4) by (simp add: table_part_def inv_defs get_by_hostname_def)
  have "?J (section_of s0 c tb)" if "?J tb" "removes c" for c tb
    using that by (cases tb; cases c) (auto simp: section_simps map_ok_extract map_at_extract split: option.split)
  then have "?J (table_part (shared T))"
    using table_keeps(1) [where J = ?J, OF shared_guard_cases(2) assms(1,2) start] by blast
  then show ?thesis by (simp add: table_part_def get_by_hostname_def)
qed

lemma removal_done:
  "calls_reachable (service_prog UnlockShared) s ((threads_start s)
     \<lparr>shared := snd (remove_by_mac_address a s), lock_state := (\<lambda>_. nobody),
       doing := (\<lambda>_. None)(t := Some (Return (ABool (fst (remove_by_mac_address a s)))))\<rparr>)"
  using call_alone_reaches [where start = "service_prog UnlockShared" and c = "CRemoveByMac a" and t = t and k = 10 and s = s]
    run_alone [of t "CRemoveByMac a" s] by simp

theorem nobody_is_inserted_witness:
  "get_by_hostname ''b'' (snd (remove_by_mac_address (mac host_a) (service_a AWAKEN))) = None"
proof -
  have "get_by_hostname ''b'' (service_a AWAKEN) = None" by (simp add: service_a_simps)
  then show ?thesis
    using nobody_is_inserted [OF removal_done [where s = "service_a AWAKEN" and a = "mac host_a" and t = 0] _ ms_inv_service_a, of "''b''"]
    by (simp add: nobody_def)
qed

section \<open>What the locks do not prevent\<close>

text \<open>The rest of \<open>update_sleep_status\<close> after its lookup found the station \<open>n\<close>.\<close>

definition update_rest :: "station \<Rightarrow> Status \<Rightarrow> ('x ManagementService, answer) prog" where
  "update_rest n st =
     answers ABool (prog_bind (lock_scope (RwStatusLock n)
       (Touch [(StatusData n, Reads)] (\<lambda>s. (s,
         if status s n \<noteq> st
         then Touch [(StatusData n, Writes)] (\<lambda>s. (set_status n st s, Return True))
         else Return False)))) (\<lambda>updated.
     if updated then dispatch_prog (new_event CHANGED_STATUS n) (Return True) else Return False))"

lemma update_looks_up:
  "get_by_mac_address a s = Some n \<Longrightarrow>
    run_thread 3 t (service_prog LockShared (CUpdate a st)) s (\<lambda>_. nobody) = Some (update_rest n st, s, \<lambda>_. nobody)"
  by (simp add: service_progs update_rest_def eval_nat_numeral owns_def nobody_def fun_upd_idem)

lemma update_finishes:
  "status s n \<noteq> st \<Longrightarrow> run_thread 6 t (update_rest n st) s (\<lambda>_. nobody) =
    Some (Return (ABool True), dispatch_event (new_event CHANGED_STATUS n) (set_status n st s), \<lambda>_. nobody)"
  by (simp add: service_progs update_rest_def eval_nat_numeral owns_def nobody_def fun_upd_idem)

lemma thread_return_reaches:
  assumes "calls_reachable start s0 T" and "doing T t = Some (Return r)" and "\<not> undefined_call T"
  shows "calls_reachable start s0 (T\<lparr>doing := (doing T)(t := None), returned := returned T @ [(t, r)]\<rparr>)"
  by (rule calls_steps [OF assms(1) thread_works [OF thread_returns [OF assms(3,2)]]])

text \<open>
  C20: The status of a participant can come back after its removal, even with a shared guard that
  locks: \<open>update_sleep_status\<close> finds the station under one lock and writes its status under
  another. From any sound service with a participant there is a run of an update and a removal,
  both successful, after which the station is in no index and yet not disconnected.
\<close>

theorem late_update_revives:
  assumes "ms_inv s0" and "get_by_mac_address a s0 = Some n" and "st \<noteq> DISCONNECTED"
  shows "\<exists>T. calls_reachable (service_prog LockShared) s0 T \<and> \<not> undefined_call T \<and> (\<forall>t. doing T t = None)
    \<and> returned T = [(1, ABool True), (0, ABool True)]
    \<and> n \<notin> participants (shared T) \<and> get_by_mac_address a (shared T) = None \<and> status (shared T) n = st"
proof -
  let ?R = "calls_reachable (service_prog LockShared) s0"
  let ?T1 = "(threads_start s0)\<lparr>doing := (\<lambda>_. None)(0 := Some (update_rest n st))\<rparr>"
  have T1: "?R ?T1"
    by (rule first_run [where start = "service_prog LockShared", OF update_looks_up [OF assms(2)]])
  define s1 where "s1 = on_remove n (forget n s0)"
  have op: "service_op (CRemoveByMac a) s0 = (ABool True, s1)"
    using remove_by_mac_known [OF assms(1,2)] by (simp add: s1_def)
  let ?T2 = "?T1\<lparr>shared := s1, lock_state := (\<lambda>_. nobody), doing := (doing ?T1)(1 := Some (Return (ABool True)))\<rparr>"
  have T2: "?R ?T2"
    by (rule call_reaches [OF _ T1, of 10 _ "CRemoveByMac a"])
      (use run_alone [of 1 "CRemoveByMac a" s0] op in \<open>simp_all add: threads_start_def del: service_prog.simps service_op.simps\<close>)
  let ?T3 = "?T2\<lparr>doing := (doing ?T2)(1 := None), returned := [(1, ABool True)]\<rparr>"
  from thread_return_reaches [OF T2, of 1 "ABool True"] have T3: "?R ?T3"
    by (simp add: threads_start_def)
  have gone: "n \<notin> participants s1" "status s1 n = DISCONNECTED" "get_by_mac_address a s1 = None"
    using participants_forget [OF assms(1) lookups_are_participants(1) [OF assms(1,2)]]
      by_mac.rem_look [OF assms(1), of a a] remove_by_mac_known [OF assms(1,2)]
    by (simp_all add: s1_def on_remove_def service_simps)
  define s2 where "s2 = dispatch_event (new_event CHANGED_STATUS n) (set_status n st s1)"
  have run: "run_thread 6 0 (update_rest n st) s1 (\<lambda>_. nobody) = Some (Return (ABool True), s2, \<lambda>_. nobody)"
    using update_finishes [of s1 n st 0] gone(2) assms(3) by (simp add: s2_def)
  let ?T4 = "?T3\<lparr>shared := s2, lock_state := (\<lambda>_. nobody), doing := (doing ?T3)(0 := Some (Return (ABool True)))\<rparr>"
  have T4: "?R ?T4"
    by (rule run_thread_reaches [OF run T3]) (simp_all add: threads_start_def)
  let ?T5 = "?T4\<lparr>doing := (doing ?T4)(0 := None), returned := [(1, ABool True), (0, ABool True)]\<rparr>"
  from thread_return_reaches [OF T4, of 0 "ABool True"] have T5: "?R ?T5"
    by (simp add: threads_start_def)
  have "n \<notin> participants s2" "get_by_mac_address a s2 = None" "status s2 n = st"
    using gone by (simp_all add: s2_def service_simps get_by_mac_address_def)
  then show ?thesis
    using T5 by (intro exI [of _ ?T5]) (simp add: threads_start_def)
qed

theorem late_update_revives_witness:
  "\<exists>T. calls_reachable (service_prog LockShared) (service_a ASLEEP) T
    \<and> 0 \<notin> participants (shared T) \<and> status (shared T) 0 = AWAKEN"
proof -
  have "get_by_mac_address (mac host_a) (service_a ASLEEP) = Some 0" by (simp add: service_a_simps host_a_def)
  from late_update_revives [OF ms_inv_service_a this, of AWAKEN] show ?thesis by auto
qed

text \<open>
  C21: The list of event handlers is not guarded: \<open>register_event_handler\<close> takes \<open>event_lock\<close>, the loops
  that call the handlers do not. From any service with a participant there is a run, with either
  constructor of the shared guard and without undefined behaviour before, in which one thread
  is about to append to the list while another one is about to walk through it.
\<close>

theorem handlers_race:
  assumes "ms_inv s0" and "get_by_mac_address a s0 = Some n" and "shared_guard ctor"
  shows "\<exists>T. calls_reachable (service_prog ctor) s0 T \<and> \<not> undefined_call T \<and> racing T HandlerList"
proof -
  let ?R = "calls_reachable (service_prog ctor) s0"
  have found: "fst (map_extract a (mac_address_index s0)) = Some n"
    using assms(2) by (simp add: get_by_mac_address_def fst_map_extract)
  obtain k s1 h where run: "run_thread 7 0 (service_prog ctor (CRemoveByMac a)) s0 (\<lambda>_. nobody) =
      Some (Touch [(HandlerList, Reads), (OutsideData, Writes)] k, s1, h)" and h: "h EventLock = nobody"
    using found by (simp add: service_progs eval_nat_numeral owns_def nobody_def Let_def split_beta)
  let ?T1 = "(threads_start s0)\<lparr>shared := s1, lock_state := h,
      doing := (\<lambda>_. None)(0 := Some (Touch [(HandlerList, Reads), (OutsideData, Writes)] k))\<rparr>"
  have T1: "?R ?T1"
    using call_alone_reaches [where start = "service_prog ctor", OF run] by simp
  let ?c = "CRegister (\<lambda>x e. x)"
  obtain f h' where reg: "run_thread 1 1 (service_prog ctor ?c) s1 h = Some (Touch [(HandlerList, Writes)] f, s1, h')"
    using h by (simp add: service_progs owns_def nobody_def)
  let ?T2 = "?T1\<lparr>shared := s1, lock_state := h', doing := (doing ?T1)(1 := Some (Touch [(HandlerList, Writes)] f))\<rparr>"
  have "?R ?T2"
    by (rule call_reaches [OF _ T1, of 1 _ ?c]) (use reg in \<open>simp_all add: threads_start_def del: service_prog.simps\<close>)
  moreover have "racing ?T2 HandlerList"
    unfolding racing_def
    by (intro exI [of _ 1] exI [of _ 0] exI [of _ "[(HandlerList, Writes)]"]
        exI [of _ "[(HandlerList, Reads), (OutsideData, Writes)]"] exI [of _ f] exI [of _ k]) simp
  ultimately show ?thesis by (intro exI [of _ ?T2]) (simp add: threads_start_def)
qed

theorem handlers_race_witness:
  "\<exists>T. calls_reachable (service_prog UnlockShared) (service_a AWAKEN) T \<and> racing T HandlerList"
proof -
  have "get_by_mac_address (mac host_a) (service_a AWAKEN) = Some 0" by (simp add: service_a_simps host_a_def)
  from handlers_race [OF ms_inv_service_a this shared_guard_cases(2)] show ?thesis by blast
qed

end
