(* ===== verification/Table_Linearizability.thy ===== *)
theory Table_Linearizability
  imports Service_Table
begin

text \<open>
  The table of participants under concurrent calls is an atomic object. A history records the calls
  that threads begin, the results they get and the statuses in between; every history of the
  programs of the theory \<open>Service_Threads\<close> is one of a table on which each call acts in a single
  moment between its beginning and its end, with the result that the call returns.
\<close>

section \<open>The atomic table\<close>

type_synonym indexes = "(MacAddress \<rightharpoonup> station) \<times> (IpAddress \<rightharpoonup> station) \<times> (string \<rightharpoonup> station)"

definition if_new :: "'k \<Rightarrow> station \<Rightarrow> ('k \<rightharpoonup> station) \<Rightarrow> 'k \<rightharpoonup> station" where
  "if_new k n f = (if f k = None then f(k \<mapsto> n) else f)"

text \<open>
  What a call may answer and what it makes of the indexes, at the moment in which it acts. The calls
  that only look something up leave them. For \<open>update_sleep_status\<close> and \<open>wakeup\<close> this is their lookup.
\<close>

fun acts :: "(station \<Rightarrow> NodeAddresses) \<Rightarrow> 'x service_call \<Rightarrow> indexes \<Rightarrow> answer \<Rightarrow> indexes \<Rightarrow> bool" where
  "acts A (CInsert n) (m, i, h) r t =
     (if h (hostname (A n)) = None
      then r = ABool True \<and> t = (if_new (mac (A n)) n m, if_new (ip (A n)) n i, h(hostname (A n) \<mapsto> n))
      else r = ABool False \<and> t = (m, i, h))"
| "acts A (CRemoveByMac a) (m, i, h) r t =
     (case m a of
        None \<Rightarrow> r = ABool False \<and> t = (m, i, h)
      | Some n \<Rightarrow> r = ABool True \<and> t = (m(a := None), i(ip (A n) := None), h(hostname (A n) := None)))"
| "acts A (CRemoveByIp a) (m, i, h) r t =
     (case i a of
        None \<Rightarrow> r = ABool False \<and> t = (m, i, h)
      | Some n \<Rightarrow> r = ABool True \<and> t = (m(mac (A n) := None), i(a := None), h(hostname (A n) := None)))"
| "acts A (CRemoveByHostname a) (m, i, h) r t =
     (case h a of
        None \<Rightarrow> r = ABool False \<and> t = (m, i, h)
      | Some n \<Rightarrow> r = ABool True \<and> t = (m(mac (A n) := None), i(ip (A n) := None), h(a := None)))"
| "acts A (CGetByMac a) (m, i, h) r t = (r = AStation (m a) \<and> t = (m, i, h))"
| "acts A (CGetByIp a) (m, i, h) r t = (r = AStation (i a) \<and> t = (m, i, h))"
| "acts A (CGetByHostname a) (m, i, h) r t = (r = AStation (h a) \<and> t = (m, i, h))"
| "acts A (CUpdate a st) (m, i, h) r t = (r = AStation (m a) \<and> t = (m, i, h))"
| "acts A (CWakeup a) (m, i, h) r t = (r = AStation (h a) \<and> t = (m, i, h))"
| "acts A CList (m, i, h) r t =
     (\<exists>ns. r = AStations (replicate (length ns) None @ map Some ns) \<and> set ns = ran m \<and> t = (m, i, h))"
| "acts A _ _ r t = False"

text \<open>
  Where a call stands: begun; an insertion that has found its station not disconnected; acted, with
  this answer.
\<close>

datatype 'x phase = Idle | Begun "'x service_call" | Admitted station | Acted "'x service_call" answer

text \<open>
  What a call that has acted returns: the answer; for an update or a wake-up false if nothing was
  found, and otherwise a truth value that depends on the status.
\<close>

fun responds :: "'x phase \<Rightarrow> answer \<Rightarrow> bool" where
  "responds (Acted (CUpdate a st) (AStation n)) r = (\<exists>b. r = ABool b \<and> (b \<longrightarrow> n \<noteq> None))"
| "responds (Acted (CWakeup a) (AStation n)) r = (\<exists>b. r = ABool b \<and> (b \<longrightarrow> n \<noteq> None))"
| "responds (Acted c q) r = (r = q)"
| "responds (Begun (CRegister h)) r = (r = ANothing)"
| "responds _ r = False"

fun may_act :: "'x phase \<Rightarrow> 'x service_call \<Rightarrow> bool" where
  "may_act (Begun c') c = (c = c' \<and> (\<forall>n. c \<noteq> CInsert n))"
| "may_act (Admitted n) c = (c = CInsert n)"
| "may_act _ c = False"

datatype 'x event = Invoke nat "'x service_call" | Respond nat answer | Statuses "station \<Rightarrow> Status"

text \<open>
  A run of the atomic table, with its history. The statuses are not its own: the history says what
  they become. An insertion looks at the status of its station once, before it acts.
\<close>

inductive atomic_run :: "(station \<Rightarrow> NodeAddresses) \<Rightarrow> (station \<Rightarrow> Status) \<Rightarrow> indexes \<Rightarrow>
    'x event list \<Rightarrow> (station \<Rightarrow> Status) \<Rightarrow> indexes \<Rightarrow> (nat \<Rightarrow> 'x phase) \<Rightarrow> bool" for A st0 tb0 where
  atomic_start: "atomic_run A st0 tb0 [] st0 tb0 (\<lambda>_. Idle)"
| atomic_invoke: "atomic_run A st0 tb0 h st tb ph \<Longrightarrow> ph t = Idle \<Longrightarrow>
    atomic_run A st0 tb0 (h @ [Invoke t c]) st tb (ph(t := Begun c))"
| atomic_statuses: "atomic_run A st0 tb0 h st tb ph \<Longrightarrow> atomic_run A st0 tb0 (h @ [Statuses st']) st' tb ph"
| atomic_admits: "atomic_run A st0 tb0 h st tb ph \<Longrightarrow> ph t = Begun (CInsert n) \<Longrightarrow> st n \<noteq> DISCONNECTED \<Longrightarrow>
    atomic_run A st0 tb0 h st tb (ph(t := Admitted n))"
| atomic_refuses: "atomic_run A st0 tb0 h st tb ph \<Longrightarrow> ph t = Begun (CInsert n) \<Longrightarrow> st n = DISCONNECTED \<Longrightarrow>
    atomic_run A st0 tb0 h st tb (ph(t := Acted (CInsert n) (ABool False)))"
| atomic_status: "atomic_run A st0 tb0 h st tb ph \<Longrightarrow> ph t = Begun (CStatus n) \<Longrightarrow>
    atomic_run A st0 tb0 h st tb (ph(t := Acted (CStatus n) (AStatus (st n))))"
| atomic_acts: "atomic_run A st0 tb0 h st tb ph \<Longrightarrow> may_act (ph t) c \<Longrightarrow> acts A c tb r tb' \<Longrightarrow>
    atomic_run A st0 tb0 h st tb' (ph(t := Acted c r))"
| atomic_responds: "atomic_run A st0 tb0 h st tb ph \<Longrightarrow> responds (ph t) r \<Longrightarrow>
    atomic_run A st0 tb0 (h @ [Respond t r]) st tb (ph(t := Idle))"

section \<open>The histories of the programs\<close>

text \<open>What a step of a thread adds: its result if it returns, the statuses if it changes one.\<close>

definition step_events :: "('x ManagementService, answer) threads \<Rightarrow> ('x ManagementService, answer) threads \<Rightarrow>
    'x event list" where
  "step_events T T' = map (\<lambda>(t, r). Respond t r) (drop (length (returned T)) (returned T'))
     @ (if status (shared T') = status (shared T) then [] else [Statuses (status (shared T'))])"

inductive call_history :: "('x service_call \<Rightarrow> ('x ManagementService, answer) prog) \<Rightarrow> 'x ManagementService \<Rightarrow>
    'x event list \<Rightarrow> ('x ManagementService, answer) threads \<Rightarrow> bool" for start s0 where
  history_start: "call_history start s0 [] (threads_start s0)"
| history_calls: "call_history start s0 h T \<Longrightarrow> \<not> undefined_call T \<Longrightarrow> doing T t = None \<Longrightarrow>
    call_history start s0 (h @ [Invoke t c]) (T\<lparr>doing := (doing T)(t := Some (start c))\<rparr>)"
| history_works: "call_history start s0 h T \<Longrightarrow> work_step T T' \<Longrightarrow>
    call_history start s0 (h @ step_events T T') T'"

text \<open>Every state that threads reach has a history.\<close>

lemma reachable_history: "calls_reachable start s0 T \<Longrightarrow> \<exists>h. call_history start s0 h T"
proof (induction rule: calls_reachable.induct)
  case (calls_steps T T')
  from calls_steps(2,3) show ?case by (auto elim!: calls_step.cases intro: history_calls history_works)
qed (blast intro: history_start)

lemma history_reachable: "call_history start s0 h T \<Longrightarrow> calls_reachable start s0 T"
  by (induction rule: call_history.induct) (blast intro: calls_start calls_steps thread_calls thread_works)+

section \<open>Programs that implement their call\<close>

definition indexes_of :: "table \<Rightarrow> indexes" where
  "indexes_of tb = (map_at (fst tb), map_at (fst (snd tb)), map_at (snd (snd tb)))"

definition ordered :: "table \<Rightarrow> bool" where
  "ordered tb \<longleftrightarrow> map_ok (fst tb) \<and> map_ok (fst (snd tb)) \<and> map_ok (snd (snd tb))"

text \<open>
  What a thread knows of the table: nothing; that nobody changes it while it reads; or that it holds
  the lock, took it when the indexes were \<open>i\<close>, and has made the table \<open>tb\<close>.
\<close>

datatype view = Outside | Reading | Holds indexes table

fun sees :: "view \<Rightarrow> 'x ManagementService \<Rightarrow> bool" where
  "sees (Holds i tb) s = (table_part s = tb)"
| "sees Reading s = ordered (table_part s)"
| "sees Outside s = True"

fun after_touch :: "view \<Rightarrow> 'x ManagementService \<Rightarrow> view" where
  "after_touch (Holds i tb) s = Holds i (table_part s)"
| "after_touch x s = x"

text \<open>The moments that are not the release of the table's lock: a step that reads a status or the table.\<close>

fun moment :: "view \<Rightarrow> 'x ManagementService \<Rightarrow> 'x phase \<Rightarrow> 'x phase" where
  "moment Outside s (Begun (CInsert n)) =
     (if status s n = DISCONNECTED then Acted (CInsert n) (ABool False) else Admitted n)"
| "moment Outside s (Begun (CStatus n)) = Acted (CStatus n) (AStatus (status s n))"
| "moment Reading s (Begun (CGetByMac a)) = Acted (CGetByMac a) (AStation (get_by_mac_address a s))"
| "moment Reading s (Begun (CGetByIp a)) = Acted (CGetByIp a) (AStation (get_by_ip_address a s))"
| "moment Reading s (Begun (CGetByHostname a)) = Acted (CGetByHostname a) (AStation (get_by_hostname a s))"
| "moment Reading s (Begun (CUpdate a st)) = Acted (CUpdate a st) (AStation (get_by_mac_address a s))"
| "moment Reading s (Begun (CWakeup a)) = Acted (CWakeup a) (AStation (get_by_hostname a s))"
| "moment Reading s (Begun CList) = Acted CList (AStations (participant_list s))"
| "moment x s p = p"

text \<open>A program of a call at a phase; \<open>broken\<close> is that the shared guard is that of the code.\<close>

inductive implements :: "bool \<Rightarrow> (station \<Rightarrow> NodeAddresses) \<Rightarrow> view \<Rightarrow> 'x phase \<Rightarrow>
    ('x ManagementService, answer) prog \<Rightarrow> bool" for broken A where
  impl_return: "responds ph r \<Longrightarrow> implements broken A Outside ph (Return r)"
| impl_lock: "(\<And>tb. ordered tb \<Longrightarrow> implements broken A (Holds (indexes_of tb) tb) ph p) \<Longrightarrow>
    implements broken A Outside ph (Locks (Lock RwDataLock) p)"
| impl_unlock: "ordered tb \<Longrightarrow> may_act ph c \<Longrightarrow> acts A c i r (indexes_of tb) \<Longrightarrow>
    implements broken A Outside (Acted c r) p \<Longrightarrow> implements broken A (Holds i tb) ph (Locks (Unlock RwDataLock) p)"
| impl_other_lock: "n \<noteq> RwDataLock \<Longrightarrow> implements broken A x ph p \<Longrightarrow> implements broken A x ph (Locks (Lock n) p)"
| impl_other_unlock: "n \<noteq> RwDataLock \<Longrightarrow> implements broken A x ph p \<Longrightarrow> implements broken A x ph (Locks (Unlock n) p)"
| impl_lock_shared: "\<not> broken \<Longrightarrow> implements broken A Reading ph p \<Longrightarrow>
    implements broken A Outside ph (Locks (LockShared RwDataLock) p)"
| impl_unlock_shared: "\<not> broken \<longrightarrow> x = Reading \<and> implements broken A Outside ph p \<Longrightarrow>
    implements broken A x ph (Locks (UnlockShared RwDataLock) p)"
| impl_other_lock_shared: "\<not> broken \<Longrightarrow> n \<noteq> RwDataLock \<Longrightarrow> implements broken A x ph p \<Longrightarrow>
    implements broken A x ph (Locks (LockShared n) p)"
| impl_other_unlock_shared: "n \<noteq> RwDataLock \<Longrightarrow> \<not> broken \<longrightarrow> implements broken A x ph p \<Longrightarrow>
    implements broken A x ph (Locks (UnlockShared n) p)"
| impl_touch: "(\<And>s. sees x s \<Longrightarrow> addresses s = A \<Longrightarrow> addresses (fst (f s)) = A
      \<and> ((\<exists>i tb. x = Holds i tb) \<or> table_part (fst (f s)) = table_part s)
      \<and> implements broken A (after_touch x (fst (f s))) (moment x s ph) (snd (f s))) \<Longrightarrow>
    implements broken A x ph (Touch as f)"

inductive_simps implements_simps:
  "implements broken A x ph (Return r)"
  "implements broken A x ph (Locks (Lock RwDataLock) p)"
  "implements broken A x ph (Locks (Lock (RwStatusLock n)) p)"
  "implements broken A x ph (Locks (Lock EventLock) p)"
  "implements broken A x ph (Locks (Unlock RwDataLock) p)"
  "implements broken A x ph (Locks (Unlock (RwStatusLock n)) p)"
  "implements broken A x ph (Locks (Unlock EventLock) p)"
  "implements broken A x ph (Locks (LockShared RwDataLock) p)"
  "implements broken A x ph (Locks (LockShared (RwStatusLock n)) p)"
  "implements broken A x ph (Locks (UnlockShared RwDataLock) p)"
  "implements broken A x ph (Locks (UnlockShared (RwStatusLock n)) p)"
  "implements broken A x ph (Locks (LockShared EventLock) p)"
  "implements broken A x ph (Locks (UnlockShared EventLock) p)"
  "implements broken A x ph (Touch as f)"

text \<open>Each program implements its call.\<close>

lemma service_implements:
  assumes "shared_guard ctor" and "broken = (ctor = UnlockShared)"
  shows "implements broken A Outside (Begun c) (service_prog ctor c)"
proof -
  note simps = service_progs implements_simps table_part_def addresses_simps service_simps Let_def split_beta
    indexes_of_def ordered_def if_new_def std_map_simps
  show ?thesis
  proof (cases c)
    case (CInsert n)
    then show ?thesis using assms by (auto simp: shared_guard_def simps)
  next
    case (CRemoveByMac a)
    then show ?thesis by (auto simp: simps split: option.splits)
  next
    case (CRemoveByIp a)
    then show ?thesis by (auto simp: simps split: option.splits)
  next
    case (CRemoveByHostname k)
    then show ?thesis by (auto simp: simps split: option.splits)
  next
    case CList
    have "\<exists>ns. participant_list s = replicate (length ns) None @ map Some ns \<and> set ns = ran (map_at (mac_address_index s))"
      if "map_ok (mac_address_index s)" for s :: "'x ManagementService"
      using map_at_values [OF that]
      by (intro exI [of _ "map snd (mac_address_index s)"]) (simp add: participant_list_def comp_def)
    then show ?thesis using assms CList by (auto simp: shared_guard_def simps)
  next
    case (CRegister h)
    then show ?thesis by (auto simp: simps register_event_handler_def addresses_def)
  qed (use assms in \<open>auto simp: shared_guard_def simps split: option.splits\<close>)
qed

lemma moment_Idle [simp]: "moment x s p = Idle \<longleftrightarrow> p = Idle"
  by (cases "(x, s, p)" rule: moment.cases) auto

section \<open>The simulation\<close>

definition view_of :: "('x ManagementService, answer) threads \<Rightarrow> indexes \<Rightarrow> nat \<Rightarrow> view" where
  "view_of T tb t =
     (if writer_of (lock_state T RwDataLock) = Some t then Holds tb (table_part (shared T))
      else if t \<in> readers_of (lock_state T RwDataLock) then Reading else Outside)"

text \<open>The atomic table and what its callers have done, as seen in a state of the threads.\<close>

definition linked :: "bool \<Rightarrow> (station \<Rightarrow> NodeAddresses) \<Rightarrow> ('x ManagementService, answer) threads \<Rightarrow>
    indexes \<Rightarrow> (nat \<Rightarrow> 'x phase) \<Rightarrow> bool" where
  "linked broken A T tb ph \<longleftrightarrow> addresses (shared T) = A
     \<and> (\<forall>t p. doing T t = Some p \<longrightarrow> ph t \<noteq> Idle \<and> implements broken A (view_of T tb t) (ph t) p)
     \<and> (\<forall>t. doing T t = None \<longrightarrow> view_of T tb t = Outside \<and> ph t = Idle)
     \<and> (writer_of (lock_state T RwDataLock) = None \<longrightarrow>
          tb = indexes_of (table_part (shared T)) \<and> ordered (table_part (shared T)))
     \<and> (writer_of (lock_state T RwDataLock) \<noteq> None \<longrightarrow> readers_of (lock_state T RwDataLock) = {})
     \<and> (broken \<longrightarrow> (\<forall>n. readers_of (lock_state T n) = {}))"

lemma linkedD:
  assumes "linked broken A T tb ph"
  shows "addresses (shared T) = A" and "doing T t = Some p \<Longrightarrow> implements broken A (view_of T tb t) (ph t) p"
    and "doing T t = Some p \<Longrightarrow> ph t \<noteq> Idle"
    and "doing T t = None \<Longrightarrow> view_of T tb t = Outside" and "doing T t = None \<Longrightarrow> ph t = Idle"
    and "writer_of (lock_state T RwDataLock) = None \<Longrightarrow> tb = indexes_of (table_part (shared T))"
    and "writer_of (lock_state T RwDataLock) = None \<Longrightarrow> ordered (table_part (shared T))"
    and "writer_of (lock_state T RwDataLock) = Some u \<Longrightarrow> readers_of (lock_state T RwDataLock) = {}"
    and "broken \<Longrightarrow> readers_of (lock_state T n) = {}"
  using assms by (simp_all add: linked_def)

text \<open>What a step of a thread does to the atomic table: nothing, or the action of its call.\<close>

definition reflected :: "(station \<Rightarrow> NodeAddresses) \<Rightarrow> nat \<Rightarrow> indexes \<Rightarrow> (nat \<Rightarrow> 'x phase) \<Rightarrow>
    indexes \<Rightarrow> (nat \<Rightarrow> 'x phase) \<Rightarrow> bool" where
  "reflected A t tb ph tb' ph' \<longleftrightarrow> tb' = tb \<and> ph' = ph
     \<or> (\<exists>c r. may_act (ph t) c \<and> acts A c tb r tb' \<and> ph' = ph(t := Acted c r))"

text \<open>The locks other than the table's.\<close>

lemma linked_other_lock:
  assumes "doing T t = Some (Locks a p)" and "lock_by t a (lock_state T) = Holding h"
    and inv: "linked broken A T tb ph" and "wanted a \<noteq> RwDataLock"
  shows "linked broken A (T\<lparr>lock_state := h, doing := (doing T)(t := Some p)\<rparr>) tb ph" (is "linked _ _ ?T _ _")
proof -
  have h: "h RwDataLock = lock_state T RwDataLock" using assms(2,4) by (cases a) (auto split: if_splits)
  then have v: "view_of ?T tb = view_of T tb" by (simp add: view_of_def fun_eq_iff)
  have step: "implements broken A (view_of T tb t) (ph t) (Locks a p)" by (rule linkedD(2) [OF inv assms(1)])
  have "implements broken A (view_of T tb t) (ph t) p \<and> (broken \<longrightarrow> (\<forall>n. readers_of (h n) = {}))"
  proof (cases broken)
    case True
    then show ?thesis
      using step assms(2,4) linkedD(9) [OF inv True]
      by (cases a; cases "wanted a") (auto simp: implements_simps split: if_splits)
  next
    case False
    then show ?thesis
      using step assms(2,4) by (cases a; cases "wanted a") (auto simp: implements_simps split: if_splits)
  qed
  then show ?thesis using inv v h linkedD(3) [OF inv assms(1)] by (auto simp: linked_def)
qed

text \<open>The table's lock.\<close>

lemma view_of_simps:
  "writer_of (lock_state T RwDataLock) = Some t \<Longrightarrow> view_of T tb t = Holds tb (table_part (shared T))"
  "view_of T tb t = Outside \<longleftrightarrow> writer_of (lock_state T RwDataLock) \<noteq> Some t \<and> t \<notin> readers_of (lock_state T RwDataLock)"
  "view_of T tb t = Reading \<longleftrightarrow> writer_of (lock_state T RwDataLock) \<noteq> Some t \<and> t \<in> readers_of (lock_state T RwDataLock)"
  by (simp_all add: view_of_def)

lemma view_of_other:
  assumes "lock_by t a (lock_state T) = Holding h" and "t' \<noteq> t"
    and "writer_of (lock_state T RwDataLock) = Some t' \<Longrightarrow> tb' = tb"
  shows "view_of (T\<lparr>lock_state := h, doing := d\<rparr>) tb' t' = view_of T tb t'"
  using holds_lock_by(2) [OF assms(1,2)] assms(3)
  by (auto simp: view_of_def set_eq_iff holds_iff [symmetric])

lemma linked_table_lock:
  assumes "doing T t = Some (Locks a p)" and "lock_by t a (lock_state T) = Holding h"
    and inv: "linked broken A T tb ph" and "wanted a = RwDataLock"
  shows "\<exists>tb' ph'. linked broken A (T\<lparr>lock_state := h, doing := (doing T)(t := Some p)\<rparr>) tb' ph'
    \<and> reflected A t tb ph tb' ph'"
proof -
  let ?T = "T\<lparr>lock_state := h, doing := (doing T)(t := Some p)\<rparr>"
  note D = linkedD [OF inv]
  have step: "implements broken A (view_of T tb t) (ph t) (Locks a p)" by (rule D(2) [OF assms(1)])
  have live: "ph t \<noteq> Idle" by (rule D(3) [OF assms(1)])
  have goal: ?thesis
    if "reflected A t tb ph tb' ph'" "\<And>t'. t' \<noteq> t \<Longrightarrow> ph' t' = ph t'"
      "\<And>u. writer_of (lock_state T RwDataLock) = Some u \<Longrightarrow> u \<noteq> t \<Longrightarrow> tb' = tb"
      "implements broken A (view_of ?T tb' t) (ph' t) p" "ph' t \<noteq> Idle"
      "writer_of (h RwDataLock) = None \<longrightarrow> tb' = indexes_of (table_part (shared T)) \<and> ordered (table_part (shared T))"
      "writer_of (h RwDataLock) \<noteq> None \<longrightarrow> readers_of (h RwDataLock) = {}"
      "broken \<longrightarrow> (\<forall>n. readers_of (h n) = {})" for tb' ph'
  proof -
    have "view_of ?T tb' t' = view_of T tb t'" if "t' \<noteq> t" for t'
      by (rule view_of_other [OF assms(2) that]) (use that \<open>\<And>u. _ \<Longrightarrow> u \<noteq> t \<Longrightarrow> tb' = tb\<close> in blast)
    then have "linked broken A ?T tb' ph'"
      using that(2,4-8) inv by (auto simp: linked_def)
    then show ?thesis using that(1) by blast
  qed
  show ?thesis
  proof (cases a)
    case (Lock n)
    then have n: "n = RwDataLock" and free: "writer_of (lock_state T RwDataLock) = None"
      using assms(2,4) by (auto split: if_splits)
    have out: "view_of T tb t = Outside" using step Lock n by (simp add: implements_simps)
    have h: "writer_of (h RwDataLock) = Some t" "readers_of (h n') = readers_of (lock_state T n')"
        "readers_of (lock_state T RwDataLock) = {}" for n'
      using assms(2) Lock n by (auto split: if_splits)
    have "view_of ?T tb t = Holds (indexes_of (table_part (shared T))) (table_part (shared T))"
      using h(1) D(6) [OF free] by (simp add: view_of_def)
    moreover have "implements broken A (Holds (indexes_of (table_part (shared T))) (table_part (shared T))) (ph t) p"
      using step out Lock n D(7) [OF free] by (cases "table_part (shared T)") (simp add: implements_simps)
    ultimately show ?thesis
      using h live D(9) by (intro goal [of tb ph]) (simp_all add: reflected_def)
  next
    case (Unlock n)
    then have n: "n = RwDataLock" and own: "writer_of (lock_state T RwDataLock) = Some t"
      using assms(2,4) by (auto split: if_splits)
    have h: "writer_of (h RwDataLock) = None" "readers_of (h n') = readers_of (lock_state T n')" for n'
      using assms(2) Unlock n by (auto split: if_splits)
    let ?tb = "table_part (shared T)"
    obtain c r where c: "ordered ?tb" "may_act (ph t) c" "acts A c tb r (indexes_of ?tb)"
      "implements broken A Outside (Acted c r) p"
      using step Unlock n view_of_simps(1) [OF own] by (auto simp: implements_simps)
    have "view_of ?T (indexes_of ?tb) t = Outside" using h D(8) [OF own] by (simp add: view_of_def)
    then show ?thesis
      using c h D(9) own by (intro goal [of "indexes_of ?tb" "ph(t := Acted c r)"]) (auto simp: reflected_def)
  next
    case (LockShared n)
    then have n: "n = RwDataLock" and free: "writer_of (lock_state T RwDataLock) = None"
      using assms(2,4) by (auto split: if_splits)
    have h: "writer_of (h RwDataLock) = None" "t \<in> readers_of (h RwDataLock)"
      using assms(2) LockShared n free by (auto split: if_splits)
    have "\<not> broken" "implements broken A Reading (ph t) p" using step LockShared n by (auto simp: implements_simps)
    moreover have "view_of ?T tb t = Reading" using h by (simp add: view_of_def)
    ultimately show ?thesis
      using h live D(6,7) [OF free] by (intro goal [of tb ph]) (simp_all add: reflected_def)
  next
    case (UnlockShared n)
    then have n: "n = RwDataLock" and own: "t \<in> readers_of (lock_state T RwDataLock)"
      using assms(2,4) by (auto split: if_splits)
    have "\<not> broken" using D(9) own by auto
    moreover have free: "writer_of (lock_state T RwDataLock) = None"
      using D(8) own by (cases "writer_of (lock_state T RwDataLock)") auto
    moreover have h: "writer_of (h RwDataLock) = None" "t \<notin> readers_of (h RwDataLock)"
      using assms(2) UnlockShared n free by (auto split: if_splits)
    moreover have "implements broken A Outside (ph t) p"
      using step UnlockShared n \<open>\<not> broken\<close> by (simp add: implements_simps)
    moreover have "view_of ?T tb t = Outside" using h by (simp add: view_of_def)
    moreover note live
    ultimately show ?thesis
      using h D(6,7) [OF free] by (intro goal [of tb ph]) (simp_all add: reflected_def)
  qed
qed

text \<open>A step on the shared data.\<close>

lemma linked_sees:
  assumes "linked broken A T tb ph"
  shows "sees (view_of T tb t) (shared T)"
    and "view_of T tb t = Reading \<Longrightarrow> tb = indexes_of (table_part (shared T)) \<and> ordered (table_part (shared T))"
proof -
  have "writer_of (lock_state T RwDataLock) = None" if "t \<in> readers_of (lock_state T RwDataLock)"
    using linkedD(8) [OF assms] that by (cases "writer_of (lock_state T RwDataLock)") auto
  then show "sees (view_of T tb t) (shared T)"
    and "view_of T tb t = Reading \<Longrightarrow> tb = indexes_of (table_part (shared T)) \<and> ordered (table_part (shared T))"
    using linkedD(6,7) [OF assms] by (auto simp: view_of_def split: if_splits)
qed

lemma linked_touch:
  assumes "doing T t = Some (Touch as f)" and "f (shared T) = (s, p)" and inv: "linked broken A T tb ph"
  shows "linked broken A (T\<lparr>shared := s, doing := (doing T)(t := Some p)\<rparr>) tb
    (ph(t := moment (view_of T tb t) (shared T) (ph t)))" (is "linked _ _ ?T _ _")
proof -
  note D = linkedD [OF inv]
  let ?x = "view_of T tb t"
  have "implements broken A ?x (ph t) (Touch as f)" by (rule D(2) [OF assms(1)])
  then have s: "addresses s = A" "(\<exists>i tb. ?x = Holds i tb) \<or> table_part s = table_part (shared T)"
    "implements broken A (after_touch ?x s) (moment ?x (shared T) (ph t)) p"
    using linked_sees(1) [OF inv, of t] D(1) assms(2) by (auto simp: implements_simps dest!: spec [of _ "shared T"])
  have same: "table_part s = table_part (shared T)" if "writer_of (lock_state T RwDataLock) \<noteq> Some t"
    using s(2) that by (auto simp: view_of_def split: if_splits)
  have "view_of ?T tb t = after_touch ?x s" by (simp add: view_of_def)
  moreover have "view_of ?T tb t' = view_of T tb t'" if "t' \<noteq> t" for t'
    using same that by (auto simp: view_of_def)
  ultimately show ?thesis using s(1,3) same D(3) [OF assms(1)] inv by (auto simp: linked_def)
qed

lemma linked_return:
  assumes "doing T t = Some (Return r)" and inv: "linked broken A T tb ph"
  shows "linked broken A (T\<lparr>doing := (doing T)(t := None), returned := rs\<rparr>) tb (ph(t := Idle))"
    and "responds (ph t) r"
proof -
  have r: "view_of T tb t = Outside" "responds (ph t) r"
    using linkedD(2) [OF inv assms(1)] by (auto simp: implements_simps)
  have "view_of (T\<lparr>doing := (doing T)(t := None), returned := rs\<rparr>) tb = view_of T tb"
    by (simp add: view_of_def fun_eq_iff)
  then show "linked broken A (T\<lparr>doing := (doing T)(t := None), returned := rs\<rparr>) tb (ph(t := Idle))"
    using inv r(1) by (auto simp: linked_def)
  show "responds (ph t) r" by (rule r(2))
qed

text \<open>The moment of a step is a step of the atomic table.\<close>

lemma moment_run:
  assumes run: "atomic_run A st0 tb0 h (status s) tb ph"
    and "x = Reading \<Longrightarrow> tb = indexes_of (table_part s) \<and> ordered (table_part s)"
  shows "atomic_run A st0 tb0 h (status s) tb (ph(t := moment x s (ph t)))"
proof -
  have look: "atomic_run A st0 tb0 h (status s) tb (ph(t := Acted c r))"
    if "ph t = Begun c" "\<forall>n. c \<noteq> CInsert n" "x = Reading" "acts A c (indexes_of (table_part s)) r (indexes_of (table_part s))"
    for c r
    using atomic_acts [OF run, of t c r tb] assms(2) [OF that(3)] that(1,2,4) by simp
  have lists: "\<exists>ns. participant_list s = replicate (length ns) None @ map Some ns \<and> set ns = ran (map_at (mac_address_index s))"
    if "x = Reading"
    using map_at_values [of "mac_address_index s"] assms(2) [OF that]
    by (intro exI [of _ "map snd (mac_address_index s)"])
      (simp add: participant_list_def comp_def ordered_def table_part_def)
  note simps = indexes_of_def table_part_def get_by_mac_address_def get_by_ip_address_def get_by_hostname_def
  show ?thesis
  proof (cases "moment x s (ph t) = ph t")
    case True
    then show ?thesis using run by (simp add: fun_upd_idem)
  next
    case False
    then show ?thesis
    proof (cases x; cases "ph t")
      fix c assume x: "x = Outside" and c: "ph t = Begun c"
      show ?thesis
        using False x c atomic_admits [OF run, of t] atomic_refuses [OF run, of t] atomic_status [OF run, of t]
        by (cases c) auto
    next
      fix c assume x: "x = Reading" and c: "ph t = Begun c"
      then show ?thesis using False lists [OF x] by (cases c) (auto simp: simps intro!: look)
    qed simp_all
  qed
qed

text \<open>The history of every state is one of the atomic table.\<close>

lemma atomic_history:
  assumes "call_history start s0 h T" and impl: "\<And>c. implements broken (addresses s0) Outside (Begun c) (start c)"
    and "ordered (table_part s0)"
  shows "\<exists>tb ph. atomic_run (addresses s0) (status s0) (indexes_of (table_part s0)) h (status (shared T)) tb ph
    \<and> linked broken (addresses s0) T tb ph"
  using assms(1)
proof (induction rule: call_history.induct)
  case history_start
  have "view_of (threads_start s0) tb t = Outside" for tb t by (simp add: view_of_def threads_start_def nobody_def)
  then have "linked broken (addresses s0) (threads_start s0) (indexes_of (table_part s0)) (\<lambda>_. Idle)"
    using assms(3) by (simp add: linked_def threads_start_def nobody_def)
  then show ?case using atomic_start by (fastforce simp: threads_start_def)
next
  case (history_calls h T t c)
  then obtain tb ph where run: "atomic_run (addresses s0) (status s0) (indexes_of (table_part s0)) h (status (shared T)) tb ph"
    and inv: "linked broken (addresses s0) T tb ph" by blast
  let ?T = "T\<lparr>doing := (doing T)(t := Some (start c))\<rparr>"
  have "view_of ?T = view_of T" by (simp add: view_of_def fun_eq_iff)
  then have "linked broken (addresses s0) ?T tb (ph(t := Begun c))"
    using inv linkedD(4) [OF inv history_calls(3)] impl by (auto simp: linked_def)
  moreover have "atomic_run (addresses s0) (status s0) (indexes_of (table_part s0)) (h @ [Invoke t c])
      (status (shared ?T)) tb (ph(t := Begun c))"
    using atomic_invoke [OF run linkedD(5) [OF inv history_calls(3)], of c] by simp
  ultimately show ?case by blast
next
  case (history_works h T T')
  then obtain tb ph where run: "atomic_run (addresses s0) (status s0) (indexes_of (table_part s0)) h (status (shared T)) tb ph"
    and inv: "linked broken (addresses s0) T tb ph" by blast
  from history_works(2) show ?case
  proof (cases rule: work_step.cases)
    case (thread_locks t a p h')
    have ev: "step_events T T' = []" and sh: "shared T' = shared T" using thread_locks(1) by (simp_all add: step_events_def)
    show ?thesis
    proof (cases "wanted a = RwDataLock")
      case True
      from linked_table_lock [OF thread_locks(3,4) inv this] thread_locks(1) obtain tb' ph'
        where T': "linked broken (addresses s0) T' tb' ph'" "reflected (addresses s0) t tb ph tb' ph'" by blast
      have "atomic_run (addresses s0) (status s0) (indexes_of (table_part s0)) h (status (shared T)) tb' ph'"
        using T'(2) run atomic_acts [OF run, of t _ _ tb'] by (auto simp: reflected_def)
      then show ?thesis using T'(1) ev sh by (simp del: split_paired_Ex, blast)
    next
      case False
      from linked_other_lock [OF thread_locks(3,4) inv this] show ?thesis
        using run thread_locks(1) ev sh by (simp del: split_paired_Ex, blast)
    qed
  next
    case (thread_undefined t a p)
    have "view_of T' = view_of T" using thread_undefined(1) by (simp add: view_of_def fun_eq_iff)
    then have "linked broken (addresses s0) T' tb ph" using inv thread_undefined(1) by (simp add: linked_def)
    moreover have "step_events T T' = []" "shared T' = shared T" using thread_undefined(1) by (simp_all add: step_events_def)
    ultimately show ?thesis using run by (simp del: split_paired_Ex, blast)
  next
    case (thread_touches t as f s p)
    from linked_touch [OF thread_touches(3,4) inv] thread_touches(1)
    have T': "linked broken (addresses s0) T' tb (ph(t := moment (view_of T tb t) (shared T) (ph t)))" by simp
    from moment_run [OF run linked_sees(2) [OF inv]]
    have run': "atomic_run (addresses s0) (status s0) (indexes_of (table_part s0)) h (status (shared T)) tb
        (ph(t := moment (view_of T tb t) (shared T) (ph t)))" by simp
    have "atomic_run (addresses s0) (status s0) (indexes_of (table_part s0)) (h @ step_events T T') (status (shared T')) tb
        (ph(t := moment (view_of T tb t) (shared T) (ph t)))"
      using run' atomic_statuses [OF run', of "status (shared T')"] thread_touches(1) by (simp add: step_events_def)
    then show ?thesis using T' by blast
  next
    case (thread_returns t r)
    from linked_return [OF thread_returns(3) inv] thread_returns(1)
    have T': "linked broken (addresses s0) T' tb (ph(t := Idle))" "responds (ph t) r" by simp_all
    have "step_events T T' = [Respond t r]" "shared T' = shared T" using thread_returns(1) by (simp_all add: step_events_def)
    then show ?thesis using T'(1) atomic_responds [OF run T'(2)] by (simp del: split_paired_Ex, blast)
  qed
qed

section \<open>Properties\<close>

text \<open>
  C8: The table is linearizable: whatever threads call, however their steps interleave and with either
  constructor of the shared guard, up to the first undefined behaviour the history of the calls,
  with their results and the changes of statuses between them, is a history of the atomic table, on
  which each call acts in one moment between its beginning and its end and returns what it found in
  that moment; an insertion also finds its station not disconnected in an earlier moment of its own.
  And whenever no thread holds the table's lock the three indexes are those of the atomic table.
\<close>

theorem table_linearizable:
  assumes "shared_guard ctor" and "call_history (service_prog ctor) s0 h T" and "indexes_ordered s0"
  shows "\<exists>tb ph. atomic_run (addresses s0) (status s0) (indexes_of (table_part s0)) h (status (shared T)) tb ph
    \<and> (\<forall>t. ph t = Idle \<longleftrightarrow> doing T t = None)
    \<and> (writer_of (lock_state T RwDataLock) = None \<longrightarrow> tb = indexes_of (table_part (shared T)))"
proof -
  have "ordered (table_part s0)" using assms(3) by (simp add: ordered_def table_part_def indexes_ordered_def)
  from atomic_history [OF assms(2) service_implements [OF assms(1) refl] this]
  obtain tb ph where run: "atomic_run (addresses s0) (status s0) (indexes_of (table_part s0)) h (status (shared T)) tb ph"
    and inv: "linked (ctor = UnlockShared) (addresses s0) T tb ph" by blast
  then show ?thesis using run linkedD(3,5,6) [OF inv] by (metis not_None_eq)
qed

lemma history_returned: "call_history start s0 h T \<Longrightarrow> (t, r) \<in> set (returned T) \<Longrightarrow> Respond t r \<in> set h"
proof (induction rule: call_history.induct)
  case (history_works h T T')
  from history_works(2) show ?case
    by (cases rule: work_step.cases) (use history_works in \<open>auto simp: step_events_def\<close>)
qed (simp_all add: threads_start_def)

theorem table_linearizable_witness:
  "\<exists>h T tb ph. call_history (service_prog LockShared) (service_a AWAKEN) h T \<and> Respond 3 (ABool True) \<in> set h
    \<and> atomic_run (addresses (service_a AWAKEN)) (status (service_a AWAKEN)) (indexes_of (table_part (service_a AWAKEN)))
        h (status (shared T)) tb ph
    \<and> tb = indexes_of (table_part (snd (remove_by_mac_address (mac host_a) (service_a AWAKEN))))"
proof -
  let ?s = "service_a AWAKEN" and ?c = "CRemoveByMac (mac host_a) :: unit service_call"
  let ?T = "(threads_start ?s)\<lparr>shared := snd (service_op ?c ?s), returned := [(3, fst (service_op ?c ?s))]\<rparr>"
  have found: "get_by_mac_address (mac host_a) ?s = Some 0" using service_a_simps(2) [of AWAKEN] by (simp add: host_a_def)
  have r: "fst (service_op ?c ?s) = ABool True"
    using remove_by_mac_known [OF ms_inv_service_a found] by simp
  have "calls_reachable (service_prog LockShared) ?s ?T"
    using calls_alone [OF calls_start, where c = ?c and t = 3] by (simp add: threads_start_def)
  then obtain h where h: "call_history (service_prog LockShared) ?s h ?T" using reachable_history by blast
  have "indexes_ordered ?s" using ms_inv_service_a by (simp add: ms_inv_def)
  from table_linearizable [OF shared_guard_cases(1) h this] obtain tb ph
    where "atomic_run (addresses ?s) (status ?s) (indexes_of (table_part ?s)) h (status (shared ?T)) tb ph"
      "tb = indexes_of (table_part (shared ?T))"
    by (auto simp: threads_start_def nobody_def)
  moreover have "Respond 3 (ABool True) \<in> set h" using history_returned [OF h, of 3 "ABool True"] r by simp
  ultimately show ?thesis using h by (intro exI [of _ h] exI [of _ ?T] exI [of _ tb] exI [of _ ph]) simp
qed

end
