(* ===== verification/Packet.thy ===== *)
theory Packet
  imports Management
begin

text \<open>
  The packets the nodes exchange and their text form (\<open>packet.h\<close>, \<open>packet.cpp\<close>): headers and
  bodies, the serializer, which appends fields that end in a semicolon, and the deserializer,
  which keeps a position in the text. The contract of a field, what its reader returns where
  its writer's text stands, is the locale \<open>packet_field\<close>.
\<close>

section \<open>Data\<close>

datatype Direction = REQUEST | RESPONSE

datatype PacketType = DISCOVERY | EXIT | WOL | SLEEP_STATUS

fun direction_code :: "Direction \<Rightarrow> uint64" where
  "direction_code REQUEST = 0"
| "direction_code RESPONSE = 1"

fun type_code :: "PacketType \<Rightarrow> uint64" where
  "type_code DISCOVERY = 0"
| "type_code EXIT = 1"
| "type_code WOL = 2"
| "type_code SLEEP_STATUS = 3"

record PacketHeader =
  seqn :: uint64
  timestamp :: uint64
  sender_addresses :: NodeAddresses
  direction :: Direction

record PacketBody =
  packet_type :: PacketType
  sleep_status :: Status

record Packet =
  header :: PacketHeader
  body :: PacketBody

definition PacketHeader_new :: PacketHeader where
  "PacketHeader_new = \<lparr>seqn = 0, timestamp = 0, sender_addresses = NodeAddresses_new,
     direction = REQUEST\<rparr>"

definition PacketBody_new :: PacketBody where
  "PacketBody_new = \<lparr>packet_type = DISCOVERY, sleep_status = AWAKEN\<rparr>"

definition Packet_new :: Packet where
  "Packet_new = \<lparr>header = PacketHeader_new, body = PacketBody_new\<rparr>"

section \<open>The serializer\<close>

definition FIELD_END :: char where
  "FIELD_END = CHR '';''"

definition BACKSLASH :: char where
  "BACKSLASH = CHR 0x5C"

record PacketSerializer =
  ser_text :: string

definition PacketSerializer_new :: PacketSerializer where
  "PacketSerializer_new = \<lparr>ser_text = []\<rparr>"

definition append_field :: "string \<Rightarrow> PacketSerializer \<Rightarrow> PacketSerializer" where
  "append_field t ser = ser\<lparr>ser_text := ser_text ser @ t @ [FIELD_END]\<rparr>"

definition write_uint :: "uint64 \<Rightarrow> PacketSerializer \<Rightarrow> PacketSerializer" where
  "write_uint n = append_field (to_string n)"

text \<open>
  The loop of \<open>write(string)\<close>, what it appends: a character is appended only when the flag
  \<open>escape\<close> is set, a backslash sets the flag, and nothing else does anything.
\<close>

fun escape_loop :: "bool \<Rightarrow> string \<Rightarrow> string" where
  "escape_loop escape [] = []"
| "escape_loop escape (ch # text) =
     (if escape then ch # escape_loop False text
      else if ch = BACKSLASH then escape_loop True text
      else escape_loop False text)"

definition write_string :: "string \<Rightarrow> PacketSerializer \<Rightarrow> PacketSerializer" where
  "write_string text = append_field (escape_loop False text)"

definition write_bool :: "bool \<Rightarrow> PacketSerializer \<Rightarrow> PacketSerializer" where
  "write_bool boolean = append_field (to_string (if boolean then 1 else 0))"

definition write_ip :: "IpAddress \<Rightarrow> PacketSerializer \<Rightarrow> PacketSerializer" where
  "write_ip a = append_field (render_ip_address a)"

definition write_mac :: "MacAddress \<Rightarrow> PacketSerializer \<Rightarrow> PacketSerializer" where
  "write_mac a = append_field (render_mac_address a)"

definition finish :: "PacketSerializer \<Rightarrow> string" where
  "finish ser = ser_text ser"

text \<open>The cast of the timestamp to \<open>int64_t\<close> and back keeps its bits.\<close>

definition header_serialize :: "PacketHeader \<Rightarrow> PacketSerializer \<Rightarrow> PacketSerializer" where
  "header_serialize h ser =
     write_uint (direction_code (direction h))
      (write_string (hostname (sender_addresses h))
       (write_ip (ip (sender_addresses h))
        (write_mac (mac (sender_addresses h))
         (write_uint (timestamp h)
          (write_uint (seqn h) ser)))))"

definition body_serialize :: "PacketBody \<Rightarrow> PacketSerializer \<Rightarrow> PacketSerializer" where
  "body_serialize b ser = write_uint (type_code (packet_type b)) ser"

definition packet_serialize :: "Packet \<Rightarrow> PacketSerializer \<Rightarrow> PacketSerializer" where
  "packet_serialize p ser = body_serialize (body p) (header_serialize (header p) ser)"

section \<open>The deserializer\<close>

record PacketDeserializer =
  des_text :: string
  des_i :: nat

definition PacketDeserializer_new :: "string \<Rightarrow> PacketDeserializer" where
  "PacketDeserializer_new text = \<lparr>des_text = text, des_i = 0\<rparr>"

function probe :: "string \<Rightarrow> nat \<Rightarrow> bool \<Rightarrow> nat" where
  "probe text j escape =
     (if j < length text \<and> (text ! j \<noteq> FIELD_END \<or> escape)
      then probe text (Suc j) (text ! j = BACKSLASH)
      else j)"
  by pat_completeness auto
termination
  by (relation "measure (\<lambda>(text, j, escape). length text - j)") auto

declare probe.simps [simp del]

definition probe_field_end :: "(PacketDeserializer, nat) action" where
  "probe_field_end d =
     (let j = probe (des_text d) (des_i d) False in
      if length (des_text d) \<le> j
      then (Inl (InvalidPacketExc (InvalidPacketException ''missing field end ;'')), d)
      else (Inr j, d))"

definition field_text :: "nat \<Rightarrow> PacketDeserializer \<Rightarrow> string" where
  "field_text j d = take (j - des_i d) (drop (des_i d) (des_text d))"

text \<open>The result of \<open>stoull\<close> goes through a variable of type \<open>uint16_t\<close>.\<close>

definition read_uint :: "(PacketDeserializer, uint64) action" where
  "read_uint =
     andthen probe_field_end (\<lambda>j.
     andthen (gets (field_text j)) (\<lambda>substr.
       case stoull substr of
         Inl e \<Rightarrow> throw (ConversionExc e)
       | Inr n \<Rightarrow>
           andthen (modify (\<lambda>d. d\<lparr>des_i := j + 1\<rparr>)) (\<lambda>_.
           ret (ucast (ucast n :: uint16)))))"

definition read_string :: "(PacketDeserializer, string) action" where
  "read_string =
     andthen probe_field_end (\<lambda>j.
     andthen (gets (field_text j)) (\<lambda>text.
     andthen (modify (\<lambda>d. d\<lparr>des_i := j + 1\<rparr>)) (\<lambda>_.
     ret text)))"

definition read_bool :: "(PacketDeserializer, bool) action" where
  "read_bool =
     andthen probe_field_end (\<lambda>j.
     andthen (gets (field_text j)) (\<lambda>substr.
       if substr = ''false'' then
         andthen (modify (\<lambda>d. d\<lparr>des_i := j + 1\<rparr>)) (\<lambda>_. ret False)
       else if substr = ''true'' then
         andthen (modify (\<lambda>d. d\<lparr>des_i := j + 1\<rparr>)) (\<lambda>_. ret True)
       else throw (InvalidPacketPtrExc (InvalidPacketException ''invalid boolean field''))))"

definition lift_parse :: "('a \<Rightarrow> failure + 'b) \<Rightarrow> 'a \<Rightarrow> ('s, 'b) action" where
  "lift_parse parse x = (case parse x of Inl e \<Rightarrow> throw e | Inr y \<Rightarrow> ret y)"

definition read_ip_address :: "(PacketDeserializer, IpAddress) action" where
  "read_ip_address = andthen read_string (\<lambda>str. lift_parse parse_ip_address str)"

definition read_mac_address :: "(PacketDeserializer, MacAddress) action" where
  "read_mac_address = andthen read_string (\<lambda>str. lift_parse parse_mac_address str)"

text \<open>An integer becomes a direction or a type only if the \<open>switch\<close> has a case for it.\<close>

definition parse_direction :: "uint64 \<Rightarrow> PacketHeader \<Rightarrow> bool \<times> PacketHeader" where
  "parse_direction n h =
     (if n = direction_code REQUEST then (True, h\<lparr>direction := REQUEST\<rparr>)
      else if n = direction_code RESPONSE then (True, h\<lparr>direction := RESPONSE\<rparr>)
      else (False, h))"

definition parse_type :: "uint64 \<Rightarrow> PacketBody \<Rightarrow> bool \<times> PacketBody" where
  "parse_type n b =
     (if n = type_code DISCOVERY then (True, b\<lparr>packet_type := DISCOVERY\<rparr>) else (False, b))"

definition header_deserialize ::
    "PacketHeader \<Rightarrow> (PacketDeserializer, bool \<times> PacketHeader) action" where
  "header_deserialize h0 =
     andthen read_uint (\<lambda>n.
     let h1 = h0\<lparr>seqn := n\<rparr> in
     andthen read_uint (\<lambda>t.
     let h2 = h1\<lparr>timestamp := t\<rparr> in
     andthen read_mac_address (\<lambda>m.
     let h3 = h2\<lparr>sender_addresses := (sender_addresses h2)\<lparr>mac := m\<rparr>\<rparr> in
     andthen read_ip_address (\<lambda>a.
     let h4 = h3\<lparr>sender_addresses := (sender_addresses h3)\<lparr>ip := a\<rparr>\<rparr> in
     andthen read_string (\<lambda>name.
     let h5 = h4\<lparr>sender_addresses := (sender_addresses h4)\<lparr>hostname := name\<rparr>\<rparr> in
     andthen read_uint (\<lambda>dir.
     ret (parse_direction dir h5)))))))"

definition body_deserialize :: "PacketBody \<Rightarrow> (PacketDeserializer, bool \<times> PacketBody) action" where
  "body_deserialize b = andthen read_uint (\<lambda>n. ret (parse_type n b))"

definition packet_deserialize :: "Packet \<Rightarrow> (PacketDeserializer, bool \<times> Packet) action" where
  "packet_deserialize p =
     andthen (header_deserialize (header p)) (\<lambda>(ok, h).
       if \<not> ok then ret (False, p\<lparr>header := h\<rparr>)
       else andthen (body_deserialize (body p)) (\<lambda>(ok', b).
         ret (ok', p\<lparr>header := h, body := b\<rparr>)))"

end
