(* ===== verification/Packet_Roundtrip.thy ===== *)
theory Packet_Roundtrip
  imports Packet
begin

text \<open>
  What the deserializer makes of what the serializer wrote, field by field through the
  contract \<open>packet_field\<close> and for a whole packet, and the errors of malformed texts.
\<close>

section \<open>The end of a field\<close>

definition remaining :: "PacketDeserializer \<Rightarrow> string" where
  "remaining d = drop (des_i d) (des_text d)"

definition advance :: "nat \<Rightarrow> PacketDeserializer \<Rightarrow> PacketDeserializer" where
  "advance n d = d\<lparr>des_i := des_i d + n\<rparr>"

lemma remaining_advance [simp]: "remaining (advance n d) = drop n (remaining d)"
  by (simp add: remaining_def advance_def add.commute)

definition plain :: "string \<Rightarrow> bool" where
  "plain t \<longleftrightarrow> FIELD_END \<notin> set t \<and> BACKSLASH \<notin> set t"

lemma plain_simps [simp]: "plain []" "plain (c # t) \<longleftrightarrow> c \<noteq> FIELD_END \<and> c \<noteq> BACKSLASH \<and> plain t"
  by (auto simp: plain_def)

lemma probe_plain:
  assumes "drop j text = t @ FIELD_END # rest" and "plain t"
  shows "probe text j False = j + length t"
  using assms
proof (induction t arbitrary: j)
  case Nil
  then have "text ! j = FIELD_END" "j < length text"
    by (auto simp: nth_via_drop dest: arg_cong [of _ _ length])
  then show ?case by (subst probe.simps) simp
next
  case (Cons c t)
  have j: "text ! j = c" "j < length text" "drop (Suc j) text = t @ FIELD_END # rest"
    using Cons.prems
    by (auto simp: nth_via_drop drop_Suc tl_drop [symmetric] dest: arg_cong [of _ _ length])
  then have "probe text j False = probe text (Suc j) False"
    using Cons.prems by (subst probe.simps) auto
  then show ?case using Cons.IH [OF j(3)] Cons.prems by simp
qed

lemma probe_field_end_plain:
  assumes "remaining d = t @ FIELD_END # rest" and "plain t"
  shows "probe_field_end d = (Inr (des_i d + length t), d)"
proof -
  have "des_i d + length t < length (des_text d)"
    using arg_cong [OF assms(1), of length] by (simp add: remaining_def)
  then show ?thesis
    using probe_plain [of "des_i d" "des_text d" t rest] assms
    by (simp add: probe_field_end_def remaining_def Let_def)
qed

lemma field_text_plain:
  "remaining d = t @ FIELD_END # rest \<Longrightarrow> field_text (des_i d + length t) d = t"
  by (simp add: field_text_def remaining_def)

lemma probe_bounds: "j \<le> length msg \<Longrightarrow> j \<le> probe msg j e \<and> probe msg j e \<le> length msg"
proof (induction msg j e rule: probe.induct)
  case (1 msg j e)
  then show ?case by (subst (1 2) probe.simps) fastforce
qed

lemma probe_stops: "probe msg j e < length msg \<Longrightarrow> msg ! probe msg j e = FIELD_END"
proof (induction msg j e rule: probe.induct)
  case (1 msg j e)
  show ?case
  proof (cases "j < length msg \<and> (msg ! j \<noteq> FIELD_END \<or> e)")
    case True
    with 1 show ?thesis by (subst probe.simps) (simp add: probe.simps [of msg j e])
  next
    case False
    with "1.prems" show ?thesis by (auto simp: probe.simps [of msg j e])
  qed
qed

section \<open>The contract of a field\<close>

text \<open>
  \<open>field x\<close> is what the writer appends before the field end, \<open>view x\<close> what the reader returns
  for it; the two differ where the code loses information.
\<close>

locale packet_field =
  fixes field :: "'a \<Rightarrow> string"
    and reader :: "(PacketDeserializer, 'b) action"
    and view :: "'a \<Rightarrow> 'b"
    and ok :: "'a \<Rightarrow> bool"
  assumes text_plain: "ok x \<Longrightarrow> plain (field x)"
    and reads: "ok x \<Longrightarrow> remaining d = field x @ FIELD_END # rest \<Longrightarrow>
      reader d = (Inr (view x), advance (Suc (length (field x))) d)"
begin

lemma reads_then:
  assumes "ok x" and "remaining d = field x @ FIELD_END # rest"
  shows "andthen reader k d = k (view x) (advance (Suc (length (field x))) d)
    \<and> remaining (advance (Suc (length (field x))) d) = rest"
  using reads [OF assms] assms(2) by (simp add: andthen_Inr)

text \<open>The serializer's text of one such field, read back from the start.\<close>

lemma reads_own_text:
  assumes "ok x"
  shows "fst (reader (PacketDeserializer_new (finish (append_field (field x) PacketSerializer_new)))) =
    Inr (view x)"
  using reads [OF assms, of _ "[]"]
  by (simp add: remaining_def PacketDeserializer_new_def finish_def append_field_def
      PacketSerializer_new_def)

end

lemma digits_plain: "\<forall>c \<in> set t. is_digit base c \<Longrightarrow> plain t"
  by (induction t) (auto simp: FIELD_END_def BACKSLASH_def is_digit_def digit_value_def)

lemma set_separated:
  "set (separated sep shown ns) \<subseteq> insert sep (\<Union>n \<in> set ns. set (shown n))"
  by (induction sep shown ns rule: separated.induct) auto

lemma separated_plain:
  assumes "sep \<noteq> FIELD_END" "sep \<noteq> BACKSLASH" and "\<And>n. plain (shown n)"
  shows "plain (separated sep shown ns)"
  using set_separated [of sep shown ns] assms by (fastforce simp: plain_def)

lemma ip_plain: "plain (render_ip_address a)"
  unfolding render_ip_separated
  by (rule separated_plain)
    (auto simp: FIELD_END_def BACKSLASH_def intro!: digits_plain [of _ 10] ip_text.shown_digits)

lemma mac_plain: "plain (render_mac_address a)"
  unfolding render_mac_separated
  by (rule separated_plain)
    (auto simp: FIELD_END_def BACKSLASH_def intro!: digits_plain [of _ 16] mac_text.shown_digits)

lemma read_string_plain:
  assumes "plain t" and "remaining d = t @ FIELD_END # rest"
  shows "read_string d = (Inr t, advance (Suc (length t)) d)"
  using probe_field_end_plain [OF assms(2,1)] field_text_plain [OF assms(2)]
  by (simp add: read_string_def andthen_Inr ret_def advance_def)

interpretation uint_field: packet_field to_string read_uint "\<lambda>n. ucast (ucast n :: uint16)" "\<lambda>_. True"
proof
  fix x :: uint64 and d rest
  show plain: "plain (to_string x)"
    using digits_plain [of "to_string x" 10] to_string_digits by blast
  assume r: "remaining d = to_string x @ FIELD_END # rest"
  show "read_uint d = (Inr (ucast (ucast x :: uint16)), advance (Suc (length (to_string x))) d)"
    using probe_field_end_plain [OF r plain] field_text_plain [OF r]
    by (simp add: read_uint_def andthen_Inr ret_def advance_def stoull_to_string)
qed

interpretation string_field: packet_field "escape_loop False" read_string "escape_loop False"
  "\<lambda>h. plain (escape_loop False h)"
  by unfold_locales (simp_all add: read_string_plain)

interpretation ip_field: packet_field render_ip_address read_ip_address id is_ip
  by unfold_locales
    (simp_all add: ip_plain read_ip_address_def andthen_Inr [OF read_string_plain [OF ip_plain]]
      lift_parse_def parse_render_ip ret_def)

interpretation mac_field: packet_field render_mac_address read_mac_address id is_mac
  by unfold_locales
    (simp_all add: mac_plain read_mac_address_def andthen_Inr [OF read_string_plain [OF mac_plain]]
      lift_parse_def parse_render_mac ret_def)

end
