(* ===== verification/Packet_Properties.thy ===== *)
theory Packet_Properties
  imports Packet_Roundtrip
begin

text \<open>
  The properties of the packet format: what a receiver gets out of what a sender put in, which
  packets it accepts, and how malformed texts fail.
\<close>

section \<open>A whole packet\<close>

definition packet_text :: "Packet \<Rightarrow> string" where
  "packet_text p = finish (packet_serialize p PacketSerializer_new)"

lemma packet_text_fields:
  "packet_text p =
     to_string (seqn (header p)) @ FIELD_END # to_string (timestamp (header p)) @ FIELD_END #
     render_mac_address (mac (sender_addresses (header p))) @ FIELD_END #
     render_ip_address (ip (sender_addresses (header p))) @ FIELD_END #
     escape_loop False (hostname (sender_addresses (header p))) @ FIELD_END #
     to_string (direction_code (direction (header p))) @ FIELD_END #
     to_string (type_code (packet_type (body p))) @ [FIELD_END]"
  by (simp add: packet_text_def packet_serialize_def header_serialize_def body_serialize_def
      write_uint_def write_mac_def write_ip_def write_string_def append_field_def finish_def
      PacketSerializer_new_def)

text \<open>What the transport keeps of a header: 16 bits of each number, part of the host name.\<close>

definition header_view :: "PacketHeader \<Rightarrow> PacketHeader" where
  "header_view h = h\<lparr>seqn := ucast (ucast (seqn h) :: uint16),
     timestamp := ucast (ucast (timestamp h) :: uint16),
     sender_addresses := (sender_addresses h)\<lparr>hostname :=
       escape_loop False (hostname (sender_addresses h))\<rparr>\<rparr>"

definition header_ok :: "PacketHeader \<Rightarrow> bool" where
  "header_ok h \<longleftrightarrow> wf_addresses (sender_addresses h)
     \<and> plain (escape_loop False (hostname (sender_addresses h)))"

lemma escape_loop_no_backslash: "BACKSLASH \<notin> set h \<Longrightarrow> escape_loop False h = []"
  by (induction h) auto

lemma parse_direction_code:
  "parse_direction (ucast (ucast (direction_code dir) :: uint16)) h = (True, h\<lparr>direction := dir\<rparr>)"
  by (cases dir) (simp_all add: parse_direction_def)

lemma parse_type_code:
  "parse_type (ucast (ucast (type_code t) :: uint16)) b =
    (t = DISCOVERY, if t = DISCOVERY then b\<lparr>packet_type := DISCOVERY\<rparr> else b)"
  by (cases t) (simp_all add: parse_type_def)

lemma header_deserialize_text:
  assumes ok: "header_ok h"
    and r: "remaining d = to_string (seqn h) @ FIELD_END # to_string (timestamp h) @ FIELD_END #
      render_mac_address (mac (sender_addresses h)) @ FIELD_END #
      render_ip_address (ip (sender_addresses h)) @ FIELD_END #
      escape_loop False (hostname (sender_addresses h)) @ FIELD_END #
      to_string (direction_code (direction h)) @ FIELD_END # rest"
  shows "\<exists>d'. header_deserialize h0 d = (Inr (True, header_view h), d') \<and> remaining d' = rest"
proof -
  have w: "is_mac (mac (sender_addresses h))" "is_ip (ip (sender_addresses h))"
    "plain (escape_loop False (hostname (sender_addresses h)))"
    using ok by (simp_all add: header_ok_def wf_addresses_def)
  note f1 = uint_field.reads_then [OF TrueI r]
  note f2 = uint_field.reads_then [OF TrueI f1 [THEN conjunct2]]
  note f3 = mac_field.reads_then [OF w(1) f2 [THEN conjunct2]]
  note f4 = ip_field.reads_then [OF w(2) f3 [THEN conjunct2]]
  note f5 = string_field.reads_then [OF w(3) f4 [THEN conjunct2]]
  note f6 = uint_field.reads_then [OF TrueI f5 [THEN conjunct2]]
  note fs = f1 [THEN conjunct1] f2 [THEN conjunct1] f3 [THEN conjunct1] f4 [THEN conjunct1]
    f5 [THEN conjunct1] f6 [THEN conjunct1]
  show ?thesis
    unfolding header_deserialize_def Let_def fs
    by (rule exI, rule conjI [OF _ f6 [THEN conjunct2]])
      (simp add: ret_def parse_direction_code header_view_def)
qed

lemma packet_deserialize_text:
  assumes "header_ok (header p)" and "remaining d = packet_text p"
  shows "fst (packet_deserialize q d) =
    Inr (packet_type (body p) = DISCOVERY,
      q\<lparr>header := header_view (header p),
        body := (if packet_type (body p) = DISCOVERY
                 then (body q)\<lparr>packet_type := DISCOVERY\<rparr> else body q)\<rparr>)"
proof -
  obtain d' where h: "header_deserialize (header q) d = (Inr (True, header_view (header p)), d')"
    and r: "remaining d' = to_string (type_code (packet_type (body p))) @ FIELD_END # []"
    using header_deserialize_text [OF assms(1), of d _ "header q"] assms(2)
    by (auto simp: packet_text_fields)
  have "body_deserialize (body q) d' =
      (Inr (packet_type (body p) = DISCOVERY,
        if packet_type (body p) = DISCOVERY then (body q)\<lparr>packet_type := DISCOVERY\<rparr> else body q),
       advance (Suc (length (to_string (type_code (packet_type (body p)))))) d')"
    by (simp add: body_deserialize_def uint_field.reads_then [OF TrueI r, THEN conjunct1]
        ret_def parse_type_code)
  with h show ?thesis by (simp add: packet_deserialize_def andthen_Inr ret_def)
qed

text \<open>
  What a header is after a deserialization that did not throw: addresses of the right sizes, and
  numbers of 16 bits, since \<open>read_uint\<close> keeps its result in a \<open>uint16_t\<close>.
\<close>

definition typed_header :: "PacketHeader \<Rightarrow> bool" where
  "typed_header h \<longleftrightarrow> wf_addresses (sender_addresses h)
     \<and> unat (seqn h) < 65536 \<and> unat (timestamp h) < 65536"

lemma lift_parse_result: "lift_parse f t d = (Inr x, d') \<Longrightarrow> f t = Inr x"
  by (auto simp: lift_parse_def prog_simps split: sum.splits)

lemma read_uint_bounded: "read_uint d = (Inr n, d') \<Longrightarrow> unat n < 65536"
proof -
  have "unat (ucast (w :: uint16) :: uint64) < 65536" for w
    using unat_less_length [of w] by (simp add: unsigned_ucast_eq take_bit_nat_eq_self)
  then show "read_uint d = (Inr n, d') \<Longrightarrow> unat n < 65536"
    by (auto simp: read_uint_def andthen_result_Inr ret_def case_sum_throw_Inr)
qed

lemma read_addresses_sized:
  "read_mac_address d = (Inr m, d') \<Longrightarrow> is_mac m" "read_ip_address d = (Inr a, d') \<Longrightarrow> is_ip a"
  using parsed_addresses_sized
  by (auto simp: read_mac_address_def read_ip_address_def andthen_result_Inr dest!: lift_parse_result)

lemma header_deserialize_typed:
  "header_deserialize h d = (Inr (ok, h'), d') \<Longrightarrow> typed_header h'"
  by (auto simp: header_deserialize_def andthen_result_Inr Let_def typed_header_def wf_addresses_def
      parse_direction_def ret_def split: if_splits dest!: read_uint_bounded read_addresses_sized)

lemma packet_deserialize_typed:
  "packet_deserialize q d = (Inr (ok, q'), d') \<Longrightarrow> typed_header (header q')"
  by (auto simp: packet_deserialize_def andthen_result_Inr ret_def split: if_splits prod.splits
      dest!: header_deserialize_typed)

lemma accepted_is_discovery:
  assumes "packet_deserialize q d = (Inr (True, q'), d')"
  shows "packet_type (body q') = DISCOVERY"
  using assms
  by (auto simp: packet_deserialize_def body_deserialize_def parse_type_def andthen_result_Inr
      ret_def split: if_splits prod.splits)

section \<open>Properties\<close>

text \<open>
  C2: A receiver that deserializes a serialized packet never throws, for valid addresses and a
  host name whose escaped characters are plain. It gets the header back except that the
  sequence number and the timestamp keep only 16 bits and the host name only its escaped
  characters, and it accepts the packet exactly if its type is \<open>DISCOVERY\<close>.
\<close>

theorem packet_roundtrip:
  assumes "header_ok (header p)"
  shows "fst (packet_deserialize q (PacketDeserializer_new (packet_text p))) =
    Inr (packet_type (body p) = DISCOVERY,
      q\<lparr>header := header_view (header p),
        body := (if packet_type (body p) = DISCOVERY
                 then (body q)\<lparr>packet_type := DISCOVERY\<rparr> else body q)\<rparr>)"
  using assms by (rule packet_deserialize_text) (simp add: remaining_def PacketDeserializer_new_def)

definition example_packet :: "PacketType \<Rightarrow> Packet" where
  "example_packet t =
     \<lparr>header = \<lparr>seqn = 65538, timestamp = 7,
        sender_addresses = \<lparr>mac = [1, 2, 3, 4, 5, 6], ip = [10, 0, 0, 1], hostname = ''pc''\<rparr>,
        direction = RESPONSE\<rparr>,
      body = \<lparr>packet_type = t, sleep_status = AWAKEN\<rparr>\<rparr>"

lemma example_packet_ok: "header_ok (header (example_packet t))"
  by (simp add: header_ok_def example_packet_def wf_addresses_def is_mac_def is_ip_def
      escape_loop_no_backslash BACKSLASH_def)

theorem packet_roundtrip_witness:
  "fst (packet_deserialize Packet_new (PacketDeserializer_new (packet_text (example_packet EXIT)))) =
    Inr (False, Packet_new\<lparr>header :=
      \<lparr>seqn = 2, timestamp = 7,
       sender_addresses = \<lparr>mac = [1, 2, 3, 4, 5, 6], ip = [10, 0, 0, 1], hostname = ''''\<rparr>,
       direction = RESPONSE\<rparr>\<rparr>)"
  using packet_roundtrip [OF example_packet_ok, of Packet_new EXIT]
  by (simp add: example_packet_def header_view_def escape_loop_no_backslash BACKSLASH_def)

text \<open>
  The host name does not survive the transport: if it has no backslash, the receiver gets
  the empty string, whatever the name was.
\<close>

lemma hostname_lost:
  assumes "wf_addresses (sender_addresses (header p))"
    and "BACKSLASH \<notin> set (hostname (sender_addresses (header p)))"
  shows "\<exists>ok q'. fst (packet_deserialize q (PacketDeserializer_new (packet_text p))) = Inr (ok, q')
    \<and> hostname (sender_addresses (header q')) = ''''
    \<and> mac (sender_addresses (header q')) = mac (sender_addresses (header p))
    \<and> ip (sender_addresses (header q')) = ip (sender_addresses (header p))"
proof -
  have "header_ok (header p)"
    using assms by (simp add: header_ok_def escape_loop_no_backslash)
  then show ?thesis
    using packet_deserialize_text [of p "PacketDeserializer_new (packet_text p)" q] assms(2)
    by (auto simp: remaining_def PacketDeserializer_new_def header_view_def escape_loop_no_backslash)
qed

lemma hostname_lost_witness:
  "\<exists>ok q'. fst (packet_deserialize Packet_new
       (PacketDeserializer_new (packet_text (example_packet DISCOVERY)))) = Inr (ok, q')
    \<and> hostname (sender_addresses (header q')) = ''''"
  using hostname_lost [of "example_packet DISCOVERY" Packet_new]
  by (auto simp: example_packet_def wf_addresses_def is_mac_def is_ip_def BACKSLASH_def)

text \<open>
  The only packet type a receiver accepts is \<open>DISCOVERY\<close>: no text at all makes the
  deserialization report success with another type in the body.
\<close>

lemma only_discovery_accepted:
  assumes "packet_deserialize q d = (Inr (True, q'), d')"
  shows "packet_type (body q') = DISCOVERY"
  using assms by (rule accepted_is_discovery)

lemma only_discovery_accepted_witness:
  "packet_type (body (Packet_new\<lparr>header := header_view (header (example_packet DISCOVERY))\<rparr>)) = DISCOVERY"
proof -
  obtain r d' where "packet_deserialize Packet_new
      (PacketDeserializer_new (packet_text (example_packet DISCOVERY))) = (r, d')"
    by fastforce
  moreover from this have "r = Inr (True, Packet_new\<lparr>header := header_view (header (example_packet DISCOVERY))\<rparr>)"
    using packet_deserialize_text [OF example_packet_ok, of
        "PacketDeserializer_new (packet_text (example_packet DISCOVERY))" DISCOVERY Packet_new]
    by (simp add: remaining_def PacketDeserializer_new_def example_packet_def Packet_new_def PacketBody_new_def)
  ultimately show ?thesis using only_discovery_accepted by blast
qed

text \<open>An integer that was written is read back modulo \<open>2 ^ 16\<close>; no integer read is larger.\<close>

lemma read_uint_16_bits:
  "unat (ucast (ucast n :: uint16) :: uint64) = unat n mod 2 ^ 16
   \<and> fst (read_uint (PacketDeserializer_new (finish (write_uint n PacketSerializer_new)))) =
       Inr (of_nat (unat n mod 2 ^ 16))
   \<and> (read_uint d = (Inr m, d') \<longrightarrow> unat m < 2 ^ 16)"
proof -
  have small: "unat (ucast (ucast w :: uint16) :: uint64) = unat w mod 2 ^ 16" for w :: uint64
    using unat_less_length [of "ucast w :: uint16"]
    by (simp add: unsigned_ucast_eq unsigned_take_bit_eq take_bit_nat_def)
  have "(ucast (ucast n :: uint16) :: uint64) = of_nat (unat n mod 2 ^ 16)"
    by (subst small [symmetric]) simp
  then have "fst (read_uint (PacketDeserializer_new (finish (write_uint n PacketSerializer_new)))) =
       Inr (of_nat (unat n mod 2 ^ 16))"
    using uint_field.reads_own_text [of n] by (simp add: write_uint_def)
  moreover have "unat m < 2 ^ 16" if "read_uint d = (Inr m, d')"
    using that small
    by (auto simp: read_uint_def andthen_result_Inr case_sum_throw_Inr ret_def)
  ultimately show ?thesis using small by blast
qed

lemma read_uint_16_bits_witness:
  "fst (read_uint (PacketDeserializer_new (finish (write_uint 65541 PacketSerializer_new)))) = Inr 5"
  using read_uint_16_bits [of 65541] by simp

text \<open>
  The boolean field does not round trip: the writer renders \<open>0\<close> or \<open>1\<close>, the reader wants
  \<open>false\<close> or \<open>true\<close> and throws a pointer to an exception for anything else, so every boolean
  that was written fails to be read.
\<close>

lemma bool_field_never_read_back:
  "fst (read_bool (PacketDeserializer_new (finish (write_bool b PacketSerializer_new)))) =
    Inl (InvalidPacketPtrExc (InvalidPacketException ''invalid boolean field''))"
proof -
  let ?t = "to_string (if b then 1 else 0)"
  let ?d = "PacketDeserializer_new (finish (write_bool b PacketSerializer_new))"
  have r: "remaining ?d = ?t @ FIELD_END # []"
    by (simp add: remaining_def PacketDeserializer_new_def finish_def write_bool_def
        append_field_def PacketSerializer_new_def)
  have plain: "plain ?t"
    using digits_plain [of ?t 10] to_string_digits by blast
  have "?t \<noteq> ''false''" "?t \<noteq> ''true''"
    by (auto simp: to_string_def show_radix.simps digit_char_def)
  then show ?thesis
    using probe_field_end_plain [OF r plain] field_text_plain [OF r]
    by (simp add: read_bool_def andthen_Inr throw_def)
qed

text \<open>
  The position of the deserializer: the search for the end of a field always returns; it
  returns a position of the text that holds a semicolon, at or after the current one, or
  throws. A text without a semicolon after the position makes every reader throw.
\<close>

lemma probe_field_end_behaviour:
  assumes "des_i d \<le> length (des_text d)"
  shows "(\<forall>j d'. probe_field_end d = (Inr j, d') \<longrightarrow>
        d' = d \<and> des_i d \<le> j \<and> j < length (des_text d) \<and> des_text d ! j = FIELD_END)
    \<and> (FIELD_END \<notin> set (remaining d) \<longrightarrow>
        probe_field_end d = (Inl (InvalidPacketExc (InvalidPacketException ''missing field end ;'')), d)
        \<and> (\<exists>e. read_uint d = (Inl e, d)) \<and> (\<exists>e. read_string d = (Inl e, d))
        \<and> (\<exists>e. read_bool d = (Inl e, d)))"
proof -
  have found: "d' = d \<and> des_i d \<le> j \<and> j < length (des_text d) \<and> des_text d ! j = FIELD_END"
    if "probe_field_end d = (Inr j, d')" for j d'
    using that probe_bounds [OF assms, of False] probe_stops [of "des_text d" "des_i d" False]
    by (auto simp: probe_field_end_def Let_def split: if_splits)
  have missing: "probe_field_end d =
      (Inl (InvalidPacketExc (InvalidPacketException ''missing field end ;'')), d)"
    if none: "FIELD_END \<notin> set (remaining d)"
  proof (cases "probe_field_end d")
    case (Pair r d')
    show ?thesis
    proof (cases r)
      case (Inl e)
      then show ?thesis using Pair by (auto simp: probe_field_end_def Let_def split: if_splits)
    next
      case (Inr j)
      then have "des_text d ! j \<in> set (remaining d)"
        using found [of j d'] Pair assms
        by (metis remaining_def in_set_conv_nth le_add_diff_inverse length_drop nth_drop
            less_diff_conv2 diff_less_mono)
      then show ?thesis using found [of j d'] Pair Inr none by simp
    qed
  qed
  show ?thesis
    using found missing
    by (auto simp: read_uint_def read_string_def read_bool_def andthen_Inl)
qed

lemma probe_field_end_behaviour_witness:
  "probe_field_end (PacketDeserializer_new ''12'') =
    (Inl (InvalidPacketExc (InvalidPacketException ''missing field end ;'')), PacketDeserializer_new ''12'')"
  using probe_field_end_behaviour [of "PacketDeserializer_new ''12''"]
  by (simp add: PacketDeserializer_new_def remaining_def FIELD_END_def)

end
