(* ===== verification/Channel.thy ===== *)
theory Channel
  imports Prelude
begin

text \<open>
  The message channel of \<open>channel.h\<close>, many senders and one receiver, as its operations take
  effect one after the other: the queue and the state tag, the reference count the handles
  share, and the calls on the condition variable. The interleaving of the single steps of the
  operations is in the theory \<open>Channel_Steps\<close>.
\<close>

datatype StateTag = UP_TO_DATE | NEW_MESSAGE | TAG_DISCONNECTED

text \<open>
  \<open>use_count\<close> is the count of the \<open>shared_ptr\<close> all handles hold, \<open>notified\<close> the number of
  calls of \<open>notify_one\<close>.
\<close>

record 'a Mpsc =
  state_tag :: StateTag
  messages :: "'a list"
  use_count :: nat
  notified :: nat

text \<open>\<open>Channel::open\<close>: a new channel, held by one sender and one receiver.\<close>

definition Channel_open :: "'a Mpsc" where
  "Channel_open = \<lparr>state_tag = UP_TO_DATE, messages = [], use_count = 2, notified = 0\<rparr>"

text \<open>
  The copy constructor of a sender, and the move constructors: their parameter is a reference
  to a constant, so the \<open>shared_ptr\<close> in it is copied, not moved.
\<close>

definition Sender_copy :: "'a Mpsc \<Rightarrow> 'a Mpsc" where
  "Sender_copy c = c\<lparr>use_count := use_count c + 1\<rparr>"

definition Sender_move :: "'a Mpsc \<Rightarrow> 'a Mpsc" where
  "Sender_move c = c\<lparr>use_count := use_count c + 1\<rparr>"

definition Receiver_move :: "'a Mpsc \<Rightarrow> 'a Mpsc" where
  "Receiver_move c = c\<lparr>use_count := use_count c + 1\<rparr>"

text \<open>The destructors; the handle's own reference is released after the body.\<close>

definition Sender_drop :: "'a Mpsc \<Rightarrow> 'a Mpsc" where
  "Sender_drop c =
     (let c' = (if use_count c \<le> 2
                then c\<lparr>state_tag := TAG_DISCONNECTED, notified := notified c + 1\<rparr> else c)
      in c'\<lparr>use_count := use_count c' - 1\<rparr>)"

definition Receiver_drop :: "'a Mpsc \<Rightarrow> 'a Mpsc" where
  "Receiver_drop c =
     (let c' = c\<lparr>state_tag := TAG_DISCONNECTED\<rparr> in c'\<lparr>use_count := use_count c' - 1\<rparr>)"

definition send :: "'a \<Rightarrow> 'a Mpsc \<Rightarrow> bool \<times> 'a Mpsc" where
  "send message c =
     (let c1 = c\<lparr>messages := messages c @ [message]\<rparr> in
      if state_tag c1 = TAG_DISCONNECTED then (False, c1)
      else (True, c1\<lparr>state_tag := NEW_MESSAGE, notified := notified c1 + 1\<rparr>))"

text \<open>
  \<open>receive\<close> returns a message or an empty optional, waits on the condition variable, or, if
  the tag announces a message and the queue has none, reads the front of an empty queue.
\<close>

datatype 'a received = Received 'a | NoProducer | Blocked | FrontOfEmpty

definition receive :: "'a Mpsc \<Rightarrow> 'a received \<times> 'a Mpsc" where
  "receive c =
     (case state_tag c of
        NEW_MESSAGE \<Rightarrow>
          (case messages c of
             [] \<Rightarrow> (FrontOfEmpty, c)
           | m # ms \<Rightarrow>
               (let c1 = c\<lparr>messages := ms\<rparr> in
                if messages c1 = [] then (Received m, c1\<lparr>state_tag := UP_TO_DATE\<rparr>)
                else (Received m, c1)))
      | UP_TO_DATE \<Rightarrow> (Blocked, c)
      | TAG_DISCONNECTED \<Rightarrow> (NoProducer, c))"

section \<open>The tag and the queue\<close>

definition chan_ok :: "'a Mpsc \<Rightarrow> bool" where
  "chan_ok c \<longleftrightarrow> (state_tag c = NEW_MESSAGE \<longrightarrow> messages c \<noteq> [])
     \<and> (state_tag c = UP_TO_DATE \<longrightarrow> messages c = [])"

lemmas handle_defs = Sender_copy_def Sender_move_def Receiver_move_def Sender_drop_def
  Receiver_drop_def Let_def

lemma chan_ok_open: "chan_ok Channel_open"
  by (simp add: chan_ok_def Channel_open_def)

lemma chan_ok_handles:
  assumes "chan_ok c"
  shows "chan_ok (Sender_copy c)" "chan_ok (Sender_move c)" "chan_ok (Receiver_move c)"
    "chan_ok (Sender_drop c)" "chan_ok (Receiver_drop c)"
  using assms by (simp_all add: chan_ok_def handle_defs)

lemma chan_ok_send: "chan_ok c \<Longrightarrow> chan_ok (snd (send m c))"
  by (simp add: chan_ok_def send_def Let_def)

lemma chan_ok_receive: "chan_ok c \<Longrightarrow> chan_ok (snd (receive c))"
  by (auto simp: chan_ok_def receive_def Let_def split: StateTag.split list.split)

section \<open>The contract of a queue of messages\<close>

text \<open>
  What a thread relies on while the channel is connected: \<open>contents\<close> are the messages sent
  and not yet received.
\<close>

locale message_queue =
  fixes snd_op :: "'a \<Rightarrow> 'c \<Rightarrow> bool \<times> 'c"
    and rcv_op :: "'c \<Rightarrow> 'a received \<times> 'c"
    and contents :: "'c \<Rightarrow> 'a list"
    and connected :: "'c \<Rightarrow> bool"
  assumes send_connected: "connected c \<Longrightarrow>
      fst (snd_op m c) \<and> connected (snd (snd_op m c)) \<and> contents (snd (snd_op m c)) = contents c @ [m]"
    and receive_first: "connected c \<Longrightarrow> contents c = m # ms \<Longrightarrow>
      fst (rcv_op c) = Received m \<and> connected (snd (rcv_op c)) \<and> contents (snd (rcv_op c)) = ms"
    and receive_empty: "connected c \<Longrightarrow> contents c = [] \<Longrightarrow> rcv_op c = (Blocked, c)"
begin

primrec send_all :: "'a list \<Rightarrow> 'c \<Rightarrow> 'c" where
  "send_all [] c = c"
| "send_all (m # ms) c = send_all ms (snd (snd_op m c))"

primrec receive_n :: "nat \<Rightarrow> 'c \<Rightarrow> 'a received list \<times> 'c" where
  "receive_n 0 c = ([], c)"
| "receive_n (Suc n) c =
     (case rcv_op c of (r, c') \<Rightarrow> (case receive_n n c' of (rs, c'') \<Rightarrow> (r # rs, c'')))"

lemma send_all_contents:
  "connected c \<Longrightarrow> connected (send_all ms c) \<and> contents (send_all ms c) = contents c @ ms"
  by (induction ms arbitrary: c) (simp_all add: send_connected)

lemma receive_n_contents:
  "connected c \<Longrightarrow> contents c = ms @ rest \<Longrightarrow>
    fst (receive_n (length ms) c) = map Received ms
    \<and> connected (snd (receive_n (length ms) c)) \<and> contents (snd (receive_n (length ms) c)) = rest"
proof (induction ms arbitrary: c)
  case (Cons m ms)
  then have r: "fst (rcv_op c) = Received m" "connected (snd (rcv_op c))"
    "contents (snd (rcv_op c)) = ms @ rest"
    using receive_first [of c m "ms @ rest"] by simp_all
  then show ?case using Cons.IH [OF r(2,3)] by (simp add: split_beta)
qed simp

lemma fifo:
  assumes "connected c" and "contents c = []"
  shows "fst (receive_n (length ms) (send_all ms c)) = map Received ms
    \<and> fst (rcv_op (snd (receive_n (length ms) (send_all ms c)))) = Blocked"
  using receive_n_contents [of "send_all ms c" ms "[]"] send_all_contents [OF assms(1), of ms]
    assms(2) receive_empty by auto

end

text \<open>The channel keeps the contract as long as its tag is not the disconnected one.\<close>

definition connected :: "'a Mpsc \<Rightarrow> bool" where
  "connected c \<longleftrightarrow> chan_ok c \<and> state_tag c \<noteq> TAG_DISCONNECTED"

interpretation mpsc: message_queue send receive messages connected
proof
  fix c :: "'a Mpsc" and m ms
  show "connected c \<Longrightarrow>
      fst (send m c) \<and> connected (snd (send m c)) \<and> messages (snd (send m c)) = messages c @ [m]"
    by (simp add: connected_def chan_ok_def send_def Let_def)
  show "connected c \<Longrightarrow> messages c = m # ms \<Longrightarrow>
      fst (receive c) = Received m \<and> connected (snd (receive c)) \<and> messages (snd (receive c)) = ms"
    by (cases "state_tag c") (simp_all add: connected_def chan_ok_def receive_def Let_def)
  show "connected c \<Longrightarrow> messages c = [] \<Longrightarrow> receive c = (Blocked, c)"
    by (cases "state_tag c") (simp_all add: connected_def chan_ok_def receive_def)
qed

text \<open>The operations on a channel that stays connected.\<close>

definition channel_steady :: "'a Mpsc \<Rightarrow> nat \<Rightarrow> bool" where
  "channel_steady c n \<longleftrightarrow> chan_ok c \<and> state_tag c \<noteq> TAG_DISCONNECTED \<and> use_count c = n"

lemma steady_send:
  "channel_steady c n \<Longrightarrow> channel_steady (snd (send m c)) n \<and> messages (snd (send m c)) = messages c @ [m]"
  by (simp add: channel_steady_def chan_ok_def send_def Let_def)

lemma steady_drop: "channel_steady c (Suc n) \<Longrightarrow> 2 \<le> n \<Longrightarrow>
    channel_steady (Sender_drop c) n \<and> messages (Sender_drop c) = messages c"
  by (simp add: channel_steady_def chan_ok_def Sender_drop_def Let_def)

lemma steady_receive:
  "channel_steady c n \<Longrightarrow> receive c = (Received m, c') \<Longrightarrow>
    channel_steady c' n \<and> messages c = m # messages c'"
  by (auto simp: channel_steady_def chan_ok_def receive_def Let_def
      split: StateTag.splits list.splits if_splits)

section \<open>Histories\<close>

datatype 'a chan_op = CopySender | MoveSender | MoveReceiver | DropSender | DropReceiver
  | Send 'a | Receive

fun chan_step :: "'a chan_op \<Rightarrow> 'a Mpsc \<Rightarrow> 'a Mpsc" where
  "chan_step CopySender c = Sender_copy c"
| "chan_step MoveSender c = Sender_move c"
| "chan_step MoveReceiver c = Receiver_move c"
| "chan_step DropSender c = Sender_drop c"
| "chan_step DropReceiver c = Receiver_drop c"
| "chan_step (Send m) c = snd (send m c)"
| "chan_step Receive c = snd (receive c)"

definition chan_run :: "'a chan_op list \<Rightarrow> 'a Mpsc \<Rightarrow> 'a Mpsc" where
  "chan_run ops c = foldl (\<lambda>c p. chan_step p c) c ops"

lemma chan_ok_step: "chan_ok c \<Longrightarrow> chan_ok (chan_step p c)"
  by (cases p) (simp_all add: chan_ok_handles chan_ok_send chan_ok_receive)

lemma chan_ok_run: "chan_ok c \<Longrightarrow> chan_ok (chan_run ops c)"
  by (induction ops arbitrary: c) (simp_all add: chan_run_def chan_ok_step)

lemma disconnected_step:
  "state_tag c = TAG_DISCONNECTED \<Longrightarrow> state_tag (chan_step p c) = TAG_DISCONNECTED"
  by (cases p) (simp_all add: handle_defs send_def receive_def)

lemma disconnected_run:
  "state_tag c = TAG_DISCONNECTED \<Longrightarrow> state_tag (chan_run ops c) = TAG_DISCONNECTED"
  by (induction ops arbitrary: c) (simp_all add: chan_run_def disconnected_step)

section \<open>Properties\<close>

text \<open>
  On a connected channel that holds no message, the messages sent, whatever they are, are
  received in their order, each once, and the receiver then waits.
\<close>

lemma channel_fifo:
  assumes "connected c" and "messages c = []"
  shows "fst (mpsc.receive_n (length ms) (mpsc.send_all ms c)) = map Received ms
    \<and> fst (receive (snd (mpsc.receive_n (length ms) (mpsc.send_all ms c)))) = Blocked"
  using assms by (rule mpsc.fifo)

lemma channel_fifo_witness:
  "fst (mpsc.receive_n 3 (mpsc.send_all ''abc'' Channel_open)) =
    [Received CHR ''a'', Received CHR ''b'', Received CHR ''c'']"
  using channel_fifo [of Channel_open "''abc''"]
  by (simp add: connected_def chan_ok_open) (simp add: Channel_open_def numeral_3_eq_3)

text \<open>
  Whatever the history of a channel, when its operations take effect one after the other,
  the tag says whether there is a message: the receiver never reads the front of an empty
  queue, and it never waits while a message is queued.
\<close>

lemma channel_invariant:
  "chan_ok (chan_run ops Channel_open)
   \<and> fst (receive (chan_run ops Channel_open)) \<noteq> FrontOfEmpty
   \<and> \<not> (fst (receive (chan_run ops Channel_open)) = Blocked
        \<and> messages (chan_run ops Channel_open) \<noteq> [])"
proof -
  have "chan_ok (chan_run ops Channel_open)" by (rule chan_ok_run [OF chan_ok_open])
  then show ?thesis
    by (auto simp: chan_ok_def receive_def Let_def split: StateTag.split list.split)
qed

text \<open>
  Once disconnected, a channel stays so: every later \<open>receive\<close> returns the empty optional,
  also while messages that were sent before are still queued, and every later \<open>send\<close> returns
  false, although it still appends its message.
\<close>

lemma disconnection_is_final:
  fixes ops :: "'a chan_op list"
  assumes "state_tag c = TAG_DISCONNECTED"
  defines "c' \<equiv> chan_run ops c"
  shows "receive c' = (NoProducer, c') \<and> fst (send m c') = False
    \<and> messages (snd (send m c')) = messages c' @ [m]"
  using disconnected_run [OF assms(1), of ops] by (simp add: c'_def receive_def send_def)

lemma disconnection_is_final_witness:
  "fst (receive (chan_run [] (chan_run [Send (1::nat), DropSender] Channel_open))) = NoProducer
   \<and> messages (chan_run [Send (1::nat), DropSender] Channel_open) = [1]"
proof -
  have tag: "state_tag (chan_run [Send (1::nat), DropSender] Channel_open) = TAG_DISCONNECTED"
    "messages (chan_run [Send (1::nat), DropSender] Channel_open) = [1]"
    by (simp_all add: chan_run_def send_def handle_defs Channel_open_def)
  show ?thesis using disconnection_is_final [OF tag(1), of "[]"] tag(2) by simp
qed

text \<open>
  The senders a thread was given do not tell the receiver when they go away. While the
  handles in the variables \<open>channel\<close>, \<open>sender\<close> and \<open>receiver\<close> of the main thread live, which
  are four, no number of copies made and dropped by other threads disconnects the channel: a
  receiver that waits for the last message of a finished thread waits for ever.
\<close>

lemma dropped_copies_do_not_disconnect:
  fixes k :: nat
  defines "c \<equiv> Receiver_move (Sender_move (Channel_open :: 'a Mpsc))"
  shows "use_count c = 4
    \<and> (Sender_drop ^^ k) ((Sender_copy ^^ k) c) = c
    \<and> receive ((Sender_drop ^^ k) ((Sender_copy ^^ k) c)) = (Blocked, c)"
proof -
  have copies: "(Sender_copy ^^ k) c' = c'\<lparr>use_count := use_count c' + k\<rparr>" for k and c' :: "'a Mpsc"
    by (induction k) (simp_all add: Sender_copy_def)
  have drops: "4 \<le> use_count c' \<Longrightarrow>
      (Sender_drop ^^ k) (c'\<lparr>use_count := use_count c' + k\<rparr>) = c'" for k and c' :: "'a Mpsc"
    by (induction k) (simp_all add: funpow_Suc_right Sender_drop_def del: funpow.simps)
  have c: "use_count c = 4" "state_tag c = UP_TO_DATE"
    by (simp_all add: c_def handle_defs Channel_open_def)
  then show ?thesis using drops [of c k] by (simp add: copies receive_def)
qed

end
