(* ===== verification/Channel_Steps.thy ===== *)
theory Channel_Steps
  imports Channel
begin

text \<open>
  The channel as threads run it: any number of sending threads, the receiving thread, and
  destructors of handles, which write the tag without taking the lock. Every step is one
  access to the shared state: the mutex, the queue, the atomic tag, the condition variable.
\<close>

section \<open>States\<close>

text \<open>Where a thread stands inside \<open>Sender::send\<close>.\<close>

datatype 'a sender_pc =
    SIdle
  | SLocked 'a
  | SPushed
  | SConnected
  | SNotify
  | SUnlock bool

text \<open>
  Where the receiving thread stands inside \<open>Receiver::receive\<close>: \<open>RUpToDate\<close> is after the
  \<open>switch\<close> took the case \<open>UP_TO_DATE\<close>, \<open>RWillWait\<close> after the predicate of \<open>wait\<close> was false,
  \<open>RWaiting\<close> blocked on the condition variable, \<open>RNotified\<close> woken and about to lock again.
\<close>

datatype 'a receiver_pc =
    RIdle
  | RLocked
  | RUpToDate
  | RWillWait
  | RWaiting
  | RNotified
  | RTake
  | RTaken 'a
  | REmptied 'a
  | RUnlock 'a
  | RReturned "'a option"

datatype holder = HSender nat | HReceiver

record 'a chan =
  tag :: StateTag
  queue :: "'a list"
  mutex :: "holder option"
  sender :: "nat \<Rightarrow> 'a sender_pc"
  receiver :: "'a receiver_pc"
  refs :: nat
  leaving :: nat
  notifying :: nat
  dropped :: bool
  pushed :: "'a list"
  popped :: "'a list"

text \<open>
  \<open>refs\<close> is the reference count of the handles, two when the channel is opened;
  \<open>leaving\<close> counts the destructors that have read a count above two and not yet released their
  handle, \<open>notifying\<close> those that have written the tag and not yet notified; \<open>dropped\<close>,
  \<open>pushed\<close> and \<open>popped\<close> record what happened: whether a destructor wrote the tag, and the
  messages put into and taken out of the queue.
\<close>

definition chan_init :: "'a chan" where
  "chan_init = \<lparr>tag = UP_TO_DATE, queue = [], mutex = None, sender = (\<lambda>_. SIdle),
     receiver = RIdle, refs = 2, leaving = 0, notifying = 0, dropped = False, pushed = [], popped = []\<rparr>"

definition at_sender :: "nat \<Rightarrow> 'a sender_pc \<Rightarrow> 'a chan \<Rightarrow> 'a chan" where
  "at_sender i pc c = c\<lparr>sender := (sender c)(i := pc)\<rparr>"

text \<open>
  A handle is copied or destroyed only while no destructor runs for it, so the handles are more than
  the running destructors. \<open>notify_one\<close> wakes the receiver if it is waiting and is lost otherwise.
\<close>

definition notify_one :: "'a chan \<Rightarrow> 'a chan" where
  "notify_one c = (if receiver c = RWaiting then c\<lparr>receiver := RNotified\<rparr> else c)"

section \<open>Steps\<close>

inductive chan_steps :: "'a chan \<Rightarrow> 'a chan \<Rightarrow> bool" where
  send_lock: "sender c i = SIdle \<Longrightarrow> mutex c = None \<Longrightarrow>
    chan_steps c (at_sender i (SLocked m) (c\<lparr>mutex := Some (HSender i)\<rparr>))"
| send_push: "sender c i = SLocked m \<Longrightarrow>
    chan_steps c (at_sender i SPushed (c\<lparr>queue := queue c @ [m], pushed := pushed c @ [m]\<rparr>))"
| send_disconnected: "sender c i = SPushed \<Longrightarrow> tag c = TAG_DISCONNECTED \<Longrightarrow>
    chan_steps c (at_sender i (SUnlock False) c)"
| send_connected: "sender c i = SPushed \<Longrightarrow> tag c \<noteq> TAG_DISCONNECTED \<Longrightarrow>
    chan_steps c (at_sender i SConnected c)"
| send_tag: "sender c i = SConnected \<Longrightarrow>
    chan_steps c (at_sender i SNotify (c\<lparr>tag := NEW_MESSAGE\<rparr>))"
| send_notify: "sender c i = SNotify \<Longrightarrow>
    chan_steps c (at_sender i (SUnlock True) (notify_one c))"
| send_unlock: "sender c i = SUnlock b \<Longrightarrow>
    chan_steps c (at_sender i SIdle (c\<lparr>mutex := None\<rparr>))"
| copy_handle: "leaving c + notifying c < refs c \<Longrightarrow> chan_steps c (c\<lparr>refs := refs c + 1\<rparr>)"
| drop_reads: "leaving c + notifying c < refs c \<Longrightarrow> 2 < refs c \<Longrightarrow>
    chan_steps c (c\<lparr>leaving := leaving c + 1\<rparr>)"
| drop_other: "0 < leaving c \<Longrightarrow> chan_steps c (c\<lparr>leaving := leaving c - 1, refs := refs c - 1\<rparr>)"
| drop_sender: "leaving c + notifying c < refs c \<Longrightarrow> refs c \<le> 2 \<Longrightarrow>
    chan_steps c (c\<lparr>tag := TAG_DISCONNECTED, dropped := True, notifying := notifying c + 1\<rparr>)"
| drop_notify: "0 < notifying c \<Longrightarrow>
    chan_steps c (notify_one (c\<lparr>notifying := notifying c - 1, refs := refs c - 1\<rparr>))"
| drop_receiver: "leaving c + notifying c < refs c \<Longrightarrow>
    chan_steps c (c\<lparr>tag := TAG_DISCONNECTED, dropped := True, refs := refs c - 1\<rparr>)"
| receive_lock: "receiver c = RIdle \<Longrightarrow> mutex c = None \<Longrightarrow>
    chan_steps c (c\<lparr>receiver := RLocked, mutex := Some HReceiver\<rparr>)"
| receive_new: "receiver c = RLocked \<Longrightarrow> tag c = NEW_MESSAGE \<Longrightarrow>
    chan_steps c (c\<lparr>receiver := RTake\<rparr>)"
| receive_up_to_date: "receiver c = RLocked \<Longrightarrow> tag c = UP_TO_DATE \<Longrightarrow>
    chan_steps c (c\<lparr>receiver := RUpToDate\<rparr>)"
| receive_disconnected: "receiver c = RLocked \<Longrightarrow> tag c = TAG_DISCONNECTED \<Longrightarrow>
    chan_steps c (c\<lparr>receiver := RReturned None, mutex := None\<rparr>)"
| receive_front_pop: "receiver c = RTake \<Longrightarrow> queue c = m # ms \<Longrightarrow>
    chan_steps c (c\<lparr>receiver := RTaken m, queue := ms, popped := popped c @ [m]\<rparr>)"
| receive_empty: "receiver c = RTaken m \<Longrightarrow> queue c = [] \<Longrightarrow>
    chan_steps c (c\<lparr>receiver := REmptied m\<rparr>)"
| receive_more: "receiver c = RTaken m \<Longrightarrow> queue c \<noteq> [] \<Longrightarrow>
    chan_steps c (c\<lparr>receiver := RUnlock m\<rparr>)"
| receive_tag: "receiver c = REmptied m \<Longrightarrow>
    chan_steps c (c\<lparr>receiver := RUnlock m, tag := UP_TO_DATE\<rparr>)"
| receive_unlock: "receiver c = RUnlock m \<Longrightarrow>
    chan_steps c (c\<lparr>receiver := RReturned (Some m), mutex := None\<rparr>)"
| wait_not_needed: "receiver c = RUpToDate \<Longrightarrow> tag c \<noteq> UP_TO_DATE \<Longrightarrow>
    chan_steps c (c\<lparr>receiver := RIdle, mutex := None\<rparr>)"
| wait_needed: "receiver c = RUpToDate \<Longrightarrow> tag c = UP_TO_DATE \<Longrightarrow>
    chan_steps c (c\<lparr>receiver := RWillWait\<rparr>)"
| wait_block: "receiver c = RWillWait \<Longrightarrow>
    chan_steps c (c\<lparr>receiver := RWaiting, mutex := None\<rparr>)"
| wait_spurious: "receiver c = RWaiting \<Longrightarrow> chan_steps c (c\<lparr>receiver := RNotified\<rparr>)"
| wait_relock: "receiver c = RNotified \<Longrightarrow> mutex c = None \<Longrightarrow>
    chan_steps c (c\<lparr>receiver := RUpToDate, mutex := Some HReceiver\<rparr>)"
| receive_again: "receiver c = RReturned r \<Longrightarrow> chan_steps c (c\<lparr>receiver := RIdle\<rparr>)"

inductive_cases chan_stepsE: "chan_steps c d"

inductive chan_reachable :: "'a chan \<Rightarrow> bool" where
  start: "chan_reachable chan_init"
| step: "chan_reachable c \<Longrightarrow> chan_steps c d \<Longrightarrow> chan_reachable d"

section \<open>The invariant\<close>

definition sender_holds :: "'a sender_pc \<Rightarrow> bool" where
  "sender_holds pc \<longleftrightarrow> pc \<noteq> SIdle"

definition receiver_holds :: "'a receiver_pc \<Rightarrow> bool" where
  "receiver_holds pc \<longleftrightarrow> (case pc of
     RLocked \<Rightarrow> True | RUpToDate \<Rightarrow> True | RWillWait \<Rightarrow> True | RTake \<Rightarrow> True | RTaken _ \<Rightarrow> True
   | REmptied _ \<Rightarrow> True | RUnlock _ \<Rightarrow> True | _ \<Rightarrow> False)"

lemma receiver_holds_simps [simp]:
  "\<not> receiver_holds RIdle" "receiver_holds RLocked" "receiver_holds RUpToDate"
  "receiver_holds RWillWait" "\<not> receiver_holds RWaiting" "\<not> receiver_holds RNotified"
  "receiver_holds RTake" "receiver_holds (RTaken m)" "receiver_holds (REmptied m)"
  "receiver_holds (RUnlock m)" "\<not> receiver_holds (RReturned r)"
  by (simp_all add: receiver_holds_def)

text \<open>
  The mutex is held by the thread that is inside its critical section; a message announced by
  the tag is in the queue, unless the receiver has just taken the last one and not yet reset
  the tag; and a sender that has pushed its message still finds a message in the queue.
\<close>

definition mutex_inv :: "'a chan \<Rightarrow> bool" where
  "mutex_inv c \<longleftrightarrow> (\<forall>i. sender c i \<noteq> SIdle \<longleftrightarrow> mutex c = Some (HSender i))
     \<and> (receiver_holds (receiver c) \<longleftrightarrow> mutex c = Some HReceiver)"

definition queue_inv :: "'a chan \<Rightarrow> bool" where
  "queue_inv c \<longleftrightarrow>
     (tag c = NEW_MESSAGE \<longrightarrow> queue c \<noteq> [] \<or> (\<exists>m. receiver c = RTaken m \<or> receiver c = REmptied m))
     \<and> (receiver c = RTake \<longrightarrow> queue c \<noteq> [])
     \<and> (\<forall>i. sender c i = SPushed \<or> sender c i = SConnected \<longrightarrow> queue c \<noteq> [])
     \<and> (\<forall>m. receiver c = REmptied m \<longrightarrow> queue c = [])
     \<and> pushed c = popped c @ queue c"

lemmas step_defs = at_sender_def notify_one_def

lemma sender_heldD:
  assumes "mutex_inv c"
  shows "sender c i = SLocked m \<Longrightarrow> mutex c = Some (HSender i)"
    "sender c i = SPushed \<Longrightarrow> mutex c = Some (HSender i)"
    "sender c i = SConnected \<Longrightarrow> mutex c = Some (HSender i)"
    "sender c i = SNotify \<Longrightarrow> mutex c = Some (HSender i)"
    "sender c i = SUnlock b \<Longrightarrow> mutex c = Some (HSender i)"
proof -
  have "sender c i \<noteq> SIdle \<Longrightarrow> mutex c = Some (HSender i)"
    using assms by (simp add: mutex_inv_def)
  then show "sender c i = SLocked m \<Longrightarrow> mutex c = Some (HSender i)"
    "sender c i = SPushed \<Longrightarrow> mutex c = Some (HSender i)"
    "sender c i = SConnected \<Longrightarrow> mutex c = Some (HSender i)"
    "sender c i = SNotify \<Longrightarrow> mutex c = Some (HSender i)"
    "sender c i = SUnlock b \<Longrightarrow> mutex c = Some (HSender i)"
    by simp_all
qed

lemma receiver_heldD:
  assumes "mutex_inv c"
  shows "receiver c = RLocked \<Longrightarrow> mutex c = Some HReceiver"
    "receiver c = RUpToDate \<Longrightarrow> mutex c = Some HReceiver"
    "receiver c = RWillWait \<Longrightarrow> mutex c = Some HReceiver"
    "receiver c = RTake \<Longrightarrow> mutex c = Some HReceiver"
    "receiver c = RTaken m \<Longrightarrow> mutex c = Some HReceiver"
    "receiver c = REmptied m \<Longrightarrow> mutex c = Some HReceiver"
    "receiver c = RUnlock m \<Longrightarrow> mutex c = Some HReceiver"
  using assms by (auto simp: mutex_inv_def)

lemmas heldD = sender_heldD receiver_heldD

lemma senders_idle:
  assumes "mutex_inv c" and "receiver_holds (receiver c)"
  shows "sender c i = SIdle"
  using assms by (simp add: mutex_inv_def) (metis holder.distinct(1) option.inject)

lemma mutex_inv_step:
  assumes "chan_steps c d" and inv: "mutex_inv c"
  shows "mutex_inv d"
proof -
  have s: "sender c i = SIdle \<longleftrightarrow> mutex c \<noteq> Some (HSender i)" for i
    using inv by (auto simp: mutex_inv_def)
  have r: "receiver_holds (receiver c) \<longleftrightarrow> mutex c = Some HReceiver"
    using inv by (simp add: mutex_inv_def)
  show ?thesis
    using assms(1)
    by cases (use r in \<open>auto simp: mutex_inv_def step_defs s dest: heldD [OF inv]\<close>)
qed

lemma queue_inv_step:
  assumes "chan_steps c d" and inv: "mutex_inv c" and q: "queue_inv c"
  shows "queue_inv d"
proof -
  have idle: "receiver c = RTake \<Longrightarrow> sender c i = SIdle"
    "receiver c = REmptied m \<Longrightarrow> sender c i = SIdle" for i m
    using senders_idle [OF inv] by simp_all
  show ?thesis
    using assms(1)
    by cases (use q in \<open>auto simp: queue_inv_def step_defs idle dest: heldD [OF inv] idle\<close>)
qed

text \<open>Every running destructor has a handle of its own.\<close>

lemma handles_reachable: "chan_reachable c \<Longrightarrow> leaving c + notifying c \<le> refs c"
proof (induction rule: chan_reachable.induct)
  case start
  show ?case by (simp add: chan_init_def)
next
  case (step c d)
  from step.hyps(2) step.IH show ?case by cases (auto simp: step_defs)
qed

lemma reachable_inv: "chan_reachable c \<Longrightarrow> mutex_inv c \<and> queue_inv c"
proof (induction rule: chan_reachable.induct)
  case start
  show ?case by (simp add: mutex_inv_def queue_inv_def chan_init_def)
next
  case (step c d)
  then show ?case using mutex_inv_step queue_inv_step by blast
qed

section \<open>Runs\<close>

lemma reachable_by: "chan_reachable c \<Longrightarrow> chan_steps c d' \<Longrightarrow> d' = d \<Longrightarrow> chan_reachable d"
  using chan_reachable.step by blast

text \<open>The states of a channel with no thread inside an operation but a waiting receiver.\<close>

definition waits_forever :: "'a chan \<Rightarrow> bool" where
  "waits_forever c \<longleftrightarrow> receiver c = RWaiting \<and> mutex c = None \<and> notifying c = 0
     \<and> (\<forall>i. sender c i = SIdle)"

text \<open>A state in which the sender 0 and the receiver are the only threads.\<close>

definition chan_at :: "StateTag \<Rightarrow> 'a list \<Rightarrow> holder option \<Rightarrow> 'a sender_pc \<Rightarrow> 'a receiver_pc \<Rightarrow> nat \<Rightarrow> nat \<Rightarrow>
    bool \<Rightarrow> 'a list \<Rightarrow> 'a list \<Rightarrow> 'a chan" where
  "chan_at t q mx s0 rc rf n dr pu po = \<lparr>tag = t, queue = q, mutex = mx,
     sender = (\<lambda>_. SIdle)(0 := s0), receiver = rc, refs = rf, leaving = 0, notifying = n, dropped = dr,
     pushed = pu, popped = po\<rparr>"

lemma start_at: "chan_reachable (chan_at UP_TO_DATE [] None SIdle RIdle 2 0 False [] [])"
  using chan_reachable.start by (simp add: chan_init_def chan_at_def fun_upd_idem)

lemmas at_defs = step_defs chan_at_def

lemma last_message_taken:
  "chan_reachable (chan_at NEW_MESSAGE [] (Some HReceiver) SIdle (REmptied m) 2 0 False [m] [m])"
proof -
  have "chan_reachable (chan_at UP_TO_DATE [] (Some (HSender 0)) (SLocked m) RIdle 2 0 False [] [])"
    by (rule reachable_by [OF start_at chan_steps.send_lock [where i = 0 and m = m]]) (simp_all add: at_defs)
  then have "chan_reachable (chan_at UP_TO_DATE [m] (Some (HSender 0)) SPushed RIdle 2 0 False [m] [])"
    by (rule reachable_by [OF _ chan_steps.send_push [where i = 0 and m = m]]) (simp_all add: at_defs)
  then have "chan_reachable (chan_at UP_TO_DATE [m] (Some (HSender 0)) SConnected RIdle 2 0 False [m] [])"
    by (rule reachable_by [OF _ chan_steps.send_connected [where i = 0]]) (simp_all add: at_defs)
  then have "chan_reachable (chan_at NEW_MESSAGE [m] (Some (HSender 0)) SNotify RIdle 2 0 False [m] [])"
    by (rule reachable_by [OF _ chan_steps.send_tag [where i = 0]]) (simp_all add: at_defs)
  then have "chan_reachable (chan_at NEW_MESSAGE [m] (Some (HSender 0)) (SUnlock True) RIdle 2 0 False [m] [])"
    by (rule reachable_by [OF _ chan_steps.send_notify [where i = 0]]) (simp_all add: at_defs)
  then have "chan_reachable (chan_at NEW_MESSAGE [m] None SIdle RIdle 2 0 False [m] [])"
    by (rule reachable_by [OF _ chan_steps.send_unlock [where i = 0]]) (simp_all add: at_defs)
  then have "chan_reachable (chan_at NEW_MESSAGE [m] (Some HReceiver) SIdle RLocked 2 0 False [m] [])"
    by (rule reachable_by [OF _ chan_steps.receive_lock]) (simp_all add: at_defs)
  then have "chan_reachable (chan_at NEW_MESSAGE [m] (Some HReceiver) SIdle RTake 2 0 False [m] [])"
    by (rule reachable_by [OF _ chan_steps.receive_new]) (simp_all add: at_defs)
  then have "chan_reachable (chan_at NEW_MESSAGE [] (Some HReceiver) SIdle (RTaken m) 2 0 False [m] [m])"
    by (rule reachable_by [OF _ chan_steps.receive_front_pop [where m = m]]) (simp_all add: at_defs)
  then show "chan_reachable (chan_at NEW_MESSAGE [] (Some HReceiver) SIdle (REmptied m) 2 0 False [m] [m])"
    by (rule reachable_by [OF _ chan_steps.receive_empty [where m = m]]) (simp_all add: at_defs)
qed

text \<open>A receiver that waits on the channel from the beginning.\<close>

lemma waiting_reachable: "chan_reachable (chan_at UP_TO_DATE [] None SIdle RWaiting 2 0 False [] [])"
proof -
  have "chan_reachable (chan_at UP_TO_DATE [] (Some HReceiver) SIdle RLocked 2 0 False [] [])"
    by (rule reachable_by [OF start_at chan_steps.receive_lock]) (simp_all add: at_defs)
  then have "chan_reachable (chan_at UP_TO_DATE [] (Some HReceiver) SIdle RUpToDate 2 0 False [] [])"
    by (rule reachable_by [OF _ chan_steps.receive_up_to_date]) (simp_all add: at_defs)
  then have "chan_reachable (chan_at UP_TO_DATE [] (Some HReceiver) SIdle RWillWait 2 0 False [] [])"
    by (rule reachable_by [OF _ chan_steps.wait_needed]) (simp_all add: at_defs)
  then show ?thesis
    by (rule reachable_by [OF _ chan_steps.wait_block]) (simp_all add: at_defs)
qed

section \<open>Properties\<close>

text \<open>
  C24: In every state the threads can reach, at most one of them is inside its critical section,
  the receiver never reads the front of an empty queue, and the messages taken out of the
  queue are the first ones put in, in their order, the others still being queued.
\<close>

theorem channel_steps_safe:
  assumes "chan_reachable c"
  shows "(sender c i \<noteq> SIdle \<and> sender c j \<noteq> SIdle \<longrightarrow> i = j)
    \<and> (receiver_holds (receiver c) \<longrightarrow> sender c i = SIdle)
    \<and> (receiver c = RTake \<longrightarrow> queue c \<noteq> [])
    \<and> pushed c = popped c @ queue c"
proof -
  have m: "mutex_inv c" and q: "queue_inv c" using reachable_inv [OF assms] by simp_all
  have "i = j" if "sender c i \<noteq> SIdle" "sender c j \<noteq> SIdle"
    using that m by (auto simp: mutex_inv_def)
  then show ?thesis using senders_idle [OF m, of i] q by (auto simp: queue_inv_def)
qed

theorem channel_steps_safe_witness:
  "(let c = chan_at NEW_MESSAGE [] (Some HReceiver) SIdle (REmptied (7 :: nat)) 2 0 False [7] [7]
    in sender c 3 = SIdle \<and> pushed c = popped c @ queue c)"
  using channel_steps_safe [OF last_message_taken [of "7 :: nat"], of 3 3] by (simp add: chan_at_def)



text \<open>
  C39: The disconnection can be missed. A destructor reads the count of handles and releases its own
  later, so the destructors of the last two senders can both read three, and then neither of them
  disconnects the channel. A state is reachable in which only the receiver's handle is left, no
  destructor runs or has written the tag, the tag says \<open>UP_TO_DATE\<close>, and the receiver waits.
\<close>

theorem missed_disconnection:
  "\<exists>c :: 'a chan. chan_reachable c \<and> refs c = 1 \<and> leaving c = 0 \<and> \<not> dropped c \<and> tag c = UP_TO_DATE
    \<and> waits_forever c"
proof -
  let ?c = "\<lambda>n l. (chan_at UP_TO_DATE [] None SIdle RWaiting n 0 False [] [] :: 'a chan)\<lparr>leaving := l\<rparr>"
  have "chan_reachable (?c 2 0)" using waiting_reachable by (simp add: chan_at_def)
  then have "chan_reachable (?c 3 0)"
    by (rule reachable_by [OF _ chan_steps.copy_handle]) (simp_all add: at_defs)
  then have "chan_reachable (?c 3 1)"
    by (rule reachable_by [OF _ chan_steps.drop_reads]) (simp_all add: at_defs)
  then have "chan_reachable (?c 3 2)"
    by (rule reachable_by [OF _ chan_steps.drop_reads]) (simp_all add: at_defs)
  then have "chan_reachable (?c 2 1)"
    by (rule reachable_by [OF _ chan_steps.drop_other]) (simp_all add: at_defs)
  then have "chan_reachable (?c 1 0)"
    by (rule reachable_by [OF _ chan_steps.drop_other]) (simp_all add: at_defs)
  then show ?thesis
    by (intro exI conjI, assumption) (simp_all add: waits_forever_def chan_at_def)
qed

end
