(* ===== verification/Channel_Refinement.thy ===== *)
theory Channel_Refinement
  imports Channel_Steps
begin

text \<open>
  The channel as threads run it against the channel whose operations take effect one after the
  other: as long as no destructor has disconnected it, the single steps implement the
  operations of the theory \<open>Channel\<close>, and no message is left behind by a waiting receiver.
\<close>

section \<open>The abstraction\<close>

text \<open>
  The sequential channel a state stands for. A message counts as sent when it is in the queue
  and as received when it is out of it, whatever the tag still says. The count still has the
  \<open>k\<close> handles that were released: their drops are put at the end of a sequence of operations, since two
  destructors that have both read a count of three are not in any other order.
\<close>

definition abs_chan :: "nat \<Rightarrow> 'a chan \<Rightarrow> 'a Mpsc" where
  "abs_chan k c = \<lparr>state_tag = (if queue c = [] then UP_TO_DATE else NEW_MESSAGE),
     messages = queue c, use_count = refs c + k, notified = length (pushed c)\<rparr>"

lemma abs_chan_simps [simp]:
  "state_tag (abs_chan k c) = (if queue c = [] then UP_TO_DATE else NEW_MESSAGE)"
  "messages (abs_chan k c) = queue c" "use_count (abs_chan k c) = refs c + k"
  "notified (abs_chan k c) = length (pushed c)"
  by (simp_all add: abs_chan_def)

text \<open>The messages the operations of a history send, and what those that receive return.\<close>

fun sent_by :: "'a chan_op list \<Rightarrow> 'a list" where
  "sent_by [] = []"
| "sent_by (Send m # ops) = m # sent_by ops"
| "sent_by (_ # ops) = sent_by ops"

fun returned_by :: "'a chan_op list \<Rightarrow> 'a Mpsc \<Rightarrow> 'a received list" where
  "returned_by [] c = []"
| "returned_by (Receive # ops) c = fst (receive c) # returned_by ops (snd (receive c))"
| "returned_by (p # ops) c = returned_by ops (chan_step p c)"

lemma sent_by_snoc: "sent_by (ops @ [p]) = sent_by ops @ sent_by [p]"
  by (induction ops rule: sent_by.induct) (cases p; simp)+

lemma chan_run_snoc: "chan_run (ops @ [p]) c = chan_step p (chan_run ops c)"
  by (simp add: chan_run_def)

lemma returned_by_snoc: "returned_by (ops @ [p]) c = returned_by ops c @ returned_by [p] (chan_run ops c)"
  by (induction ops c rule: returned_by.induct) (cases p; simp add: chan_run_def)+

section \<open>Runs without disconnection\<close>

text \<open>
  What holds until a destructor writes the tag: a tag that says \<open>UP_TO_DATE\<close> although messages are
  queued is about to be corrected by a sender that holds the lock; the receiver goes to sleep
  only on an empty queue, and while it sleeps on a queue that is not empty, a sender is on its
  way to wake it.
\<close>

definition awake_inv :: "'a chan \<Rightarrow> bool" where
  "awake_inv c \<longleftrightarrow> dropped c
     \<or> tag c \<noteq> TAG_DISCONNECTED \<and> notifying c = 0
       \<and> (tag c = UP_TO_DATE \<and> queue c \<noteq> [] \<longrightarrow> (\<exists>i. sender c i = SPushed \<or> sender c i = SConnected))
       \<and> (receiver c = RWillWait \<longrightarrow> queue c = [])
       \<and> (receiver c = RWaiting \<and> queue c \<noteq> [] \<longrightarrow>
            (\<exists>i. sender c i = SPushed \<or> sender c i = SConnected \<or> sender c i = SNotify))"

lemma dropped_step: "chan_steps c d \<Longrightarrow> dropped c \<Longrightarrow> dropped d"
  by (cases rule: chan_steps.cases) (auto simp: step_defs)

lemma one_sender:
  "mutex_inv c \<Longrightarrow> sender c i \<noteq> SIdle \<Longrightarrow> j \<noteq> i \<Longrightarrow> sender c j = SIdle"
  by (auto simp: mutex_inv_def)

lemma awake_inv_step:
  assumes "chan_steps c d" and inv: "mutex_inv c" and q: "queue_inv c" and "awake_inv c"
  shows "awake_inv d"
proof (cases "dropped c")
  case True
  then have "dropped d" using assms(1) dropped_step by blast
  then show ?thesis by (simp add: awake_inv_def)
next
  case False
  then have a: "tag c \<noteq> TAG_DISCONNECTED" "notifying c = 0"
    "tag c = UP_TO_DATE \<Longrightarrow> queue c \<noteq> [] \<Longrightarrow> \<exists>i. sender c i = SPushed \<or> sender c i = SConnected"
    "receiver c = RWillWait \<Longrightarrow> queue c = []"
    "receiver c = RWaiting \<Longrightarrow> queue c \<noteq> [] \<Longrightarrow>
      \<exists>i. sender c i = SPushed \<or> sender c i = SConnected \<or> sender c i = SNotify"
    using assms(4) by (auto simp: awake_inv_def)
  have idle: "sender c j = SIdle" if "receiver_holds (receiver c)" for j
    using senders_idle [OF inv that] .
  have empty: "queue c = []" if "receiver_holds (receiver c)" "tag c = UP_TO_DATE"
    using a(3) that(2) idle [OF that(1)] by force
  have own: "tag c = UP_TO_DATE \<Longrightarrow> queue c \<noteq> [] \<Longrightarrow> sender c i = SPushed \<or> sender c i = SConnected"
    "receiver c = RWaiting \<Longrightarrow> queue c \<noteq> [] \<Longrightarrow>
      sender c i = SPushed \<or> sender c i = SConnected \<or> sender c i = SNotify"
    if "sender c i \<noteq> SIdle" for i
    using a(3,5) one_sender [OF inv that] sender_pc.distinct by metis+
  show ?thesis
    using assms(1)
  proof cases
    case (send_push i m)
    then show ?thesis using a idle by (auto simp: awake_inv_def step_defs)
  next
    case (send_connected i)
    then show ?thesis
      using a(1,2,4) own [of i] idle by (auto simp: awake_inv_def step_defs)
  next
    case (send_tag i)
    then show ?thesis
      using a(1,2,4) own [of i] idle by (auto simp: awake_inv_def step_defs)
  next
    case (send_notify i)
    then show ?thesis
      using a(1,2,4) own [of i] idle by (auto simp: awake_inv_def step_defs)
  next
    case (send_unlock i b)
    then show ?thesis
      using a(1,2,4) own [of i] idle by (auto simp: awake_inv_def step_defs)
  next
    case (send_lock i m)
    then have "sender c j = SIdle" for j using inv by (simp add: mutex_inv_def)
    then show ?thesis
      using a send_lock by (auto simp: awake_inv_def step_defs)
  next
    case wait_needed
    then show ?thesis using a empty by (auto simp: awake_inv_def)
  next
    case wait_block
    then show ?thesis using a by (auto simp: awake_inv_def)
  next
    case (receive_tag m)
    then show ?thesis using a q by (auto simp: awake_inv_def queue_inv_def)
  next
    case (receive_front_pop m ms)
    then show ?thesis using a empty idle by (auto simp: awake_inv_def)
  qed (use a in \<open>auto simp: awake_inv_def step_defs\<close>)
qed

lemma awake_inv_reachable: "chan_reachable c \<Longrightarrow> awake_inv c"
proof (induction rule: chan_reachable.induct)
  case start
  show ?case by (simp add: awake_inv_def chan_init_def)
next
  case (step c d)
  then show ?case using awake_inv_step reachable_inv by blast
qed

section \<open>The simulation\<close>

text \<open>The operation a step completes, if it completes one. A release only adds to \<open>k\<close>.\<close>

lemma abs_chan_step:
  assumes "chan_steps c d" and "\<not> dropped d" and "notifying c = 0" and "leaving c \<le> refs c"
  shows "(\<exists>p. abs_chan k d = chan_step p (abs_chan k c)
      \<and> pushed d = pushed c @ sent_by [p]
      \<and> map Received (popped d) = map Received (popped c) @ returned_by [p] (abs_chan k c))
    \<or> (\<exists>k'. abs_chan k' d = abs_chan k c) \<and> pushed d = pushed c \<and> popped d = popped c"
  using assms(1)
proof cases
  case (send_push i m)
  then show ?thesis
    by (intro disjI1 exI [of _ "Send m"]) (simp add: abs_chan_def send_def step_defs)
next
  case (receive_front_pop m ms)
  then show ?thesis
    by (intro disjI1 exI [of _ Receive]) (simp add: abs_chan_def receive_def)
next
  case copy_handle
  then show ?thesis
    by (intro disjI1 exI [of _ CopySender]) (simp add: abs_chan_def Sender_copy_def)
next
  case drop_other
  then show ?thesis
    using assms(4) by (intro disjI2 conjI exI [of _ "Suc k"]) (simp_all add: abs_chan_def)
qed (use assms(2,3) in \<open>auto simp: abs_chan_def step_defs intro!: exI [of _ k]\<close>)

lemma abs_chan_reachable:
  "chan_reachable c \<Longrightarrow> \<not> dropped c \<Longrightarrow> \<exists>ops k. abs_chan k c = chan_run ops Channel_open
    \<and> pushed c = sent_by ops \<and> map Received (popped c) = returned_by ops Channel_open"
proof (induction rule: chan_reachable.induct)
  case start
  have "abs_chan 0 (chan_init :: 'a chan) = chan_run [] Channel_open"
    by (simp add: abs_chan_def chan_init_def chan_run_def Channel_open_def)
  then show ?case by (intro exI [of _ "[]"] exI [of _ 0]) (simp add: chan_init_def)
next
  case (step c d)
  have "\<not> dropped c" using step.hyps(2) step.prems dropped_step by blast
  then obtain ops k where ops: "abs_chan k c = chan_run ops Channel_open" "pushed c = sent_by ops"
    "map Received (popped c) = returned_by ops Channel_open"
    using step.IH by blast
  have "notifying c = 0" "leaving c \<le> refs c"
    using awake_inv_reachable [OF step.hyps(1)] handles_reachable [OF step.hyps(1)] \<open>\<not> dropped c\<close>
    by (simp_all add: awake_inv_def)
  from abs_chan_step [OF step.hyps(2) step.prems this, of k] show ?case
  proof
    assume "\<exists>p. abs_chan k d = chan_step p (abs_chan k c) \<and> pushed d = pushed c @ sent_by [p]
      \<and> map Received (popped d) = map Received (popped c) @ returned_by [p] (abs_chan k c)"
    then obtain p where "abs_chan k d = chan_step p (abs_chan k c)" "pushed d = pushed c @ sent_by [p]"
      "map Received (popped d) = map Received (popped c) @ returned_by [p] (abs_chan k c)" by blast
    then show ?thesis
      using ops
      by (intro exI [of _ "ops @ [p]"] exI [of _ k])
        (simp add: chan_run_snoc sent_by_snoc [of ops] returned_by_snoc [of ops])
  next
    assume "(\<exists>k'. abs_chan k' d = abs_chan k c) \<and> pushed d = pushed c \<and> popped d = popped c"
    then obtain k' where "abs_chan k' d = abs_chan k c" "pushed d = pushed c" "popped d = popped c" by blast
    then show ?thesis using ops by (intro exI [of _ ops] exI [of _ k']) simp
  qed
qed

text \<open>The releases, one after the other.\<close>

lemma drops_run:
  "messages (chan_run (ops @ replicate k DropSender) c) = messages (chan_run ops c)
    \<and> use_count (chan_run (ops @ replicate k DropSender) c) = use_count (chan_run ops c) - k
    \<and> sent_by (ops @ replicate k DropSender) = sent_by ops
    \<and> returned_by (ops @ replicate k DropSender) c = returned_by ops c"
proof (induction k)
  case (Suc k)
  have "ops @ replicate (Suc k) DropSender = (ops @ replicate k DropSender) @ [DropSender]"
    by (simp add: replicate_append_same)
  then show ?case
    using Suc by (simp only: chan_run_snoc sent_by_snoc returned_by_snoc) (simp add: Sender_drop_def Let_def)
qed simp

section \<open>Properties\<close>

text \<open>
  C22: The threads implement the channel: in every state they reach in which no destructor has
  disconnected it, there is a sequence of whole operations, one after the other, that leads the
  opened channel to the same queue and the same count of handles, that sends the messages in
  the order in which the threads pushed them, and whose receives return exactly the messages
  the receiver took.
\<close>

theorem channel_steps_refine:
  assumes "chan_reachable c" and "\<not> dropped c"
  shows "\<exists>ops. messages (chan_run ops Channel_open) = queue c
    \<and> use_count (chan_run ops Channel_open) = refs c
    \<and> sent_by ops = pushed c \<and> returned_by ops Channel_open = map Received (popped c)"
proof -
  obtain ops k where ops: "abs_chan k c = chan_run ops Channel_open" "pushed c = sent_by ops"
    "map Received (popped c) = returned_by ops Channel_open"
    using abs_chan_reachable [OF assms] by blast
  then have "messages (chan_run ops Channel_open) = queue c" "use_count (chan_run ops Channel_open) = refs c + k"
    by (simp_all flip: ops(1))
  then show ?thesis
    using ops(2,3) drops_run [of ops k Channel_open] by (intro exI [of _ "ops @ replicate k DropSender"]) simp
qed

theorem channel_steps_refine_witness:
  "\<exists>ops. messages (chan_run ops Channel_open) = [] \<and> sent_by ops = [7 :: nat]
    \<and> returned_by ops Channel_open = [Received 7]"
  using channel_steps_refine [OF last_message_taken [of "7 :: nat"]]
  by (auto simp: chan_at_def)

text \<open>
  C23: No message is lost: if the receiver waits, every thread is outside of its operation and no
  destructor has disconnected the channel, then every message that was sent has been received,
  in the order of sending. A receiver that sleeps on a queue with a message always has a sender
  on its way to wake it.
\<close>

theorem no_message_left_behind:
  assumes "chan_reachable c" and "\<not> dropped c" and "receiver c = RWaiting"
  shows "(waits_forever c \<longrightarrow> queue c = [] \<and> popped c = pushed c)
    \<and> (queue c \<noteq> [] \<longrightarrow> (\<exists>i. sender c i = SPushed \<or> sender c i = SConnected \<or> sender c i = SNotify))"
proof -
  have inv: "awake_inv c" "pushed c = popped c @ queue c"
    using awake_inv_reachable [OF assms(1)] reachable_inv [OF assms(1)] by (simp_all add: queue_inv_def)
  then have "queue c \<noteq> [] \<longrightarrow> (\<exists>i. sender c i = SPushed \<or> sender c i = SConnected \<or> sender c i = SNotify)"
    using assms(2,3) by (simp add: awake_inv_def)
  then show ?thesis using inv(2) by (auto simp: waits_forever_def)
qed

theorem no_message_left_behind_witness:
  "popped (chan_at UP_TO_DATE [] None SIdle RWaiting 2 0 False [] ([] :: nat list)) = []"
  using no_message_left_behind [OF waiting_reachable [where ?'a = nat]]
  by (simp add: chan_at_def waits_forever_def)

end
