(* ===== verification/Os.thy ===== *)
theory Os
  imports Packet "HOL-Library.Signed_Division"
begin

text \<open>
  The operating system as the program sees it. The system calls and the constants of the system
  headers are not part of the program: they are the fields of the record \<open>os\<close>, an argument of
  every definition that uses them, over an arbitrary type \<open>'w\<close> of states of the outside world.
  The theory also has the program's own global variable and how a failed call is thrown.
\<close>

section \<open>System calls\<close>

datatype protocol = DEFAULT_PROTOCOL | IPPROTO_UDP

record addrinfo =
  ai_family :: int
  sa_data :: "uint8 list"

text \<open>
  A call returns its status, what it wrote to the memory it was given, and the next state of
  the world. Datagram sockets are of the family \<open>AF_INET\<close> throughout.
\<close>

record 'w os =
  strerror :: "int \<Rightarrow> string"
  errno :: "'w \<Rightarrow> int"
  EWOULDBLOCK :: int
  EAGAIN :: int
  O_NONBLOCK :: int
  AF_INET :: int
  sys_socket :: "protocol \<Rightarrow> 'w \<Rightarrow> int \<times> 'w"
  sys_close :: "int \<Rightarrow> 'w \<Rightarrow> 'w"
  sys_bind :: "int \<Rightarrow> IpAddress \<Rightarrow> uint16 \<Rightarrow> 'w \<Rightarrow> int \<times> 'w"
  sys_sendto :: "int \<Rightarrow> string \<Rightarrow> IpAddress \<Rightarrow> uint16 \<Rightarrow> 'w \<Rightarrow> int \<times> 'w"
  sys_broadcast :: "int \<Rightarrow> bool \<Rightarrow> 'w \<Rightarrow> int \<times> 'w"
  sys_getfl :: "int \<Rightarrow> 'w \<Rightarrow> int \<times> 'w"
  sys_setfl :: "int \<Rightarrow> int \<Rightarrow> 'w \<Rightarrow> int \<times> 'w"
  sys_recvfrom :: "int \<Rightarrow> nat \<Rightarrow> 'w \<Rightarrow> (int \<times> string \<times> IpAddress) \<times> 'w"
  sys_clock :: "'w \<Rightarrow> (int \<times> int) \<times> 'w"
  sys_nanosleep :: "int \<Rightarrow> int \<Rightarrow> 'w \<Rightarrow> 'w"
  sys_gethostname :: "'w \<Rightarrow> (int \<times> string) \<times> 'w"
  sys_getaddrinfo :: "string \<Rightarrow> 'w \<Rightarrow> (int \<times> addrinfo list) \<times> 'w"
  sys_getifaddrs :: "'w \<Rightarrow> (int \<times> string list) \<times> 'w"
  sys_ifaddr :: "int \<Rightarrow> string \<Rightarrow> 'w \<Rightarrow> (int \<times> IpAddress) \<times> 'w"
  sys_hwaddr :: "int \<Rightarrow> string \<Rightarrow> 'w \<Rightarrow> (int \<times> uint8 list) \<times> 'w"

section \<open>The state of a process\<close>

text \<open>\<open>static atomic<uint64_t> global_seqn\<close>, and the world outside.\<close>

record 'w process =
  global_seqn :: uint64
  world :: 'w

type_synonym ('w, 'a) io = "('w process, 'a) action"

definition sys :: "('w \<Rightarrow> 'a \<times> 'w) \<Rightarrow> ('w, 'a) io" where
  "sys f = call (\<lambda>p. case f (world p) of (x, w) \<Rightarrow> (x, p\<lparr>world := w\<rparr>))"

definition sys_effect :: "('w \<Rightarrow> 'w) \<Rightarrow> 'w process \<Rightarrow> 'w process" where
  "sys_effect f p = p\<lparr>world := f (world p)\<rparr>"

definition throw_io :: "'w os \<Rightarrow> string \<Rightarrow> ('w, 'a) io" where
  "throw_io E what p = throw (IOExc (IOException (strerror E) (errno E (world p)) what)) p"

text \<open>\<open>global_seqn++\<close>\<close>

definition next_seqn :: "('w, uint64) io" where
  "next_seqn = call (\<lambda>p. (global_seqn p, p\<lparr>global_seqn := global_seqn p + 1\<rparr>))"

text \<open>The time stamp in microseconds, from \<open>clock_gettime\<close>.\<close>

definition now :: "'w os \<Rightarrow> ('w, uint64) io" where
  "now E = andthen (sys (sys_clock E)) (\<lambda>(sec, nsec).
     ret (of_int (nsec sdiv 1000 + sec * 1000000)))"

lemma sys_result: "sys f p = (Inr (fst (f (world p))), p\<lparr>world := snd (f (world p))\<rparr>)"
  by (simp add: sys_def call_def split_beta)

lemma andthen_sys: "andthen (sys f) k p = k (fst (f (world p))) (p\<lparr>world := snd (f (world p))\<rparr>)"
  by (simp add: andthen_Inr [OF sys_result])

lemma andthen_throw_io [simp]: "andthen (throw_io E what) k = throw_io E what"
  by (rule ext) (simp add: andthen_def throw_io_def throw_def)

lemma throw_io_result [simp]: "throw_io E what p \<noteq> (Inr x, q)"
  by (simp add: throw_io_def throw_def)

end
