(* ===== verification/Host.thy ===== *)
theory Host
  imports Os
begin

text \<open>
  The addresses of the host the process runs on (\<open>NodeAddresses::load_host\<close> in \<open>address.cpp\<close>):
  the host name, the IPv4 address it resolves to, and the MAC address of the interface that
  has this IPv4 address.
\<close>

text \<open>The buffer is a C string: the name ends at the first null character.\<close>

definition load_hostname :: "'w os \<Rightarrow> NodeAddresses \<Rightarrow> ('w, NodeAddresses) io" where
  "load_hostname E a =
     andthen (sys (sys_gethostname E)) (\<lambda>(r, hostname_c).
       if r < 0 then throw_io E ''gethostname''
       else ret (a\<lparr>hostname := takeWhile (\<lambda>c. c \<noteq> CHR 0x00) hostname_c\<rparr>))"

text \<open>The loop over the list: the first entry of the family \<open>AF_INET\<close>.\<close>

fun find_ipv4 :: "int \<Rightarrow> addrinfo list \<Rightarrow> IpAddress option" where
  "find_ipv4 af_inet [] = None"
| "find_ipv4 af_inet (x # xs) =
     (if ai_family x = af_inet then Some (take 4 (drop 2 (sa_data x))) else find_ipv4 af_inet xs)"

definition load_ip :: "'w os \<Rightarrow> NodeAddresses \<Rightarrow> ('w, NodeAddresses) io" where
  "load_ip E a =
     andthen (sys (sys_getaddrinfo E (hostname a))) (\<lambda>(r, addr_list).
       if r < 0 then throw_io E ''getaddrinfo for finding ipv4''
       else case find_ipv4 (AF_INET E) addr_list of
         None \<Rightarrow> throw (NoIpAddressFoundExc (NoIpAddressFoundException (hostname a)))
       | Some addr \<Rightarrow> ret (a\<lparr>ip := addr\<rparr>))"

text \<open>The loop over the interfaces opens a socket for each and closes none.\<close>

fun load_mac_loop :: "'w os \<Rightarrow> IpAddress \<Rightarrow> string list \<Rightarrow> ('w, MacAddress option) io" where
  "load_mac_loop E my_ip [] = ret None"
| "load_mac_loop E my_ip (ifa_name # names) =
     andthen (sys (sys_socket E DEFAULT_PROTOCOL)) (\<lambda>fd.
       if fd < 0 then throw_io E ''socket for finding MAC''
       else andthen (sys (sys_ifaddr E fd ifa_name)) (\<lambda>(r, if_ip_addr).
         if 0 \<le> r \<and> if_ip_addr = my_ip then
           andthen (sys (sys_hwaddr E fd ifa_name)) (\<lambda>(r', sa_data).
             if r' < 0 then throw_io E ''get MAC address''
             else ret (Some (take 6 sa_data)))
         else load_mac_loop E my_ip names))"

definition load_mac :: "'w os \<Rightarrow> NodeAddresses \<Rightarrow> ('w, NodeAddresses) io" where
  "load_mac E a =
     andthen (sys (sys_getifaddrs E)) (\<lambda>(r, names).
       if r < 0 then undefined_behaviour ''interface list read before it was written''
       else andthen (load_mac_loop E (ip a) names) (\<lambda>found.
         case found of
           None \<Rightarrow> throw (NoMacAddressFoundExc (NoMacAddressFoundException (ip a)))
         | Some m \<Rightarrow> ret (a\<lparr>mac := m\<rparr>)))"

definition load_host :: "'w os \<Rightarrow> ('w, NodeAddresses) io" where
  "load_host E =
     andthen (load_hostname E NodeAddresses_new) (\<lambda>a.
     andthen (load_ip E a) (\<lambda>b. load_mac E b))"

end
