(* ===== verification/Socket.thy ===== *)
theory Socket
  imports Host
begin

text \<open>
  The UDP sockets and the client and server built on them (\<open>socket.h\<close>, \<open>socket.cpp\<close>). A socket
  object is its file descriptor; its destructor closes the descriptor when the scope is left.
\<close>

section \<open>Ports\<close>

definition WOL_PARTICIPANT_PORT :: uint16 where "WOL_PARTICIPANT_PORT = 7010"
definition WOL_MANAGER_PORT :: uint16 where "WOL_MANAGER_PORT = 7011"
definition EXIT_PORT :: uint16 where "EXIT_PORT = 8020"
definition DISCOVERY_PARTICIPANT_PORT :: uint16 where "DISCOVERY_PARTICIPANT_PORT = 9040"
definition DISCOVERY_MANAGER_PORT :: uint16 where "DISCOVERY_MANAGER_PORT = 9041"
definition SLEEP_STATUS_PORT :: uint16 where "SLEEP_STATUS_PORT = 10030"
definition DEFAULT_TRY_US :: uint64 where "DEFAULT_TRY_US = 100000"
definition STR_BUF_SIZE :: nat where "STR_BUF_SIZE = 65535"

definition BROADCAST_IP :: IpAddress where
  "BROADCAST_IP = [255, 255, 255, 255]"

section \<open>Sender sockets\<close>

definition UdpSenderSocket_new :: "'w os \<Rightarrow> ('w, int) io" where
  "UdpSenderSocket_new E =
     andthen (sys (sys_socket E IPPROTO_UDP)) (\<lambda>fd.
       if fd < 0 then throw_io E ''sender socket'' else ret fd)"

definition UdpSenderSocket_delete :: "'w os \<Rightarrow> int \<Rightarrow> 'w process \<Rightarrow> 'w process" where
  "UdpSenderSocket_delete E fd p = (if 0 \<le> fd then sys_effect (sys_close E fd) p else p)"

definition sender_send :: "'w os \<Rightarrow> int \<Rightarrow> string \<Rightarrow> IpAddress \<Rightarrow> uint16 \<Rightarrow> ('w, unit) io" where
  "sender_send E fd message dest_ip_address dest_port =
     andthen (sys (sys_sendto E fd message dest_ip_address dest_port)) (\<lambda>res.
       if res < 0 then throw_io E ''sendto'' else ret ())"

definition sender_send_packet ::
    "'w os \<Rightarrow> int \<Rightarrow> Packet \<Rightarrow> IpAddress \<Rightarrow> uint16 \<Rightarrow> ('w, unit) io" where
  "sender_send_packet E fd packet dest_ip_address dest_port =
     (let serializer = packet_serialize packet PacketSerializer_new;
          message = finish serializer
      in sender_send E fd message dest_ip_address dest_port)"

definition sender_enable_broadcast :: "'w os \<Rightarrow> int \<Rightarrow> bool \<Rightarrow> ('w, unit) io" where
  "sender_enable_broadcast E fd enable =
     andthen (sys (sys_broadcast E fd enable)) (\<lambda>status.
       if status < 0 then throw_io E ''setsockopt for sender broadcast'' else ret ())"

section \<open>Receiver sockets\<close>

definition UdpReceiverSocket_new :: "'w os \<Rightarrow> uint16 \<Rightarrow> ('w, int) io" where
  "UdpReceiverSocket_new E port =
     andthen (sys (sys_socket E IPPROTO_UDP)) (\<lambda>fd.
       if fd < 0 then throw_io E ''receiver socket''
       else andthen (sys (sys_bind E fd [0, 0, 0, 0] port)) (\<lambda>r.
         if r < 0 then throw_io E ''receiver bind'' else ret fd))"

definition UdpReceiverSocket_delete :: "'w os \<Rightarrow> int \<Rightarrow> 'w process \<Rightarrow> 'w process" where
  "UdpReceiverSocket_delete E fd p = (if 0 \<le> fd then sys_effect (sys_close E fd) p else p)"

datatype BlockType = BLOCKING | NON_BLOCKING

text \<open>
  The result is the number of bytes, with the bytes written to the buffer and the address of
  the sender. Returning empty-handed skips the second \<open>switch\<close>, which resets the flags.
\<close>

definition receive_with_block_type ::
    "'w os \<Rightarrow> int \<Rightarrow> nat \<Rightarrow> BlockType \<Rightarrow> ('w, (nat \<times> string \<times> IpAddress) option) io" where
  "receive_with_block_type E fd capacity block_type =
     andthen (sys (sys_getfl E fd)) (\<lambda>flags.
     if flags < 0 then throw_io E ''fcntl getfl''
     else andthen
       (case block_type of
          BLOCKING \<Rightarrow> ret ()
        | NON_BLOCKING \<Rightarrow> andthen (sys (sys_setfl E fd (or flags (O_NONBLOCK E)))) (\<lambda>r.
            if r < 0 then throw_io E ''fcntl setfl O_NONBLOCK'' else ret ())) (\<lambda>_.
     andthen (sys (sys_recvfrom E fd capacity)) (\<lambda>(res, data, src).
     andthen (gets (\<lambda>p. errno E (world p))) (\<lambda>err.
     if res < 0 then
       (if err = EWOULDBLOCK E \<or> err = EAGAIN E then ret None else throw_io E ''recvfrom'')
     else andthen
       (case block_type of
          BLOCKING \<Rightarrow> ret ()
        | NON_BLOCKING \<Rightarrow> andthen (sys (sys_setfl E fd flags)) (\<lambda>r.
            if r < 0 then throw_io E ''fcntl unset O_NONBLOCK'' else ret ())) (\<lambda>_.
     ret (Some (nat res, data, src)))))))"

definition receiver_receive :: "'w os \<Rightarrow> int \<Rightarrow> nat \<Rightarrow> ('w, nat \<times> string \<times> IpAddress) io" where
  "receiver_receive E fd capacity =
     andthen (receive_with_block_type E fd capacity BLOCKING) (\<lambda>r.
       case r of None \<Rightarrow> throw BadOptionalAccess | Some x \<Rightarrow> ret x)"

definition receiver_try_receive ::
    "'w os \<Rightarrow> int \<Rightarrow> nat \<Rightarrow> ('w, (nat \<times> string \<times> IpAddress) option) io" where
  "receiver_try_receive E fd capacity = receive_with_block_type E fd capacity NON_BLOCKING"

text \<open>A string of null characters whose data is overwritten, then resized.\<close>

definition message_buffer :: "nat \<Rightarrow> string \<Rightarrow> string" where
  "message_buffer read data =
     (let buffer = data @ drop (length data) (replicate STR_BUF_SIZE (CHR 0x00))
      in take read (buffer @ replicate (read - length buffer) (CHR 0x00)))"

definition receiver_receive_string :: "'w os \<Rightarrow> int \<Rightarrow> ('w, string) io" where
  "receiver_receive_string E fd =
     andthen (receiver_receive E fd STR_BUF_SIZE) (\<lambda>(read, data, src).
       ret (message_buffer read data))"

definition receiver_try_receive_string :: "'w os \<Rightarrow> int \<Rightarrow> ('w, string option) io" where
  "receiver_try_receive_string E fd =
     andthen (receiver_try_receive E fd STR_BUF_SIZE) (\<lambda>r.
       ret (map_option (\<lambda>(read, data, src). message_buffer read data) r))"

text \<open>Deserializing a message into a packet; an exception of the deserializer passes through.\<close>

definition deserialize_message :: "Packet \<Rightarrow> string \<Rightarrow> ('w, bool \<times> Packet) io" where
  "deserialize_message packet message =
     (case fst (packet_deserialize packet (PacketDeserializer_new message)) of
        Inl e \<Rightarrow> throw e
      | Inr r \<Rightarrow> ret r)"

definition receiver_receive_packet :: "'w os \<Rightarrow> int \<Rightarrow> Packet \<Rightarrow> ('w, bool \<times> Packet) io" where
  "receiver_receive_packet E fd packet =
     andthen (receiver_receive_string E fd) (\<lambda>message. deserialize_message packet message)"

definition receiver_try_receive_packet ::
    "'w os \<Rightarrow> int \<Rightarrow> Packet \<Rightarrow> ('w, bool option \<times> Packet) io" where
  "receiver_try_receive_packet E fd packet =
     andthen (receiver_try_receive_string E fd) (\<lambda>message.
       case message of
         None \<Rightarrow> ret (None, packet)
       | Some m \<Rightarrow> andthen (deserialize_message packet m) (\<lambda>(ok, packet').
           ret (Some ok, packet')))"

definition receiver_enable_broadcast :: "'w os \<Rightarrow> int \<Rightarrow> bool \<Rightarrow> ('w, unit) io" where
  "receiver_enable_broadcast E fd enable =
     andthen (sys (sys_broadcast E fd enable)) (\<lambda>status.
       if status < 0 then throw_io E ''setsockopt for receiver broadcast'' else ret ())"

section \<open>Servers\<close>

text \<open>A \<open>ServerSocket\<close> is its receiver socket; a \<open>ServerSocket::Request\<close> is its packet.\<close>

definition ServerSocket_new :: "'w os \<Rightarrow> uint16 \<Rightarrow> ('w, int) io" where
  "ServerSocket_new E port = UdpReceiverSocket_new E port"

text \<open>The loop that waits for a packet the deserializer accepts; \<open>None\<close> if it never ends.\<close>

partial_function (option) server_receive_loop ::
    "'w os \<Rightarrow> int \<Rightarrow> Packet \<Rightarrow> 'w process \<Rightarrow> ((failure + Packet) \<times> 'w process) option" where
  "server_receive_loop E fd packet p =
     (case receiver_receive_packet E fd packet p of
        (Inl e, p') \<Rightarrow> Some (Inl e, p')
      | (Inr (ok, packet'), p') \<Rightarrow>
          if ok then Some (Inr packet', p') else server_receive_loop E fd packet' p')"

definition server_receive ::
    "'w os \<Rightarrow> int \<Rightarrow> 'w process \<Rightarrow> ((failure + Packet) \<times> 'w process) option" where
  "server_receive E fd = server_receive_loop E fd Packet_new"

text \<open>The optional itself is tested, not the boolean in it.\<close>

definition server_try_receive :: "'w os \<Rightarrow> int \<Rightarrow> ('w, Packet option) io" where
  "server_try_receive E fd =
     andthen (receiver_try_receive_packet E fd Packet_new) (\<lambda>(r, packet).
       case r of Some _ \<Rightarrow> ret (Some packet) | None \<Rightarrow> ret None)"

text \<open>Sends a packet through a sender socket that lives for this one call.\<close>

definition with_sender :: "'w os \<Rightarrow> (int \<Rightarrow> ('w, 'a) io) \<Rightarrow> ('w, 'a) io" where
  "with_sender E inside =
     andthen (UdpSenderSocket_new E) (\<lambda>fd. with_destructor (inside fd) (UdpSenderSocket_delete E fd))"

definition MAGIC_PACKET_SIZE :: nat where
  "MAGIC_PACKET_SIZE = 6 * 17"

definition handle_wol :: "'w os \<Rightarrow> int \<Rightarrow> IpAddress \<Rightarrow> uint16 \<Rightarrow> ('w, unit) io" where
  "handle_wol E fd dest_ip_address dest_port =
     andthen (receiver_receive E fd MAGIC_PACKET_SIZE) (\<lambda>(read, data, src).
     if read \<noteq> MAGIC_PACKET_SIZE
     then throw (InvalidPacketExc (InvalidPacketException ''WOL packet must have length 6 * 17''))
     else andthen next_seqn (\<lambda>n.
     andthen (load_host E) (\<lambda>a.
     andthen (now E) (\<lambda>t.
     let response_packet = Packet_new
           \<lparr>header := \<lparr>seqn = n, timestamp = t, sender_addresses = a, direction = RESPONSE\<rparr>,
            body := PacketBody_new\<lparr>packet_type := WOL\<rparr>\<rparr>
     in with_sender E (\<lambda>s. sender_send_packet E s response_packet dest_ip_address dest_port)))))"

definition server_enable_broadcast :: "'w os \<Rightarrow> int \<Rightarrow> bool \<Rightarrow> ('w, unit) io" where
  "server_enable_broadcast E fd enable = receiver_enable_broadcast E fd enable"

definition respond_with :: "'w os \<Rightarrow> Packet \<Rightarrow> PacketBody \<Rightarrow> uint16 \<Rightarrow> ('w, unit) io" where
  "respond_with E received packet_body port =
     andthen (load_host E) (\<lambda>a.
     andthen (now E) (\<lambda>t.
     let response_packet = Packet_new
           \<lparr>header := (header received)\<lparr>direction := RESPONSE, sender_addresses := a, timestamp := t\<rparr>,
            body := packet_body\<rparr>
     in with_sender E (\<lambda>s. sender_send_packet E s response_packet
          (ip (sender_addresses (header received))) port)))"

definition respond :: "'w os \<Rightarrow> Packet \<Rightarrow> uint16 \<Rightarrow> ('w, unit) io" where
  "respond E received port = respond_with E received (body received) port"

section \<open>Clients\<close>

record client_request =
  sent_packet :: string
  dest_ip_address :: IpAddress
  dest_port :: uint16

definition request_send :: "'w os \<Rightarrow> client_request \<Rightarrow> ('w, unit) io" where
  "request_send E req =
     with_sender E (\<lambda>s.
       andthen (if dest_ip_address req = BROADCAST_IP then sender_enable_broadcast E s True
                else ret ()) (\<lambda>_.
       sender_send E s (sent_packet req) (dest_ip_address req) (dest_port req)))"

definition client_request_op ::
    "'w os \<Rightarrow> PacketBody \<Rightarrow> IpAddress \<Rightarrow> uint16 \<Rightarrow> ('w, client_request) io" where
  "client_request_op E packet_body dest_ip dest_prt =
     andthen (load_host E) (\<lambda>a.
     andthen next_seqn (\<lambda>n.
     andthen (now E) (\<lambda>t.
     let packet = Packet_new
           \<lparr>header := \<lparr>seqn = n, timestamp = t, sender_addresses = a, direction = REQUEST\<rparr>,
            body := packet_body\<rparr>;
         message = finish (packet_serialize packet PacketSerializer_new);
         req = \<lparr>sent_packet = message, dest_ip_address = dest_ip, dest_port = dest_prt\<rparr>
     in andthen (request_send E req) (\<lambda>_. ret req))))"

text \<open>
  The magic packet: the loops write into an array \<open>packet\<close> of 102 bytes whose contents are
  indeterminate before.
\<close>

definition magic_packet :: "uint8 list \<Rightarrow> MacAddress \<Rightarrow> uint8 list" where
  "magic_packet packet mac_address =
     fold (\<lambda>i p. fold (\<lambda>j p. p[6 + i * 6 + j := mac_address ! j]) [0..<length mac_address] p)
       [0..<16] (fold (\<lambda>i p. p[i := 255]) [0..<6] packet)"

definition wol_request ::
    "'w os \<Rightarrow> uint8 list \<Rightarrow> MacAddress \<Rightarrow> IpAddress \<Rightarrow> uint16 \<Rightarrow> ('w, client_request) io" where
  "wol_request E packet mac_address dest_ip dest_prt =
     (let req = \<lparr>sent_packet = map (\<lambda>b. char_of (unat b)) (magic_packet packet mac_address),
            dest_ip_address = dest_ip, dest_port = dest_prt\<rparr>
      in andthen (request_send E req) (\<lambda>_. ret req))"

text \<open>The wait before a retry: \<open>tv_nsec\<close> gets all the microseconds, also those in \<open>tv_sec\<close>.\<close>

definition retry_wait :: "'w os \<Rightarrow> uint64 \<Rightarrow> ('w, unit) io" where
  "retry_wait E try_wait_us =
     modify (sys_effect (sys_nanosleep E (int (unat (try_wait_us div 1000000)))
       (sint (try_wait_us * 1000))))"

definition with_receiver :: "'w os \<Rightarrow> uint16 \<Rightarrow> (int \<Rightarrow> ('w, 'a) io) \<Rightarrow> ('w, 'a) io" where
  "with_receiver E port inside =
     andthen (UdpReceiverSocket_new E port) (\<lambda>fd.
       with_destructor (inside fd) (UdpReceiverSocket_delete E fd))"

text \<open>
  One round of the response loops: a try to receive; after a failed one the wait and the
  repeated request. The result says whether a packet was accepted.
\<close>

definition response_round ::
    "'w os \<Rightarrow> client_request \<Rightarrow> uint64 \<Rightarrow> int \<Rightarrow> Packet \<Rightarrow> ('w, bool \<times> Packet) io" where
  "response_round E req try_wait_us fd received_packet =
     andthen (receiver_try_receive_packet E fd received_packet) (\<lambda>(read, packet).
       if read = Some True then ret (True, packet)
       else andthen (retry_wait E try_wait_us) (\<lambda>_.
         andthen (request_send E req) (\<lambda>_. ret (False, packet))))"

partial_function (option) receive_response_loop ::
    "'w os \<Rightarrow> client_request \<Rightarrow> uint64 \<Rightarrow> int \<Rightarrow> Packet \<Rightarrow> 'w process \<Rightarrow>
      ((failure + Packet) \<times> 'w process) option" where
  "receive_response_loop E req try_wait_us fd received_packet p =
     (case response_round E req try_wait_us fd received_packet p of
        (Inl e, p') \<Rightarrow> Some (Inl e, p')
      | (Inr (done, packet), p') \<Rightarrow>
          if done then Some (Inr packet, p')
          else receive_response_loop E req try_wait_us fd packet p')"

definition receive_response ::
    "'w os \<Rightarrow> client_request \<Rightarrow> uint16 \<Rightarrow> uint64 \<Rightarrow> 'w process \<Rightarrow>
      ((failure + Packet) \<times> 'w process) option" where
  "receive_response E req port try_wait_us p =
     (case UdpReceiverSocket_new E port p of
        (Inl e, p') \<Rightarrow> Some (Inl e, p')
      | (Inr fd, p') \<Rightarrow>
          map_option (\<lambda>(r, q). (r, UdpReceiverSocket_delete E fd q))
            (receive_response_loop E req try_wait_us fd Packet_new p'))"

fun receive_bounded_loop ::
    "'w os \<Rightarrow> client_request \<Rightarrow> uint64 \<Rightarrow> int \<Rightarrow> nat \<Rightarrow> Packet \<Rightarrow> ('w, Packet) io" where
  "receive_bounded_loop E req try_wait_us fd 0 received_packet = ret received_packet"
| "receive_bounded_loop E req try_wait_us fd (Suc retry_bound) received_packet =
     andthen (response_round E req try_wait_us fd received_packet) (\<lambda>(done, packet).
       if done then ret packet
       else receive_bounded_loop E req try_wait_us fd retry_bound packet)"

text \<open>The function returns the packet, converted to an optional, on every path.\<close>

definition receive_bounded ::
    "'w os \<Rightarrow> client_request \<Rightarrow> uint64 \<Rightarrow> uint16 \<Rightarrow> uint64 \<Rightarrow> ('w, Packet option) io" where
  "receive_bounded E req retry_bound port try_wait_us =
     with_receiver E port (\<lambda>fd.
       andthen (receive_bounded_loop E req try_wait_us fd (unat retry_bound) Packet_new)
         (\<lambda>packet. ret (Some packet)))"

end
