(* ===== verification/Loopback.thy ===== *)
theory Loopback
  imports Socket
begin

text \<open>
  A concrete operating system for executing the program on given inputs: datagrams wait in an
  inbox, what is sent is collected in an outbox, and the descriptor flags, the sleeps and the
  closed descriptors are recorded. The values of the constants are those of Linux. It is an
  instance of the parameter \<open>os\<close>, for the witnesses; nothing of the program is modelled here.
\<close>

record net =
  inbox :: "string list"
  outbox :: "(string \<times> IpAddress \<times> uint16) list"
  flags_of :: int
  last_error :: int
  next_fd :: nat
  closed :: "int list"
  slept :: "(int \<times> int) list"

definition quiet_net :: net where
  "quiet_net = \<lparr>inbox = [], outbox = [], flags_of = 2, last_error = 0, next_fd = 3, closed = [],
     slept = []\<rparr>"

text \<open>A receive with an empty inbox fails with \<open>EAGAIN\<close> if the descriptor is non-blocking and
  is interrupted (\<open>EINTR\<close>) otherwise.\<close>

definition loop_receive :: "nat \<Rightarrow> net \<Rightarrow> (int \<times> string \<times> IpAddress) \<times> net" where
  "loop_receive n w = (case inbox w of
     [] \<Rightarrow> ((-1, [], []), w\<lparr>last_error := (if flags_of w \<ge> 2048 then 11 else 4)\<rparr>)
   | m # ms \<Rightarrow> ((int (length (take n m)), take n m, [127, 0, 0, 1]), w\<lparr>inbox := ms\<rparr>))"

definition loopback :: "NodeAddresses \<Rightarrow> net os" where
  "loopback self =
     \<lparr>strerror = (\<lambda>_. ''error''), errno = last_error, EWOULDBLOCK = 11, EAGAIN = 11,
      O_NONBLOCK = 2048, AF_INET = 2,
      sys_socket = (\<lambda>_ w. (int (next_fd w), w\<lparr>next_fd := Suc (next_fd w)\<rparr>)),
      sys_close = (\<lambda>fd w. w\<lparr>closed := closed w @ [fd]\<rparr>),
      sys_bind = (\<lambda>fd a p w. (0, w)),
      sys_sendto = (\<lambda>fd m a p w. (int (length m), w\<lparr>outbox := outbox w @ [(m, a, p)]\<rparr>)),
      sys_broadcast = (\<lambda>fd b w. (0, w)),
      sys_getfl = (\<lambda>fd w. (flags_of w, w)),
      sys_setfl = (\<lambda>fd f w. (0, w\<lparr>flags_of := f\<rparr>)),
      sys_recvfrom = (\<lambda>fd n w. loop_receive n w),
      sys_clock = (\<lambda>w. ((1, 2000), w)),
      sys_nanosleep = (\<lambda>s ns w. w\<lparr>slept := slept w @ [(s, ns)]\<rparr>),
      sys_gethostname = (\<lambda>w. ((0, hostname self @ [CHR 0x00]), w)),
      sys_getaddrinfo = (\<lambda>h w. ((0, [\<lparr>ai_family = 10, sa_data = []\<rparr>,
         \<lparr>ai_family = 2, sa_data = [0, 0] @ ip self\<rparr>]), w)),
      sys_getifaddrs = (\<lambda>w. ((0, [''lo'', ''eth0'']), w)),
      sys_ifaddr = (\<lambda>fd n w. ((0, if n = ''lo'' then [127, 0, 0, 1] else ip self), w)),
      sys_hwaddr = (\<lambda>fd n w. ((0, mac self), w))\<rparr>"

definition boot :: "net \<Rightarrow> net process" where
  "boot w = \<lparr>global_seqn = 0, world = w\<rparr>"

lemma loopback_sel [simp]:
  "errno (loopback self) = last_error" "EWOULDBLOCK (loopback self) = 11"
  "EAGAIN (loopback self) = 11" "O_NONBLOCK (loopback self) = 2048" "AF_INET (loopback self) = 2"
  "sys_socket (loopback self) pr w = (int (next_fd w), w\<lparr>next_fd := Suc (next_fd w)\<rparr>)"
  "sys_close (loopback self) fd w = w\<lparr>closed := closed w @ [fd]\<rparr>"
  "sys_bind (loopback self) fd a pt w = (0, w)"
  "sys_sendto (loopback self) fd m a pt w = (int (length m), w\<lparr>outbox := outbox w @ [(m, a, pt)]\<rparr>)"
  "sys_broadcast (loopback self) fd b w = (0, w)"
  "sys_getfl (loopback self) fd w = (flags_of w, w)"
  "sys_setfl (loopback self) fd f w = (0, w\<lparr>flags_of := f\<rparr>)"
  "sys_recvfrom (loopback self) fd n w = loop_receive n w"
  "sys_clock (loopback self) w = ((1, 2000), w)"
  "sys_nanosleep (loopback self) sec nsec w = w\<lparr>slept := slept w @ [(sec, nsec)]\<rparr>"
  "sys_gethostname (loopback self) w = ((0, hostname self @ [CHR 0x00]), w)"
  "sys_getaddrinfo (loopback self) h w = ((0, [\<lparr>ai_family = 10, sa_data = []\<rparr>,
     \<lparr>ai_family = 2, sa_data = [0, 0] @ ip self\<rparr>]), w)"
  "sys_getifaddrs (loopback self) w = ((0, [''lo'', ''eth0'']), w)"
  "sys_ifaddr (loopback self) fd nm w = ((0, if nm = ''lo'' then [127, 0, 0, 1] else ip self), w)"
  "sys_hwaddr (loopback self) fd nm w = ((0, mac self), w)"
  by (simp_all add: loopback_def)

end
