(* ===== verification/Socket_Properties.thy ===== *)
theory Socket_Properties
  imports Loopback Packet_Properties Management_Properties
begin

text \<open>
  The properties of the sockets: the magic packet, what a server and a client return, when
  they return, what a malformed datagram does to them, and what the calls leave behind in the
  operating system.
\<close>

section \<open>The loaded addresses\<close>

definition loadable :: "NodeAddresses \<Rightarrow> bool" where
  "loadable a \<longleftrightarrow> is_mac (mac a) \<and> is_ip (ip a) \<and> CHR 0x00 \<notin> set (hostname a)
     \<and> ip a \<noteq> [127, 0, 0, 1]"

lemma load_host_loopback:
  assumes "loadable self"
  shows "load_host (loopback self) p =
    (Inr self, p\<lparr>world := (world p)\<lparr>next_fd := Suc (Suc (next_fd (world p)))\<rparr>\<rparr>)"
proof -
  have "takeWhile (\<lambda>c. c \<noteq> CHR 0x00) (hostname self @ [CHR 0x00]) = hostname self"
    using assms by (intro takeWhile_prefix) (auto simp: loadable_def)
  then have "takeWhile (\<lambda>c. c \<noteq> CHR 0x00) (hostname self @ [CHR 0x00]) = hostname self"
    "take 4 (ip self) = ip self" "take 6 (mac self) = mac self" "[127, 0, 0, 1] \<noteq> ip self"
    using assms by (auto simp: loadable_def is_mac_def is_ip_def)
  then show ?thesis
    by (simp add: load_host_def load_hostname_def load_ip_def load_mac_def andthen_assoc
        andthen_sys NodeAddresses_new_def prog_simps)
qed

section \<open>The text of a datagram\<close>

lemma message_buffer_exact [simp]: "length m \<le> STR_BUF_SIZE \<Longrightarrow> message_buffer (length m) m = m"
  by (simp add: message_buffer_def Let_def)

lemma no_field_end_fails:
  assumes "FIELD_END \<notin> set m"
  shows "\<exists>e. fst (packet_deserialize q (PacketDeserializer_new m)) = Inl e"
proof -
  have "length m \<le> probe m 0 False"
    using probe_stops [of m 0 False] assms by (metis nth_mem not_le)
  then show ?thesis
    by (simp add: packet_deserialize_def header_deserialize_def read_uint_def probe_field_end_def
        PacketDeserializer_new_def andthen_def)
qed

section \<open>Receiving on the loopback network\<close>

definition idle_flags :: "net process \<Rightarrow> bool" where
  "idle_flags p \<longleftrightarrow> flags_of (world p) = 2 \<or> flags_of (world p) = 2050"

lemma loopback_try_receive_string:
  assumes "idle_flags p"
  shows "receiver_try_receive_string (loopback self) fd p =
    (case inbox (world p) of
       [] \<Rightarrow> (Inr None, p\<lparr>world := (world p)\<lparr>flags_of := 2050, last_error := 11\<rparr>\<rparr>)
     | m # ms \<Rightarrow> (Inr (Some (take STR_BUF_SIZE m)), p\<lparr>world := (world p)\<lparr>inbox := ms\<rparr>\<rparr>))"
proof -
  obtain f where f: "flags_of (world p) = f" "f = 2 \<or> f = 2050"
    using assms by (auto simp: idle_flags_def)
  show ?thesis
    using f(2) message_buffer_exact [of "take STR_BUF_SIZE (hd (inbox (world p)))"]
    by (elim disjE; cases "inbox (world p)")
      (auto simp: receiver_try_receive_string_def receiver_try_receive_def f
        receive_with_block_type_def andthen_assoc andthen_sys loop_receive_def prog_simps
        min_def)
qed

lemma loopback_receive_string:
  assumes "inbox (world p) = m # ms" and "length m \<le> STR_BUF_SIZE" and "0 \<le> flags_of (world p)"
  shows "receiver_receive_string (loopback self) fd p =
    (Inr m, p\<lparr>world := (world p)\<lparr>inbox := ms\<rparr>\<rparr>)"
  using assms
  by (simp add: receiver_receive_string_def receiver_receive_def receive_with_block_type_def
      andthen_assoc andthen_sys loop_receive_def prog_simps)

section \<open>What a server accepts\<close>

text \<open>A packet the deserializer accepted; a packet that was read without a failure is \<open>typed\<close>.\<close>

definition accepted :: "Packet \<Rightarrow> bool" where
  "accepted pk \<longleftrightarrow> packet_type (body pk) = DISCOVERY \<and> typed_header (header pk)"

lemma deserialize_message_accepts:
  "deserialize_message q m p = (Inr (ok, q'), p') \<Longrightarrow> typed_header (header q') \<and> (ok \<longrightarrow> accepted q')"
  using accepted_is_discovery [of q "PacketDeserializer_new m" q']
    packet_deserialize_typed [of q "PacketDeserializer_new m" ok q']
  by (cases "packet_deserialize q (PacketDeserializer_new m)")
    (auto simp: deserialize_message_def accepted_def prog_simps split: sum.splits)

lemma receive_packet_accepts:
  "receiver_receive_packet E fd q p = (Inr (True, q'), p') \<Longrightarrow> accepted q'"
  by (auto simp: receiver_receive_packet_def andthen_result_Inr dest: deserialize_message_accepts)

lemma try_receive_packet_accepts:
  "receiver_try_receive_packet E fd q p = (Inr (Some ok, q'), p') \<Longrightarrow>
    typed_header (header q') \<and> (ok \<longrightarrow> accepted q')"
  by (auto simp: receiver_try_receive_packet_def andthen_result_Inr ret_def
      split: option.splits prod.splits dest: deserialize_message_accepts)

lemma response_round_accepts:
  "response_round E req us fd q p = (Inr (True, q'), p') \<Longrightarrow> accepted q'"
  by (auto simp: response_round_def andthen_result_Inr ret_def
      split: if_splits prod.splits dest: try_receive_packet_accepts)

lemma server_loop_accepts:
  assumes "server_receive_loop E fd q p = Some r"
  shows "\<forall>packet. fst r = Inr packet \<longrightarrow> accepted packet"
  by (rule server_receive_loop.raw_induct [OF _ assms, where P =
      "\<lambda>E fd q p r. \<forall>packet. fst r = Inr packet \<longrightarrow> accepted packet"])
    (auto split: prod.splits sum.splits if_splits dest: receive_packet_accepts)

lemma response_loop_accepts:
  assumes "receive_response_loop E req us fd q p = Some r"
  shows "\<forall>packet. fst r = Inr packet \<longrightarrow> accepted packet"
  by (rule receive_response_loop.raw_induct [OF _ assms, where P =
      "\<lambda>E req us fd q p r. \<forall>packet. fst r = Inr packet \<longrightarrow> accepted packet"])
    (auto split: prod.splits sum.splits if_splits dest: response_round_accepts)

lemma server_receive_accepts:
  "server_receive E fd p = Some (Inr packet, q) \<Longrightarrow> accepted packet"
  using server_loop_accepts [of E fd Packet_new p] by (auto simp: server_receive_def)

lemma receive_response_accepts:
  "receive_response E req port us p = Some (Inr packet, q) \<Longrightarrow> accepted packet"
  by (auto simp: receive_response_def dest!: response_loop_accepts split: prod.splits sum.splits)

lemma server_try_receive_typed:
  "server_try_receive E fd p = (Inr (Some packet), q) \<Longrightarrow> typed_header (header packet)"
  by (auto simp: server_try_receive_def andthen_result_Inr ret_def
      split: option.splits dest: try_receive_packet_accepts)

lemma server_loop_skips:
  assumes "\<And>i. i < n \<Longrightarrow>
      receiver_receive_packet E fd (pk i) (st i) = (Inr (False, pk (Suc i)), st (Suc i))"
    and "receiver_receive_packet E fd (pk n) (st n) = (Inr (True, packet), q)"
  shows "server_receive_loop E fd (pk 0) (st 0) = Some (Inr packet, q)"
  using assms
proof (induction n arbitrary: pk st)
  case 0
  then show ?case by (subst server_receive_loop.simps) simp
next
  case (Suc n)
  have "server_receive_loop E fd (pk (Suc 0)) (st (Suc 0)) = Some (Inr packet, q)"
    using Suc.prems Suc.IH [of "\<lambda>i. pk (Suc i)" "\<lambda>i. st (Suc i)"] by simp
  then show ?case using Suc.prems(1) [of 0] by (subst server_receive_loop.simps) simp
qed

text \<open>A message without a semicolon makes the loop throw, after any number of packets that it skips.\<close>

lemma malformed_message_fails:
  assumes "receiver_receive_string E fd p = (Inr m, p')" and "FIELD_END \<notin> set m"
  shows "\<exists>e. receiver_receive_packet E fd q p = (Inl e, p')"
  using no_field_end_fails [OF assms(2), of q] assms(1)
  by (auto simp: receiver_receive_packet_def andthen_Inr deserialize_message_def throw_def)

lemma server_loop_fails:
  assumes "\<And>i. i < n \<Longrightarrow>
      receiver_receive_packet E fd (pk i) (st i) = (Inr (False, pk (Suc i)), st (Suc i))"
    and "receiver_receive_packet E fd (pk n) (st n) = (Inl e, q)"
  shows "server_receive_loop E fd (pk 0) (st 0) = Some (Inl e, q)"
  using assms
proof (induction n arbitrary: pk st)
  case 0
  then show ?case by (subst server_receive_loop.simps) simp
next
  case (Suc n)
  have "server_receive_loop E fd (pk (Suc 0)) (st (Suc 0)) = Some (Inl e, q)"
    using Suc.prems Suc.IH [of "\<lambda>i. pk (Suc i)" "\<lambda>i. st (Suc i)"] by simp
  then show ?case using Suc.prems(1) [of 0] by (subst server_receive_loop.simps) simp
qed

section \<open>Clients on a silent network\<close>

definition silent :: "net process \<Rightarrow> bool" where
  "silent p \<longleftrightarrow> idle_flags p \<and> inbox (world p) = []"

text \<open>What one unanswered round does.\<close>

definition retried :: "client_request \<Rightarrow> uint64 \<Rightarrow> net process \<Rightarrow> net process" where
  "retried req us p = p\<lparr>world := (world p)\<lparr>flags_of := 2050, last_error := 11,
     slept := slept (world p) @ [(int (unat (us div 1000000)), sint (us * 1000))],
     outbox := outbox (world p) @ [(sent_packet req, dest_ip_address req, dest_port req)],
     next_fd := Suc (next_fd (world p)), closed := closed (world p) @ [int (next_fd (world p))]\<rparr>\<rparr>"

lemma request_send_loopback:
  "request_send (loopback self) req p =
    (Inr (), p\<lparr>world := (world p)\<lparr>
       outbox := outbox (world p) @ [(sent_packet req, dest_ip_address req, dest_port req)],
       next_fd := Suc (next_fd (world p)), closed := closed (world p) @ [int (next_fd (world p))]\<rparr>\<rparr>)"
  by (simp add: request_send_def with_sender_def UdpSenderSocket_new_def andthen_assoc andthen_sys
      sender_enable_broadcast_def sender_send_def UdpSenderSocket_delete_def sys_effect_def prog_simps)

lemma silent_round:
  assumes "silent p"
  shows "response_round (loopback self) req us fd q p = (Inr (False, q), retried req us p)"
  using assms
  by (simp add: response_round_def receiver_try_receive_packet_def silent_def andthen_assoc
      loopback_try_receive_string request_send_loopback retry_wait_def sys_effect_def retried_def
      prog_simps)

lemma silent_retried: "silent p \<Longrightarrow> silent (retried req us p)"
  by (simp add: silent_def idle_flags_def retried_def)

lemma silent_bounded_loop:
  "silent p \<Longrightarrow> receive_bounded_loop (loopback self) req us fd n q p =
    (Inr q, (retried req us ^^ n) p)"
proof (induction n arbitrary: p)
  case (Suc n)
  then show ?case
    by (simp add: andthen_Inr [OF silent_round] silent_retried funpow_swap1)
qed (simp add: ret_def)

lemma retried_many:
  "outbox (world ((retried req us ^^ n) p)) =
    outbox (world p) @ replicate n (sent_packet req, dest_ip_address req, dest_port req)"
  "slept (world ((retried req us ^^ n) p)) =
    slept (world p) @ replicate n (int (unat (us div 1000000)), sint (us * 1000))"
  by (induction n) (simp_all add: retried_def replicate_append_same [symmetric])

section \<open>The magic packet\<close>

lemma fold_write:
  assumes "k + length m \<le> length p"
  shows "fold (\<lambda>j p. p[k + j := m ! j]) [0..<length m] p = take k p @ m @ drop (k + length m) p"
  using assms
proof (induction m rule: rev_induct)
  case (snoc x m)
  have eq: "fold (\<lambda>j p. p[k + j := (m @ [x]) ! j]) [0..<length m] p =
      fold (\<lambda>j p. p[k + j := m ! j]) [0..<length m] p"
    by (rule fold_cong) (simp_all add: nth_append)
  have "drop (k + length m) p = p ! (k + length m) # drop (Suc (k + length m)) p"
    using snoc.prems by (simp add: Cons_nth_drop_Suc)
  then show ?case
    using snoc by (simp add: eq list_update_append)
qed simp

lemma fold_write_copies:
  assumes "6 + n * 6 \<le> length p" and "length m = 6"
  shows "fold (\<lambda>i p. fold (\<lambda>j p. p[6 + i * 6 + j := m ! j]) [0..<length m] p) [0..<n] p =
    take 6 p @ concat (replicate n m) @ drop (6 + n * 6) p"
  using assms
proof (induction n)
  case (Suc n)
  let ?q = "take 6 p @ concat (replicate n m) @ drop (6 + n * 6) p"
  have len: "length (concat (replicate n m)) = n * 6"
    using Suc.prems(2) by (induction n) simp_all
  have "fold (\<lambda>j p. p[6 + n * 6 + j := m ! j]) [0..<length m] ?q =
      take (6 + n * 6) ?q @ m @ drop (6 + n * 6 + length m) ?q"
    using Suc.prems len by (intro fold_write) simp
  then show ?case
    using Suc len by (simp add: replicate_append_same [symmetric] add.commute)
qed simp

lemma fold_fill:
  "n \<le> length p \<Longrightarrow> fold (\<lambda>i p. p[i := x]) [0..<n] p = replicate n x @ drop n p"
proof (induction n)
  case (Suc n)
  then show ?case
    by (simp add: list_update_append Cons_nth_drop_Suc [of n p, symmetric] replicate_append_same)
qed simp

section \<open>Whole packets on the network\<close>

text \<open>Every packet of a host with a name of at most 255 characters fits in the receive buffer.\<close>

lemma length_to_string: "length (to_string (n :: uint64)) \<le> 20"
proof -
  have "unat n < 10 ^ Suc 19" using unat_less_length [of n] by simp
  then show ?thesis using length_show_radix_less [of 10 "unat n" 19] by (simp add: to_string_def)
qed

lemma length_escape_loop: "length (escape_loop e h) \<le> length h"
proof (induction e h rule: escape_loop.induct)
  case (2 e ch h)
  then show ?case by (cases e) (auto simp: le_Suc_eq)
qed simp

lemma packet_text_short:
  assumes "wf_addresses (sender_addresses (header p))"
    and "length (hostname (sender_addresses (header p))) \<le> 255"
  shows "length (packet_text p) \<le> 374"
  using assms address_lengths [of "mac (sender_addresses (header p))" "ip (sender_addresses (header p))"]
    length_escape_loop [of False "hostname (sender_addresses (header p))"]
    length_to_string [of "seqn (header p)"] length_to_string [of "timestamp (header p)"]
    length_to_string [of "direction_code (direction (header p))"]
    length_to_string [of "type_code (packet_type (body p))"]
  by (simp add: packet_text_fields wf_addresses_def)

text \<open>What a receiver of the serialized packet gets.\<close>

definition packet_view :: "Packet \<Rightarrow> Packet \<Rightarrow> Packet" where
  "packet_view p q = q\<lparr>header := header_view (header p),
     body := (if packet_type (body p) = DISCOVERY then (body q)\<lparr>packet_type := DISCOVERY\<rparr> else body q)\<rparr>"

lemma deserialize_message_text:
  "header_ok (header pk) \<Longrightarrow>
    deserialize_message q (packet_text pk) p = (Inr (packet_type (body pk) = DISCOVERY, packet_view pk q), p)"
  using packet_deserialize_text [of pk "PacketDeserializer_new (packet_text pk)" q]
  by (simp add: deserialize_message_def packet_view_def remaining_def PacketDeserializer_new_def ret_def)

text \<open>A packet of a program of this repository: a valid host with a short plain name.\<close>

definition sendable :: "Packet \<Rightarrow> bool" where
  "sendable pk \<longleftrightarrow> header_ok (header pk) \<and> length (hostname (sender_addresses (header pk))) \<le> 255"

lemma sendable_short: "sendable pk \<Longrightarrow> length (packet_text pk) \<le> STR_BUF_SIZE"
  using packet_text_short [of pk] by (simp add: sendable_def header_ok_def STR_BUF_SIZE_def)

text \<open>A host of this program whose name has no backslash; the transport drops such a name.\<close>

definition plain_host :: "NodeAddresses \<Rightarrow> bool" where
  "plain_host a \<longleftrightarrow> loadable a \<and> BACKSLASH \<notin> set (hostname a) \<and> length (hostname a) \<le> 255"

lemma plain_host_sendable:
  "plain_host (sender_addresses (header pk)) \<Longrightarrow> sendable pk"
  by (simp add: plain_host_def loadable_def sendable_def header_ok_def wf_addresses_def
      escape_loop_no_backslash)

lemma sendable_example: "sendable (example_packet t)"
  using example_packet_ok [of t] by (simp add: sendable_def) (simp add: example_packet_def)

lemma example_packet_type [simp]: "packet_type (body (example_packet t)) = t"
  by (simp add: example_packet_def)

lemma loopback_receive_packet:
  assumes "inbox (world p) = packet_text pk # ms" and "sendable pk" and "0 \<le> flags_of (world p)"
  shows "receiver_receive_packet (loopback self) fd q p =
    (Inr (packet_type (body pk) = DISCOVERY, packet_view pk q), p\<lparr>world := (world p)\<lparr>inbox := ms\<rparr>\<rparr>)"
  using assms loopback_receive_string [OF assms(1) sendable_short]
  by (simp add: receiver_receive_packet_def andthen_Inr deserialize_message_text sendable_def)

lemma loopback_try_receive_packet:
  assumes "inbox (world p) = packet_text pk # ms" and "sendable pk" and "idle_flags p"
  shows "receiver_try_receive_packet (loopback self) fd q p =
    (Inr (Some (packet_type (body pk) = DISCOVERY), packet_view pk q),
     p\<lparr>world := (world p)\<lparr>inbox := ms\<rparr>\<rparr>)"
  using assms loopback_try_receive_string [OF assms(3), of self fd]
  by (simp add: receiver_try_receive_packet_def andthen_Inr deserialize_message_text sendable_def
      sendable_short ret_def)

section \<open>Requests without an answer\<close>

text \<open>What waits in the inbox are packets the deserializer rejects, if anything.\<close>

definition unanswered :: "net process \<Rightarrow> bool" where
  "unanswered p \<longleftrightarrow> idle_flags p \<and> (\<exists>pks. inbox (world p) = map packet_text pks
     \<and> list_all sendable pks \<and> list_all (\<lambda>pk. packet_type (body pk) \<noteq> DISCOVERY) pks)"

lemma silent_unanswered: "silent p \<Longrightarrow> unanswered p"
  by (auto simp: silent_def unanswered_def)

lemma unanswered_cong:
  "inbox (world q) = inbox (world p) \<Longrightarrow> flags_of (world q) = flags_of (world p) \<Longrightarrow>
    unanswered q = unanswered p"
  by (simp add: unanswered_def idle_flags_def)

lemma unanswered_round:
  assumes "unanswered p"
  shows "\<exists>q' p'. response_round (loopback self) req us fd q p = (Inr (False, q'), p') \<and> unanswered p'"
proof -
  obtain pks where pks: "inbox (world p) = map packet_text pks" "list_all sendable pks"
    "list_all (\<lambda>pk. packet_type (body pk) \<noteq> DISCOVERY) pks" "idle_flags p"
    using assms by (auto simp: unanswered_def)
  show ?thesis
  proof (cases pks)
    case Nil
    then have "silent p" using pks by (simp add: silent_def)
    then show ?thesis using silent_round silent_retried silent_unanswered by blast
  next
    case (Cons pk rest)
    then show ?thesis
      using pks loopback_try_receive_packet [of p pk "map packet_text rest" self fd q]
      by (auto simp: response_round_def andthen_def ret_def request_send_loopback retry_wait_def
          modify_def sys_effect_def unanswered_def idle_flags_def)
  qed
qed

lemma unanswered_response_loop:
  assumes "receive_response_loop (loopback self) req us fd q p = Some r"
  shows "\<not> unanswered p"
proof -
  have "E = loopback self \<longrightarrow> \<not> unanswered p"
    if "receive_response_loop E req us fd q p = Some r" for E
  proof (rule receive_response_loop.raw_induct [OF _ that, where P =
        "\<lambda>E req us fd q p r. E = loopback self \<longrightarrow> \<not> unanswered p"])
    fix loop E req us fd q p r
    assume ih: "\<And>E req us fd q p r. loop E req us fd q p = Some r \<Longrightarrow> E = loopback self \<longrightarrow> \<not> unanswered p"
      and step: "(case response_round E req us fd q p of (Inl e, p') \<Rightarrow> Some (Inl e, p')
        | (Inr (done, packet), p') \<Rightarrow> if done then Some (Inr packet, p')
            else loop E req us fd packet p') = Some r"
    have "False" if u: "unanswered p" and E: "E = loopback self"
    proof -
      obtain q' p' where "response_round E req us fd q p = (Inr (False, q'), p')" "unanswered p'"
        using unanswered_round [OF u] E by blast
      then show False using step ih [of E req us fd q' p' r] E by simp
    qed
    then show "E = loopback self \<longrightarrow> \<not> unanswered p" by blast
  qed
  with assms show ?thesis by simp
qed

lemma unanswered_receive_response:
  assumes "unanswered p"
  shows "receive_response (loopback self) req port us p = None"
proof -
  let ?p = "p\<lparr>world := (world p)\<lparr>next_fd := Suc (next_fd (world p))\<rparr>\<rparr>"
  have "unanswered ?p" using assms by (simp add: unanswered_def idle_flags_def)
  then have "receive_response_loop (loopback self) req us (int (next_fd (world p))) Packet_new ?p = None"
    using unanswered_response_loop [of self req us _ Packet_new ?p] by (metis not_Some_eq)
  then show ?thesis
    by (simp add: receive_response_def UdpReceiverSocket_new_def andthen_assoc andthen_sys ret_def)
qed

section \<open>Properties\<close>

text \<open>
  The magic packet is the standard one, whatever the array held before: six bytes 255, then
  sixteen copies of the MAC address, 102 bytes in all.
\<close>

lemma magic_packet_layout:
  assumes "length packet = MAGIC_PACKET_SIZE" and "is_mac m"
  shows "magic_packet packet m = replicate 6 255 @ concat (replicate 16 m)
    \<and> length (magic_packet packet m) = MAGIC_PACKET_SIZE"
proof -
  have "magic_packet packet m = replicate 6 255 @ concat (replicate 16 m)"
    using assms fold_write_copies [of 16 "replicate 6 255 @ drop 6 packet" m]
    by (simp add: magic_packet_def fold_fill MAGIC_PACKET_SIZE_def is_mac_def)
  moreover have "length (concat (replicate 16 m)) = 96"
    using assms(2) by (simp add: is_mac_def length_concat sum_list_replicate)
  ultimately show ?thesis by (simp add: MAGIC_PACKET_SIZE_def)
qed

lemma magic_packet_layout_witness:
  "take 12 (magic_packet (replicate 102 0) [1, 2, 3, 4, 5, 6]) =
    [255, 255, 255, 255, 255, 255, 1, 2, 3, 4, 5, 6]"
  using magic_packet_layout [of "replicate 102 0" "[1, 2, 3, 4, 5, 6]"]
  by (simp add: MAGIC_PACKET_SIZE_def is_mac_def numeral_eq_Suc)

text \<open>
  C32: What the sockets return is typed, on every network: a packet that \<open>ServerSocket::receive\<close>
  or \<open>Request::receive_response\<close> returns is of type \<open>DISCOVERY\<close>, and in it, as in one that
  \<open>ServerSocket::try_receive\<close> returns, the addresses of the sender have 6 and 4 bytes and the
  sequence number and the time stamp are below 65536. So an address a program renders or sends
  to is never a partial one.
\<close>

theorem received_packets_typed:
  "(server_receive E fd p = Some (Inr packet, q) \<longrightarrow>
      packet_type (body packet) = DISCOVERY \<and> typed_header (header packet))
   \<and> (receive_response E req port us p = Some (Inr packet', q') \<longrightarrow>
      packet_type (body packet') = DISCOVERY \<and> typed_header (header packet'))
   \<and> (server_try_receive E fd p = (Inr (Some packet''), q'') \<longrightarrow> typed_header (header packet''))"
  using server_receive_accepts [of E fd p packet q] receive_response_accepts [of E req port us p packet' q']
    server_try_receive_typed [of E fd p packet'' q'']
  by (simp add: accepted_def)

text \<open>
  A server gets through rejected datagrams: if any number of receives ends in a packet that
  the deserializer does not accept and the next in one it accepts, \<open>ServerSocket::receive\<close>
  returns, with this packet.
\<close>

lemma server_receive_returns:
  assumes "\<And>i. i < n \<Longrightarrow>
      receiver_receive_packet E fd (pk i) (st i) = (Inr (False, pk (Suc i)), st (Suc i))"
    and "receiver_receive_packet E fd (pk n) (st n) = (Inr (True, packet), q)"
    and "pk 0 = Packet_new"
  shows "server_receive E fd (st 0) = Some (Inr packet, q)"
  using server_loop_skips [of n E fd pk st, OF assms(1,2)] assms(3) by (simp add: server_receive_def)

definition net_with :: "string list \<Rightarrow> net process" where
  "net_with ms = boot (quiet_net\<lparr>inbox := ms\<rparr>)"

lemma net_with_simps [simp]:
  "inbox (world (net_with ms)) = ms" "flags_of (world (net_with ms)) = 2" "idle_flags (net_with ms)"
  "(net_with ms)\<lparr>world := (world (net_with ms))\<lparr>inbox := ms'\<rparr>\<rparr> = net_with ms'"
  by (simp_all add: net_with_def boot_def quiet_net_def idle_flags_def)

lemma server_receive_returns_witness:
  "server_receive (loopback host_a) 3
     (net_with [packet_text (example_packet EXIT), packet_text (example_packet DISCOVERY)]) =
   Some (Inr (packet_view (example_packet DISCOVERY) (packet_view (example_packet EXIT) Packet_new)),
     net_with [])"
  using server_receive_returns [of 1 "loopback host_a" 3
      "\<lambda>i. if i = 0 then Packet_new else packet_view (example_packet EXIT) Packet_new"
      "\<lambda>i. net_with (if i = 0
         then [packet_text (example_packet EXIT), packet_text (example_packet DISCOVERY)]
         else [packet_text (example_packet DISCOVERY)])"]
  by (simp add: loopback_receive_packet [OF _ sendable_example])

theorem received_packets_typed_witness:
  "typed_header (header (packet_view (example_packet DISCOVERY) Packet_new))"
proof -
  have "server_receive (loopback host_a) 3 (net_with [packet_text (example_packet DISCOVERY)]) =
      Some (Inr (packet_view (example_packet DISCOVERY) Packet_new), net_with [])"
    unfolding server_receive_def
    by (subst server_receive_loop.simps) (simp add: loopback_receive_packet [OF _ sendable_example])
  then show ?thesis using received_packets_typed by blast
qed

text \<open>The two receives that look at the type accept \<open>DISCOVERY\<close> only.\<close>

lemma sockets_accept_only_discovery:
  "(server_receive E fd p = Some (Inr packet, q) \<longrightarrow> packet_type (body packet) = DISCOVERY)
   \<and> (receive_response E req port us p = Some (Inr packet', q') \<longrightarrow> packet_type (body packet') = DISCOVERY)"
  using server_receive_accepts [of E fd p packet q] receive_response_accepts [of E req port us p packet' q']
  by (simp add: accepted_def)

text \<open>
  \<open>receive_bounded\<close> never returns the empty optional: on every network, if it returns at all
  it returns a packet, so its caller cannot tell an unanswered request from an answered one.
\<close>

lemma receive_bounded_never_empty:
  assumes "receive_bounded E req retry_bound port us p = (Inr r, q)"
  shows "r \<noteq> None"
  using assms
  by (auto simp: receive_bounded_def with_receiver_def with_destructor_result andthen_result_Inr ret_def)

lemma receive_bounded_never_empty_witness:
  "\<exists>r q. receive_bounded (loopback host_a) \<lparr>sent_packet = ''x'', dest_ip_address = [10, 0, 0, 2], dest_port = 9\<rparr>
      3 SLEEP_STATUS_PORT DEFAULT_TRY_US (net_with []) = (Inr r, q) \<and> r \<noteq> None"
proof -
  let ?req = "\<lparr>sent_packet = ''x'', dest_ip_address = [10, 0, 0, 2], dest_port = 9\<rparr>"
  have "silent ((net_with [])\<lparr>world := (world (net_with []))\<lparr>next_fd := n\<rparr>\<rparr>)" for n
    by (simp add: silent_def idle_flags_def net_with_def boot_def quiet_net_def)
  then obtain r q where "receive_bounded (loopback host_a) ?req 3 SLEEP_STATUS_PORT DEFAULT_TRY_US
      (net_with []) = (Inr r, q)"
    by (simp add: receive_bounded_def with_receiver_def UdpReceiverSocket_new_def andthen_assoc
        andthen_sys andthen_Inr [OF silent_bounded_loop] with_destructor_def ret_def)
  then show ?thesis using receive_bounded_never_empty by blast
qed

text \<open>
  C30: A request that nobody answers: \<open>receive_response\<close> never returns, while \<open>receive_bounded\<close>
  sends the request and sleeps once for each retry and then returns a default packet.
\<close>

theorem unanswered_requests:
  assumes "silent p"
  shows "receive_response (loopback self) req port us p = None
    \<and> (\<exists>q. receive_bounded (loopback self) req n port us p = (Inr (Some Packet_new), q)
        \<and> outbox (world q) = outbox (world p) @
            replicate (unat n) (sent_packet req, dest_ip_address req, dest_port req)
        \<and> slept (world q) = slept (world p) @
            replicate (unat n) (int (unat (us div 1000000)), sint (us * 1000)))"
proof -
  let ?p = "p\<lparr>world := (world p)\<lparr>next_fd := Suc (next_fd (world p))\<rparr>\<rparr>"
  have s: "silent ?p" using assms by (simp add: silent_def idle_flags_def)
  have new: "UdpReceiverSocket_new (loopback self) port p = (Inr (int (next_fd (world p))), ?p)"
    by (simp add: UdpReceiverSocket_new_def andthen_assoc andthen_sys ret_def)
  have bounded: "receive_bounded_loop (loopback self) req us (int (next_fd (world p))) (unat n) Packet_new ?p
      = (Inr Packet_new, (retried req us ^^ unat n) ?p)"
    using silent_bounded_loop [OF s] .
  have "receive_response (loopback self) req port us p = None"
    using assms by (intro unanswered_receive_response silent_unanswered)
  moreover have "\<exists>q. receive_bounded (loopback self) req n port us p = (Inr (Some Packet_new), q)
        \<and> outbox (world q) = outbox (world p) @
            replicate (unat n) (sent_packet req, dest_ip_address req, dest_port req)
        \<and> slept (world q) = slept (world p) @
            replicate (unat n) (int (unat (us div 1000000)), sint (us * 1000))"
    by (simp add: receive_bounded_def with_receiver_def andthen_def new bounded with_destructor_def
        ret_def UdpReceiverSocket_delete_def sys_effect_def retried_many)
  ultimately show ?thesis by blast
qed

theorem unanswered_requests_witness:
  "receive_response (loopback host_a)
      \<lparr>sent_packet = ''x'', dest_ip_address = [10, 0, 0, 2], dest_port = 9\<rparr> 9040 DEFAULT_TRY_US
      (net_with []) = None"
  using unanswered_requests [of "net_with []"] by (simp add: silent_def)

text \<open>
  The flags of a descriptor, on a kernel where \<open>F_GETFL\<close> reads what \<open>F_SETFL\<close> set and a receive
  leaves it alone: a receive that got a message restores the flags, one that found none leaves
  the descriptor non-blocking.
\<close>

lemma try_receive_leaves_nonblocking:
  assumes getfl: "\<And>w. sys_getfl E fd w = (fl w, w)"
    and setfl: "\<And>w f. fl (snd (sys_setfl E fd f w)) = f"
    and recv: "\<And>w n. fl (snd (sys_recvfrom E fd n w)) = fl w"
    and result: "receiver_try_receive E fd capacity p = (Inr r, q)"
  shows "fl (world q) =
    (if r = None then or (fl (world p)) (O_NONBLOCK E) else fl (world p))"
  using result setfl recv
  by (auto simp: receiver_try_receive_def receive_with_block_type_def andthen_sys getfl ret_def
      throw_io_def throw_def andthen_assoc split: if_splits prod.splits)

lemma try_receive_leaves_nonblocking_witness:
  "\<exists>q. receiver_try_receive (loopback host_a) 3 10 (net_with []) = (Inr None, q)
    \<and> flags_of (world q) = 2050"
proof -
  obtain q where "receiver_try_receive (loopback host_a) 3 10 (net_with []) = (Inr None, q)"
    by (simp add: receiver_try_receive_def receive_with_block_type_def andthen_assoc andthen_sys
        loop_receive_def prog_simps)
  moreover from this have "flags_of (world q) = 2050"
    using try_receive_leaves_nonblocking [of "loopback host_a" 3 flags_of 10 "net_with []" None q]
    by (simp add: loop_receive_def split: list.splits)
  ultimately show ?thesis by blast
qed

text \<open>
  \<open>ServerSocket::try_receive\<close> takes a packet the deserializer rejected for an accepted one:
  a waiting packet of any type becomes a request, with the addresses of its sender and the
  type \<open>DISCOVERY\<close> of a new packet.
\<close>

lemma try_receive_takes_any_type:
  assumes "receiver_try_receive_string E fd p = (Inr (Some (packet_text pk)), p')"
    and "header_ok (header pk)"
  shows "server_try_receive E fd p = (Inr (Some (packet_view pk Packet_new)), p')
    \<and> header (packet_view pk Packet_new) = header_view (header pk)
    \<and> packet_type (body (packet_view pk Packet_new)) = DISCOVERY"
  using assms
  by (simp add: server_try_receive_def receiver_try_receive_packet_def andthen_Inr andthen_assoc
      deserialize_message_text packet_view_def ret_def) (simp add: Packet_new_def PacketBody_new_def)

lemma try_receive_takes_any_type_witness:
  "server_try_receive (loopback host_a) 3 (net_with [packet_text (example_packet WOL)]) =
    (Inr (Some (packet_view (example_packet WOL) Packet_new)), net_with [])"
  using try_receive_takes_any_type [of "loopback host_a" 3
      "net_with [packet_text (example_packet WOL)]" "example_packet WOL" "net_with []"]
    loopback_try_receive_string [of "net_with [packet_text (example_packet WOL)]" host_a 3]
    sendable_short [OF sendable_example, of WOL]
  by (simp add: example_packet_ok)

text \<open>
  Finding the addresses of the host never closes a descriptor: the result and the effects
  are the same whatever \<open>close\<close> does, although a socket is opened for every interface looked at.
\<close>

lemma load_host_never_closes:
  "load_host (E\<lparr>sys_close := f\<rparr>) = load_host E"
proof -
  have throw: "throw_io (E\<lparr>sys_close := f\<rparr>) = throw_io E"
    by (simp add: fun_eq_iff throw_io_def)
  have "load_mac_loop (E\<lparr>sys_close := f\<rparr>) a names = load_mac_loop E a names" for a names
    by (induction names) (simp_all add: throw cong: if_cong)
  then show ?thesis
    by (simp add: load_host_def load_hostname_def load_ip_def load_mac_def throw cong: if_cong)
qed

text \<open>
  The wait before a retry: \<open>tv_nsec\<close> gets all the microseconds, not those beyond the full
  seconds. Up to the largest value that does not overflow, what is handed to \<open>nanosleep\<close> is a
  valid time, with fewer than a thousand million nanoseconds, exactly if the wait is shorter than
  a second; the default wait is, and its length is right.
\<close>

lemma retry_wait_bounds:
  assumes "unat us * 1000 < 2 ^ 63"
  shows "retry_wait E us p = (Inr (), p\<lparr>world := sys_nanosleep E (int (unat us div 1000000))
      (int (unat us * 1000)) (world p)\<rparr>)
    \<and> (int (unat us * 1000) < 1000000000 \<longleftrightarrow> unat us < 1000000)
    \<and> (int (unat us div 1000000) * 1000000000 + int (unat us * 1000) = int (unat us) * 1000
        \<longleftrightarrow> unat us < 1000000)
    \<and> unat DEFAULT_TRY_US < 1000000"
proof -
  have u: "int (unat us) = uint us" by simp
  have "125 * unat us < 1152921504606846976" using assms by simp
  then have small: "125 * uint us < 1152921504606846976" unfolding u [symmetric] by linarith
  then have "uint (us * 1000) = int (unat us * 1000)"
    by (simp add: uint_word_ariths mod_pos_pos_trivial)
  then have "sint (us * 1000) = int (unat us * 1000)"
    using small signed_take_bit_int_eq_self [of 63 "uint us * 1000"] uint_ge_0 [of us]
    by (simp add: sint_uint)
  moreover have "unat (us div 1000000) = unat us div 1000000"
    by (simp add: unat_div_distrib)
  moreover have "uint us < 1000000 \<longleftrightarrow> unat us < 1000000"
    unfolding u [symmetric] by linarith
  ultimately show ?thesis
    by (simp add: retry_wait_def modify_def sys_effect_def DEFAULT_TRY_US_def div_eq_0_iff)
qed

lemma retry_wait_bounds_witness:
  "slept (world (snd (retry_wait (loopback host_a) 1500000 (net_with [])))) = [(1, 1500000000)]"
  using retry_wait_bounds [of 1500000 "loopback host_a" "net_with []"]
  by (simp add: net_with_def boot_def quiet_net_def)

end
