(* ===== verification/Discovery.thy ===== *)
theory Discovery
  imports Socket_Properties Management_Properties
begin

text \<open>
  The state the manager's threads share, and the discovery thread (\<open>discovery.cpp\<close>): it answers
  each discovery request in a thread of its own, which enrolls the sender and sends a response.
\<close>

section \<open>The state of the manager\<close>

record ('w, 'x) manager =
  host :: "'w process"
  service :: "'x ManagementService"

type_synonym ('w, 'x, 'a) manager_io = "(('w, 'x) manager, 'a) action"

definition on_host :: "('w, 'a) io \<Rightarrow> ('w, 'x, 'a) manager_io" where
  "on_host c m = (case c (host m) of (r, p) \<Rightarrow> (r, m\<lparr>host := p\<rparr>))"

definition on_service :: "('x ManagementService \<Rightarrow> 'a \<times> 'x ManagementService) \<Rightarrow> ('w, 'x, 'a) manager_io"
where
  "on_service f = call (\<lambda>m. case f (service m) of (x, s) \<Rightarrow> (x, m\<lparr>service := s\<rparr>))"

lemma on_host_result: "c (host m) = (r, p) \<Longrightarrow> on_host c m = (r, m\<lparr>host := p\<rparr>)"
  by (simp add: on_host_def)

lemma on_host_service [simp]: "service (snd (on_host c m)) = service m"
  by (simp add: on_host_def split_beta)

lemma andthen_on_service:
  "andthen (on_service f) k m = k (fst (f (service m))) (m\<lparr>service := snd (f (service m))\<rparr>)"
  by (simp add: on_service_def split_beta)

section \<open>One response\<close>

text \<open>
  The insertion of the sender, on the branch on which the status of the new station can be read; the
  process of the theory \<open>Manager_Process\<close> takes it only with a shared guard that locks.
\<close>

definition discovery_insert :: "Packet \<Rightarrow> ('w, 'x, bool) manager_io" where
  "discovery_insert received =
     andthen (on_service (make_station (sender_addresses (header received)) AWAKEN))
       (\<lambda>work_station. on_service (ms_insert work_station))"

definition discovery_response :: "'w os \<Rightarrow> Packet \<Rightarrow> ('w, 'x, unit) manager_io" where
  "discovery_response E received =
     andthen (discovery_insert received) (\<lambda>_.
     on_host (respond E received DISCOVERY_PARTICIPANT_PORT))"

lemma discovery_insert_enroll:
  "discovery_insert received m =
    (case enroll (sender_addresses (header received)) AWAKEN (service m) of
       (b, s) \<Rightarrow> (Inr b, m\<lparr>service := s\<rparr>))"
  by (simp add: discovery_insert_def andthen_on_service enroll_def on_service_def call_def
      split: prod.splits)

section \<open>The thread and the threads it starts\<close>

text \<open>The socket \<open>discovery_main\<close> opens before its endless loop.\<close>

definition discovery_socket :: "'w os \<Rightarrow> ('w, int) io" where
  "discovery_socket E =
     andthen (ServerSocket_new E DISCOVERY_MANAGER_PORT) (\<lambda>socket.
     andthen (server_enable_broadcast E socket True) (\<lambda>_. ret socket))"

text \<open>
  A response thread inserts, then responds; between the two any other thread can run. A call of
  \<open>receive\<close> that returns, an insertion and a response are one step each. \<open>received\<close>
  keeps all requests that were taken, for the statements; \<open>terminated\<close> is set when an exception
  leaves a thread, which ends the process.
\<close>

datatype response_thread = Inserting Packet | Responding Packet | Finished

record ('w, 'x) discovery =
  manager :: "('w, 'x) manager"
  threads :: "response_thread list"
  received :: "Packet list"
  terminated :: bool

definition discovery_start :: "('w, 'x) manager \<Rightarrow> ('w, 'x) discovery" where
  "discovery_start m = \<lparr>manager = m, threads = [], received = [], terminated = False\<rparr>"

inductive discovery_step :: "'w os \<Rightarrow> int \<Rightarrow> ('w, 'x) discovery \<Rightarrow> ('w, 'x) discovery \<Rightarrow> bool"
  for E fd where
  receive_step: "discovery_step E fd d
      (d\<lparr>manager := (manager d)\<lparr>host := p\<rparr>, threads := threads d @ [Inserting packet],
         received := received d @ [packet]\<rparr>)"
    if "\<not> terminated d" and "server_receive E fd (host (manager d)) = Some (Inr packet, p)"
| receive_throws: "discovery_step E fd d
      (d\<lparr>manager := (manager d)\<lparr>host := p\<rparr>, terminated := True\<rparr>)"
    if "\<not> terminated d" and "server_receive E fd (host (manager d)) = Some (Inl e, p)"
| insert_step: "discovery_step E fd d
      (d\<lparr>manager := snd (discovery_insert packet (manager d)), threads := (threads d)[i := Responding packet]\<rparr>)"
    if "\<not> terminated d" and "i < length (threads d)" and "threads d ! i = Inserting packet"
| respond_step: "discovery_step E fd d
      (d\<lparr>manager := m, threads := (threads d)[i := Finished], terminated := (\<exists>e. r = Inl e)\<rparr>)"
    if "\<not> terminated d" and "i < length (threads d)" and "threads d ! i = Responding packet"
      and "on_host (respond E packet DISCOVERY_PARTICIPANT_PORT) (manager d) = (r, m)"

inductive discovery_reachable :: "'w os \<Rightarrow> int \<Rightarrow> ('w, 'x) discovery \<Rightarrow> ('w, 'x) discovery \<Rightarrow> bool"
  for E fd d where
  reachable_start: "discovery_reachable E fd d d"
| reachable_step: "discovery_reachable E fd d d' \<Longrightarrow> discovery_step E fd d' d'' \<Longrightarrow>
    discovery_reachable E fd d d''"

section \<open>The invariant of the threads\<close>

fun thread_packet :: "response_thread \<Rightarrow> Packet option" where
  "thread_packet (Inserting packet) = Some packet"
| "thread_packet (Responding packet) = Some packet"
| "thread_packet Finished = None"

definition sender_of :: "Packet \<Rightarrow> NodeAddresses" where
  "sender_of packet = sender_addresses (header packet)"

definition discovery_inv :: "('w, 'x) discovery \<Rightarrow> bool" where
  "discovery_inv d \<longleftrightarrow> ms_inv (service (manager d))
     \<and> (\<forall>t \<in> set (threads d). \<forall>packet. thread_packet t = Some packet \<longrightarrow> packet \<in> set (received d))
     \<and> (\<forall>n \<in> participants (service (manager d)).
          addresses (service (manager d)) n \<in> sender_of ` set (received d))"

lemma enroll_participants:
  fixes s :: "'x ManagementService" and a st
  assumes "ms_inv s"
  defines "t \<equiv> snd (enroll a st s)"
  shows "ms_inv t" and "n \<in> participants t \<Longrightarrow> (addresses t n = a \<and> status t n = st)
    \<or> (n \<in> participants s \<and> addresses t n = addresses s n \<and> status t n = status s n)"
proof -
  let ?n = "next_station s" and ?m = "snd (make_station a st s)"
  have t: "t = snd (ms_insert ?n ?m)"
    by (simp add: t_def enroll_def split_beta make_station_fields)
  have inv: "ms_inv ?m" using assms(1) by (rule ms_inv_make_station)
  show "ms_inv t" unfolding t by (rule ms_inv_insert [OF inv]) (simp add: make_station_fields)
  have parts: "participants ?m = participants s"
    by (simp add: participants_def make_station_fields)
  have other: "k \<noteq> ?n" if "k \<in> participants s" for k
    using assms(1) that by (auto simp: ms_inv_def)
  have stat: "status t k = status ?m k" for k
    unfolding t by (simp add: ms_insert_def dispatch_event_def status_def Let_def split_beta)
  show "(addresses t n = a \<and> status t n = st)
    \<or> (n \<in> participants s \<and> addresses t n = addresses s n \<and> status t n = status s n)"
    if "n \<in> participants t"
  proof (cases "status ?m ?n = DISCONNECTED \<or> get_by_hostname (hostname (addresses ?m ?n)) ?m \<noteq> None")
    case True
    then show ?thesis
      using that ms_insert_rejected [OF inv] other parts by (simp add: t make_station_fields)
  next
    case False
    then show ?thesis
      using that get_after_insert(4,5) [OF inv, of ?n] other parts stat [of n]
      by (auto simp: t make_station_fields)
  qed
qed

lemma discovery_inv_step:
  assumes "discovery_step E fd d d'" and "discovery_inv d"
  shows "discovery_inv d'"
  using assms
proof (cases rule: discovery_step.cases)
  case (insert_step i packet)
  let ?s = "service (manager d)"
  have m: "service (manager d') = snd (enroll (sender_of packet) AWAKEN ?s)"
    using insert_step by (simp add: discovery_insert_enroll sender_of_def split: prod.splits)
  have "Inserting packet \<in> set (threads d)" using insert_step nth_mem by metis
  then have "packet \<in> set (received d)"
    using assms(2) thread_packet.simps(1) unfolding discovery_inv_def by blast
  moreover have "set (threads d') \<subseteq> insert (Responding packet) (set (threads d))"
    using insert_step set_update_subset_insert by fastforce
  moreover have "received d' = received d" using insert_step by simp
  ultimately show ?thesis
    using assms(2) enroll_participants [where s = ?s and a = "sender_of packet" and st = AWAKEN]
    unfolding discovery_inv_def m by fastforce
next
  case (respond_step i packet r m)
  have "set (threads d') \<subseteq> insert Finished (set (threads d))"
    using respond_step set_update_subset_insert by fastforce
  moreover have "service m = service (manager d)"
    using respond_step on_host_service by (metis snd_conv)
  ultimately show ?thesis
    using assms(2) respond_step by (fastforce simp: discovery_inv_def)
qed (auto simp: discovery_inv_def)

lemma discovery_inv_reachable:
  "discovery_reachable E fd d d' \<Longrightarrow> discovery_inv d \<Longrightarrow> discovery_inv d'"
  by (induction rule: discovery_reachable.induct) (auto intro: discovery_inv_step)

lemma discovery_inv_start:
  "discovery_inv (discovery_start \<lparr>host = p, service = ManagementService_new x\<rparr>)"
  by (simp add: discovery_inv_def discovery_start_def ms_inv_new)
    (simp add: participants_def ManagementService_new_def)

text \<open>The requests a manager has received are packets the deserializer accepted.\<close>

lemma received_accepted:
  "discovery_reachable E fd d d' \<Longrightarrow> \<forall>packet \<in> set (received d). accepted packet \<Longrightarrow>
    \<forall>packet \<in> set (received d'). accepted packet"
proof (induction rule: discovery_reachable.induct)
  case (reachable_step d' d'')
  from reachable_step(2) show ?case
    using reachable_step.IH [OF reachable_step.prems]
    by (cases rule: discovery_step.cases) (auto dest: server_receive_accepts)
qed simp

section \<open>A run\<close>

lemma discovery_insert_result:
  "discovery_insert packet m =
    (Inr (fst (enroll (sender_addresses (header packet)) AWAKEN (service m))),
     m\<lparr>service := snd (enroll (sender_addresses (header packet)) AWAKEN (service m))\<rparr>)"
  by (simp add: discovery_insert_enroll split_beta)

lemma respond_loopback:
  assumes "loadable self"
  shows "\<exists>p'. respond (loopback self) packet port p = (Inr (), p')
    \<and> outbox (world p') = outbox (world p) @
        [(packet_text (packet\<lparr>header := (header packet)\<lparr>direction := RESPONSE,
            sender_addresses := self, timestamp := 1000002\<rparr>\<rparr>), ip (sender_of packet), port)]"
  by (cases packet) (simp add: respond_def respond_with_def andthen_def load_host_loopback [OF assms] now_def
      sys_result ret_def with_sender_def UdpSenderSocket_new_def with_destructor_def
      sender_send_packet_def sender_send_def UdpSenderSocket_delete_def sys_effect_def packet_text_def
      sender_of_def Packet_new_def signed_divide_int_def)

lemma discovery_response_loopback:
  assumes "loadable self"
  shows "\<exists>m'. discovery_response (loopback self) packet m = (Inr (), m')
    \<and> service m' = snd (enroll (sender_of packet) AWAKEN (service m))
    \<and> outbox (world (host m')) = outbox (world (host m)) @
        [(packet_text (packet\<lparr>header := (header packet)\<lparr>direction := RESPONSE,
            sender_addresses := self, timestamp := 1000002\<rparr>\<rparr>),
          ip (sender_of packet), DISCOVERY_PARTICIPANT_PORT)]"
  using respond_loopback [OF assms, of packet DISCOVERY_PARTICIPANT_PORT "host m"]
  by (auto simp: discovery_response_def andthen_Inr [OF discovery_insert_result] sender_of_def
      on_host_def)

lemma host_a_loadable: "loadable host_a"
  by (simp add: loadable_def host_a_def is_mac_def is_ip_def)

lemma plain_host_view:
  "plain_host (sender_addresses (header pk)) \<Longrightarrow>
    sender_of (packet_view pk q) = (sender_addresses (header pk))\<lparr>hostname := []\<rparr>"
  by (simp add: plain_host_def sender_of_def packet_view_def header_view_def escape_loop_no_backslash)

text \<open>Two hosts ask to join; both requests are received and both threads insert.\<close>

definition request_of :: "NodeAddresses \<Rightarrow> Packet" where
  "request_of a = Packet_new\<lparr>header := PacketHeader_new\<lparr>sender_addresses := a\<rparr>\<rparr>"

definition fresh_manager :: "'w process \<Rightarrow> ('w, unit) manager" where
  "fresh_manager p = \<lparr>host = p, service = ManagementService_new ()\<rparr>"

lemma sendable_request:
  "wf_addresses a \<Longrightarrow> BACKSLASH \<notin> set (hostname a) \<Longrightarrow> length (hostname a) \<le> 255 \<Longrightarrow>
    sendable (request_of a)"
  by (simp add: sendable_def header_ok_def request_of_def PacketHeader_new_def
      escape_loop_no_backslash)

lemma discovery_body [simp]: "packet_type PacketBody_new = DISCOVERY"
  by (simp add: PacketBody_new_def)

lemma request_type [simp]: "packet_type (body (request_of a)) = DISCOVERY"
  by (simp add: request_of_def Packet_new_def PacketBody_new_def)

lemma view_of_request:
  assumes "BACKSLASH \<notin> set (hostname a)"
  shows "sender_of (packet_view (request_of a) q) = a\<lparr>hostname := []\<rparr>"
  using assms by (simp add: sender_of_def packet_view_def header_view_def request_of_def
      PacketHeader_new_def escape_loop_no_backslash)

lemma loopback_server_receive:
  assumes "sendable (request_of a)"
  shows "server_receive (loopback self) fd (net_with (packet_text (request_of a) # ms)) =
    Some (Inr (packet_view (request_of a) Packet_new), net_with ms)"
  unfolding server_receive_def
  by (subst server_receive_loop.simps) (simp add: loopback_receive_packet [OF _ assms])

lemma hosts_sendable: "sendable (request_of host_a)" "sendable (request_of host_b)"
  by (auto intro!: sendable_request simp: host_a_def host_b_def wf_addresses_def is_mac_def is_ip_def
      BACKSLASH_def)

definition run_ab :: "(net, unit) discovery" where
  "run_ab =
     \<lparr>manager = snd (discovery_insert (packet_view (request_of host_b) Packet_new)
        (snd (discovery_insert (packet_view (request_of host_a) Packet_new) (fresh_manager (net_with []))))),
      threads = [Responding (packet_view (request_of host_a) Packet_new),
        Responding (packet_view (request_of host_b) Packet_new)],
      received = [packet_view (request_of host_a) Packet_new, packet_view (request_of host_b) Packet_new],
      terminated = False\<rparr>"

definition start_ab :: "(net, unit) discovery" where
  "start_ab = discovery_start (fresh_manager (net_with
     [packet_text (request_of host_a), packet_text (request_of host_b)]))"

lemma reachable_by_step:
  "discovery_reachable E fd d d' \<Longrightarrow> discovery_step E fd d' e \<Longrightarrow> e = d'' \<Longrightarrow>
    discovery_reachable E fd d d''"
  by (simp add: reachable_step)

lemma run_ab_reachable: "discovery_reachable (loopback host_a) 3 start_ab run_ab"
proof -
  let ?a = "packet_view (request_of host_a) Packet_new"
  let ?b = "packet_view (request_of host_b) Packet_new"
  note receive = loopback_server_receive [OF hosts_sendable(1)] loopback_server_receive [OF hosts_sendable(2)]
  have "discovery_reachable (loopback host_a) 3 start_ab
      \<lparr>manager = fresh_manager (net_with [packet_text (request_of host_b)]),
       threads = [Inserting ?a], received = [?a], terminated = False\<rparr>"
    by (rule reachable_by_step [OF reachable_start receive_step [where packet = ?a]])
      (simp_all add: start_ab_def discovery_start_def fresh_manager_def receive)
  then have "discovery_reachable (loopback host_a) 3 start_ab
      \<lparr>manager = fresh_manager (net_with []),
       threads = [Inserting ?a, Inserting ?b], received = [?a, ?b], terminated = False\<rparr>"
    by (rule reachable_by_step [OF _ receive_step [where packet = ?b]])
      (simp_all add: fresh_manager_def receive)
  then have "discovery_reachable (loopback host_a) 3 start_ab
      \<lparr>manager = snd (discovery_insert ?a (fresh_manager (net_with []))),
       threads = [Responding ?a, Inserting ?b], received = [?a, ?b], terminated = False\<rparr>"
    by (rule reachable_by_step [OF _ insert_step [where i = 0 and packet = ?a]]) simp_all
  then show ?thesis
    by (rule reachable_by_step [OF _ insert_step [where i = 1 and packet = ?b]])
      (simp_all add: run_ab_def)
qed

section \<open>Properties\<close>

text \<open>
  Whatever the interleaving of the receiving thread and the response threads, the service
  keeps its invariant, and each participant has the addresses of a request that was received.
\<close>

lemma discovery_invariant:
  assumes "discovery_reachable E fd (discovery_start \<lparr>host = p, service = ManagementService_new x\<rparr>) d"
  shows "ms_inv (service (manager d))
    \<and> (\<forall>n \<in> participants (service (manager d)).
        addresses (service (manager d)) n \<in> sender_of ` set (received d))"
  using discovery_inv_reachable [OF assms discovery_inv_start] by (simp add: discovery_inv_def)

lemma discovery_invariant_witness:
  "ms_inv (service (manager run_ab))"
  using discovery_invariant [of "loopback host_a" 3 _ "()" run_ab] run_ab_reachable
  by (simp add: start_ab_def fresh_manager_def)

text \<open>
  The table is typed: in every state the discovery threads can reach, on every network, each
  participant has a MAC address of 6 and an IP address of 4 bytes, so that its row starts with
  a MAC column of 17 characters and it can be sent to, and its station came from a request of
  type \<open>DISCOVERY\<close>.
\<close>

lemma participants_typed:
  assumes "discovery_reachable E fd (discovery_start \<lparr>host = p, service = ManagementService_new x\<rparr>) d"
    and "n \<in> participants (service (manager d))"
  shows "wf_addresses (addresses (service (manager d)) n)
    \<and> length (render_mac_address (mac (addresses (service (manager d)) n))) = 17
    \<and> (\<exists>packet \<in> set (received d). packet_type (body packet) = DISCOVERY
        \<and> addresses (service (manager d)) n = sender_addresses (header packet))"
proof -
  obtain packet where packet: "packet \<in> set (received d)"
    "addresses (service (manager d)) n = sender_of packet"
    using discovery_inv_reachable [OF assms(1) discovery_inv_start] assms(2)
    by (auto simp: discovery_inv_def)
  have "accepted packet"
    using received_accepted [OF assms(1)] packet(1) by (simp add: discovery_start_def)
  then show ?thesis
    using packet address_lengths [of "mac (sender_of packet)" "ip (sender_of packet)"]
    by (auto simp: accepted_def typed_header_def wf_addresses_def sender_of_def)
qed

lemma participants_typed_witness:
  "wf_addresses (addresses (service (manager run_ab)) 0)"
proof -
  have "ms_inv (service (manager run_ab))"
    using discovery_inv_reachable [OF run_ab_reachable [unfolded start_ab_def fresh_manager_def] discovery_inv_start]
    by (simp add: discovery_inv_def)
  moreover have "BACKSLASH \<notin> set (hostname host_a)" "BACKSLASH \<notin> set (hostname host_b)"
    by (simp_all add: host_a_def host_b_def BACKSLASH_def)
  then have "0 \<in> participants (service (manager run_ab))"
    using view_of_request [of host_a Packet_new] view_of_request [of host_b Packet_new]
    by (simp add: run_ab_def discovery_insert_result fresh_manager_def service_ops sender_of_def
        ManagementService_new_def WorkStation_new_def participants_def ranI [of _ "[]"])
  then show ?thesis
    using participants_typed [of "loopback host_a" 3 _ "()" run_ab 0] run_ab_reachable
    by (simp add: start_ab_def fresh_manager_def)
qed

text \<open>
  One participant at most: if the requests received carry the empty host name, which is what
  the transport makes of any name without a backslash, the table never holds two stations,
  however many hosts ask and however the threads interleave.
\<close>

lemma one_participant_at_most:
  assumes "discovery_reachable E fd (discovery_start \<lparr>host = p, service = ManagementService_new x\<rparr>) d"
    and "\<forall>packet \<in> set (received d). hostname (sender_of packet) = []"
  shows "\<exists>n. participants (service (manager d)) \<subseteq> {n}"
proof -
  let ?s = "service (manager d)"
  have inv: "discovery_inv d"
    using discovery_inv_reachable [OF assms(1) discovery_inv_start] .
  have "get_by_hostname [] ?s = Some n" if "n \<in> participants ?s" for n
    using that inv assms(2) participants_iff [of ?s n] by (fastforce simp: discovery_inv_def)
  then show ?thesis by (metis option.inject singletonI subsetI)
qed

lemma one_participant_at_most_witness:
  "\<exists>n. participants (service (manager run_ab)) \<subseteq> {n}"
proof -
  have "BACKSLASH \<notin> set (hostname host_a)" "BACKSLASH \<notin> set (hostname host_b)"
    by (simp_all add: host_a_def host_b_def BACKSLASH_def)
  then have "\<forall>packet \<in> set (received run_ab). hostname (sender_of packet) = []"
    by (simp add: run_ab_def view_of_request)
  then show ?thesis
    using one_participant_at_most [of "loopback host_a" 3 _ "()" run_ab] run_ab_reachable
    by (simp add: start_ab_def fresh_manager_def)
qed

text \<open>
  A discovery request on a working network: the response thread enrolls the sender, awake,
  and sends one packet, to the sender's address and the participants' discovery port; the
  packet repeats the request with the addresses of the manager, whether or not the table took
  the sender.
\<close>

lemma discovery_response_behaviour:
  assumes "loadable self"
  shows "\<exists>m'. discovery_response (loopback self) packet m = (Inr (), m')
    \<and> service m' = snd (enroll (sender_of packet) AWAKEN (service m))
    \<and> outbox (world (host m')) = outbox (world (host m)) @
        [(packet_text (packet\<lparr>header := (header packet)\<lparr>direction := RESPONSE,
            sender_addresses := self, timestamp := 1000002\<rparr>\<rparr>),
          ip (sender_of packet), DISCOVERY_PARTICIPANT_PORT)]"
  using assms by (rule discovery_response_loopback)

lemma discovery_response_behaviour_witness:
  "\<exists>m'. discovery_response (loopback host_a) (request_of host_b) (fresh_manager (net_with [])) = (Inr (), m')
    \<and> service m' = snd (enroll host_b AWAKEN (ManagementService_new ()))"
  using discovery_response_behaviour [OF host_a_loadable, of "request_of host_b" "fresh_manager (net_with [])"]
  by (auto simp: fresh_manager_def sender_of_def request_of_def PacketHeader_new_def)

end
