(* ===== verification/Interface.thy ===== *)
theory Interface
  imports Discovery Channel
begin

text \<open>
  The user interfaces (\<open>interface.cpp\<close>): the commands the participant and the manager read, the
  table the manager prints, and the loop that prints it whenever the channel says so. The
  standard input is the list of its lines, the outputs are strings that are appended to.
\<close>

section \<open>Characters and lines\<close>

text \<open>\<open>iswspace\<close> and \<open>toupper\<close> in the locale the program runs in, which is \<open>"C"\<close>.\<close>

definition iswspace :: "char \<Rightarrow> bool" where
  "iswspace ch \<longleftrightarrow> ch = CHR '' '' \<or> (9 \<le> (of_char ch :: nat) \<and> (of_char ch :: nat) \<le> 13)"

definition toupper :: "char \<Rightarrow> char" where
  "toupper ch = (if 97 \<le> (of_char ch :: nat) \<and> (of_char ch :: nat) \<le> 122
     then char_of ((of_char ch :: nat) - 32) else ch)"

definition trim_whitespace :: "string \<Rightarrow> string" where
  "trim_whitespace input0 =
     (let input1 = dropWhile iswspace input0
      in rev (dropWhile iswspace (rev input1)))"

definition newline :: string where
  "newline = [CHR 0x0A]"

section \<open>The participant's commands\<close>

datatype ParticipantMsg = PARTICIPANT_WAKEUP | PARTICIPANT_EXIT

text \<open>The sender is a copy, which the end of the function destroys.\<close>

fun participant_input ::
    "string list \<Rightarrow> ParticipantMsg Mpsc \<Rightarrow> string \<Rightarrow> ParticipantMsg Mpsc \<times> string" where
  "participant_input [] channel cerr = (channel, cerr)"
| "participant_input (line # lines) channel cerr =
     (let input1 = trim_whitespace line;
          input2 = map toupper input1
      in if input2 = ''EXIT'' then (snd (send PARTICIPANT_EXIT channel), cerr)
         else participant_input lines channel (cerr @ ''Unknown command.'' @ newline))"

definition participant_interface_main ::
    "string list \<Rightarrow> ParticipantMsg Mpsc \<Rightarrow> string \<Rightarrow> ParticipantMsg Mpsc \<times> string" where
  "participant_interface_main lines channel cerr =
     (case participant_input lines channel cerr of (c, e) \<Rightarrow> (Sender_drop c, e))"

section \<open>The manager's commands\<close>

datatype ManagerIfaceMsg = MANAGER_IFACE_EXIT | MANAGER_IFACE_REFRESH

text \<open>A service whose handlers act on the interface's channel.\<close>

type_synonym iface_service = "ManagerIfaceMsg Mpsc ManagementService"

definition parse_command :: "string \<Rightarrow> string \<times> string" where
  "parse_command line =
     (let input1 = trim_whitespace line;
          whitespace_pos = length (takeWhile (\<lambda>ch. ch \<noteq> CHR '' '') input1);
          command = map toupper (take whitespace_pos input1);
          argument = drop whitespace_pos input1
      in (command, trim_whitespace argument))"

definition handle_line :: "string \<Rightarrow> iface_service \<Rightarrow> string \<Rightarrow> iface_service \<times> string" where
  "handle_line line s cerr =
     (let (command, argument) = parse_command line in
      if command = ''WAKEUP'' then
        (if length argument = 0 then (s, cerr @ ''WAKEUP expects a hostname.'' @ newline)
         else let (woke_up, s') = wakeup argument s in
           if \<not> woke_up then (s', cerr @ ''could not wake up '' @ argument @ newline)
           else (s', cerr))
      else (s, cerr @ ''Unknown command.'' @ newline))"

definition handle_manager_input :: "string list \<Rightarrow> iface_service \<Rightarrow> string \<Rightarrow> iface_service \<times> string" where
  "handle_manager_input lines s cerr =
     (case fold (\<lambda>line (s, cerr). handle_line line s cerr) lines (s, cerr) of
        (s', cerr') \<Rightarrow>
          (s'\<lparr>outside := Sender_drop (snd (send MANAGER_IFACE_EXIT (outside s')))\<rparr>, cerr'))"

text \<open>
  The thread that runs it: when it has returned, the copy of the sender that \<open>std::thread\<close> holds is
  destroyed too.
\<close>

definition manager_input_thread :: "string list \<Rightarrow> iface_service \<Rightarrow> string \<Rightarrow> iface_service \<times> string" where
  "manager_input_thread lines s cerr =
     (case handle_manager_input lines s cerr of (s', cerr') \<Rightarrow> (s'\<lparr>outside := Sender_drop (outside s')\<rparr>, cerr'))"

section \<open>The table of participants\<close>

definition row_size :: nat where "row_size = 80"
definition mac_col_size :: nat where "mac_col_size = 6 * 2 + 5"
definition ip_col_size :: nat where "ip_col_size = 4 * 3 + 3"
definition status_col_size :: nat where "status_col_size = 6"
definition hostname_col_size :: nat where
  "hostname_col_size = row_size - mac_col_size - ip_col_size - status_col_size"

text \<open>A column and the loop that fills it up; the bars between the columns.\<close>

definition pad :: "nat \<Rightarrow> string \<Rightarrow> string" where
  "pad col_size column = column @ replicate (col_size - length column) (CHR '' '')"

definition render_header :: string where
  "render_header =
     pad mac_col_size ''MAC Address'' @ '' | '' @ pad ip_col_size ''IP Address'' @ '' | '' @
     pad status_col_size ''Status'' @ '' | '' @ pad hostname_col_size ''Hostname'' @ newline @
     replicate row_size (CHR ''-'') @ newline"

text \<open>
  The \<open>switch\<close> on the status has no case for \<open>DISCONNECTED\<close>, so the variable keeps the text of
  the column before. The \<open>resize\<close> of the host name is to its own size.
\<close>

definition render_row :: "'x ManagementService \<Rightarrow> station \<Rightarrow> string" where
  "render_row s participant =
     (let mac_column = render_mac_address (mac (addresses s participant));
          ip_column = render_ip_address (ip (addresses s participant));
          status_column = (case status s participant of
              ASLEEP \<Rightarrow> ''ASLEEP'' | AWAKEN \<Rightarrow> ''AWAKEN'' | DISCONNECTED \<Rightarrow> ip_column);
          host_column = hostname (addresses s participant);
          host_column1 = take (length host_column) host_column
      in pad mac_col_size mac_column @ '' | '' @ pad ip_col_size ip_column @ '' | '' @
         pad status_col_size status_column @ '' | '' @ pad hostname_col_size host_column1 @ newline)"

text \<open>
  Sorting compares the stations the pointers point to, and the rows read them; a null pointer
  in the list is dereferenced. The stations of a table have different IP addresses, so the
  order is determined.
\<close>

definition render ::
    "'x ManagementService \<Rightarrow> station option list \<Rightarrow> (string, unit) action" where
  "render s participants0 =
     (if None \<in> set participants0 then undefined_behaviour ''null participant dereferenced''
      else modify (\<lambda>cout. cout @ render_header @ concat (map (render_row s)
        (sort_key (\<lambda>n. ip (addresses s n)) (map the participants0)))))"

section \<open>The manager's interface loop\<close>

text \<open>
  One round of the loop: \<open>None\<close> if the receiver waits, otherwise whether the loop is left.
\<close>

definition interface_round ::
    "iface_service \<Rightarrow> (iface_service \<times> ((failure + bool) \<times> string)) option" where
  "interface_round s =
     (let (maybe_message, channel) = receive (outside s);
          s' = s\<lparr>outside := channel\<rparr>
      in case maybe_message of
           Received MANAGER_IFACE_EXIT \<Rightarrow> Some (s', (Inr True, []))
         | Received MANAGER_IFACE_REFRESH \<Rightarrow>
             Some (s', (case render s' (participant_list s') [] of
               (Inl e, cout) \<Rightarrow> (Inl e, cout)
             | (Inr _, cout) \<Rightarrow> (Inr False, cout)))
         | NoProducer \<Rightarrow> Some (s', (Inr True, []))
         | FrontOfEmpty \<Rightarrow> Some (s', (Inl (Undefined ''front of an empty queue''), []))
         | Blocked \<Rightarrow> None)"

text \<open>
  The start of \<open>manager_interface_main\<close>: the channel is opened, both handles are moved out of
  it, the handler is registered, and the start of the input thread copies the sender twice,
  into the thread and into the parameter of its function.
\<close>

definition manager_interface_start :: "iface_service \<Rightarrow> iface_service" where
  "manager_interface_start s =
     (let channel = Receiver_move (Sender_move Channel_open);
          s' = register_event_handler (\<lambda>c event. snd (send MANAGER_IFACE_REFRESH c))
            (s\<lparr>outside := channel\<rparr>)
      in s'\<lparr>outside := Sender_move (Sender_move (outside s'))\<rparr>)"

text \<open>
  The loop, up to \<open>n\<close> rounds: it stops with \<open>Inr True\<close> when the interface is left, with a
  failure, or, with \<open>Inr False\<close>, when it waits or the rounds are used up.
\<close>

fun interface_rounds ::
    "nat \<Rightarrow> iface_service \<Rightarrow> string \<Rightarrow> iface_service \<times> ((failure + bool) \<times> string)" where
  "interface_rounds 0 s cout = (s, (Inr False, cout))"
| "interface_rounds (Suc n) s cout =
     (case interface_round s of
        None \<Rightarrow> (s, (Inr False, cout))
      | Some (s', (Inl e, t)) \<Rightarrow> (s', (Inl e, cout @ t))
      | Some (s', (Inr True, t)) \<Rightarrow> (s', (Inr True, cout @ t))
      | Some (s', (Inr False, t)) \<Rightarrow> interface_rounds n s' (cout @ t))"

text \<open>
  \<open>manager_interface_main\<close> when \<open>n\<close> rounds are run after the first rendering, on the service
  the other threads left.
\<close>

definition manager_interface_main ::
    "nat \<Rightarrow> (iface_service \<Rightarrow> iface_service) \<Rightarrow> iface_service \<Rightarrow> iface_service \<times> ((failure + bool) \<times> string)"
where
  "manager_interface_main n others s =
     (let s1 = manager_interface_start s in
      case render s1 (participant_list s1) [] of
        (Inl e, cout) \<Rightarrow> (s1, (Inl e, cout))
      | (Inr _, cout) \<Rightarrow> interface_rounds n (others s1) cout)"

section \<open>Lemmas\<close>

lemma trim_outer:
  "\<exists>pre post. input = pre @ trim_whitespace input @ post \<and> list_all iswspace pre \<and> list_all iswspace post"
proof -
  let ?d = "dropWhile iswspace input"
  have "input = takeWhile iswspace input @ trim_whitespace input @ rev (takeWhile iswspace (rev ?d))"
    by (metis trim_whitespace_def append.assoc rev_append rev_rev_ident takeWhile_dropWhile_id)
  moreover have "list_all iswspace (takeWhile iswspace xs)" for xs
    by (auto simp: list_all_iff dest: set_takeWhileD)
  ultimately show ?thesis by (metis list_all_rev)
qed

lemma trim_inner:
  assumes "core = [] \<or> (\<not> iswspace (hd core) \<and> \<not> iswspace (last core))"
    and "list_all iswspace pre" and "list_all iswspace post"
  shows "trim_whitespace (pre @ core @ post) = core"
proof (cases "core = []")
  case True
  then have d: "dropWhile iswspace (pre @ core @ post) = []"
    using assms unfolding dropWhile_eq_Nil_conv by (auto simp: list_all_iff)
  show ?thesis unfolding trim_whitespace_def Let_def d by (simp add: True)
next
  case False
  have "dropWhile iswspace (pre @ core @ post) = core @ post"
    using False assms by (intro takeWhile_prefix) (auto simp: list_all_iff)
  moreover have "dropWhile iswspace (rev post @ rev core) = rev core"
    using False assms by (intro takeWhile_prefix) (auto simp: list_all_iff hd_rev)
  ultimately show ?thesis by (simp add: trim_whitespace_def)
qed

lemma trim_ends:
  "trim_whitespace input \<noteq> [] \<Longrightarrow>
    \<not> iswspace (hd (trim_whitespace input)) \<and> \<not> iswspace (last (trim_whitespace input))"
proof -
  let ?d = "dropWhile iswspace input"
  assume ne: "trim_whitespace input \<noteq> []"
  then have "dropWhile iswspace (rev ?d) \<noteq> []" by (simp add: trim_whitespace_def)
  then have l: "\<not> iswspace (last (trim_whitespace input))"
    using hd_dropWhile [of iswspace "rev ?d"] by (simp add: trim_whitespace_def last_rev)
  have "?d = trim_whitespace input @ rev (takeWhile iswspace (rev ?d))"
    by (metis trim_whitespace_def rev_append rev_rev_ident takeWhile_dropWhile_id)
  then have "hd (trim_whitespace input) = hd ?d" "?d \<noteq> []"
    using ne by (metis hd_append2, metis Nil_is_append_conv)
  then show ?thesis using l hd_dropWhile [of iswspace input] by auto
qed

lemma length_pad [simp]: "length (pad n t) = max n (length t)"
  by (simp add: pad_def)

lemmas col_sizes = row_size_def mac_col_size_def ip_col_size_def status_col_size_def
  hostname_col_size_def

lemma map_toupper_length_0 [simp]: "map toupper cs = [] \<longleftrightarrow> cs = []"
  by simp

section \<open>Properties\<close>

text \<open>
  \<open>trim_whitespace\<close> removes exactly the white space around a text: what it removes in front
  and behind is white space, what is left does not start or end with any, it is the only such
  core, and trimming again changes nothing.
\<close>

lemma trim_whitespace_correct:
  "(\<exists>pre post. input = pre @ trim_whitespace input @ post
      \<and> list_all iswspace pre \<and> list_all iswspace post)
   \<and> (trim_whitespace input \<noteq> [] \<longrightarrow>
        \<not> iswspace (hd (trim_whitespace input)) \<and> \<not> iswspace (last (trim_whitespace input)))
   \<and> trim_whitespace (trim_whitespace input) = trim_whitespace input"
  using trim_outer trim_ends trim_inner [of "trim_whitespace input" "[]" "[]"] by fastforce

lemma trim_whitespace_correct_witness:
  "\<not> iswspace (last (trim_whitespace ('' wakeup pc '')))"
  using trim_whitespace_correct [of "'' wakeup pc ''"]
  by (simp add: trim_whitespace_def iswspace_def)

text \<open>
  C26: The wake-up command: a line with the word in any case, a space and a host name that
  neither is empty nor starts or ends with white space, with any white space around and
  between, wakes up exactly that host, and complains only if that fails.
\<close>

theorem wakeup_command:
  assumes "map toupper command = ''WAKEUP''" and "name \<noteq> []"
    and "\<not> iswspace (hd name)" and "\<not> iswspace (last name)"
    and "list_all iswspace before" and "list_all iswspace between" and "list_all iswspace after"
  shows "handle_line (before @ command @ '' '' @ between @ name @ after) s cerr =
    (snd (wakeup name s),
     if fst (wakeup name s) then cerr else cerr @ ''could not wake up '' @ name @ newline)"
proof -
  have "length command = 6" using arg_cong [OF assms(1), of length] by simp
  then obtain a b c d e f where command: "command = [a, b, c, d, e, f]" by (auto simp: length_eq_6)
  have up: "toupper a = CHR ''W''" "toupper b = CHR ''A''" "toupper c = CHR ''K''"
    "toupper d = CHR ''E''" "toupper e = CHR ''U''" "toupper f = CHR ''P''"
    using assms(1) by (simp_all add: command)
  have space: "toupper (CHR '' '') = CHR '' ''" by (simp add: toupper_def)
  have no_ws: "\<not> iswspace ch" if "toupper ch \<in> set ''WAKEUP''" for ch
    using that by (auto simp: toupper_def iswspace_def split: if_splits)
  have no_space: "CHR '' '' \<notin> set command"
    using up space by (auto simp: command)
  let ?core = "command @ '' '' @ between @ name"
  have "trim_whitespace (before @ ?core @ after) = ?core"
    using assms no_ws [of a] up by (intro trim_inner) (auto simp: command)
  moreover have "takeWhile (\<lambda>ch. ch \<noteq> CHR '' '') ?core = command"
    using no_space by (intro takeWhile_prefix) auto
  moreover have "trim_whitespace (('' '' @ between) @ name @ []) = name"
    using assms by (intro trim_inner) (auto simp: iswspace_def)
  ultimately have "parse_command (before @ ?core @ after) = (''WAKEUP'', name)"
    using assms(1) by (simp add: parse_command_def Let_def)
  then show ?thesis
    using assms(2) by (simp add: handle_line_def split_beta)
qed

theorem wakeup_command_witness:
  "snd (handle_line ''  WakeUp   pc '' (ManagementService_new Channel_open) []) =
    ''could not wake up pc'' @ newline"
  using wakeup_command [of "''WakeUp''" "''pc''" "''  ''" "''  ''" "'' ''"
      "ManagementService_new Channel_open" "[]"]
  by (simp add: toupper_def iswspace_def wakeup_def get_by_hostname_def ManagementService_new_def
      char_of_def bit_0)

text \<open>
  The rows of the table do not fit its line: for valid addresses, a connected station and a
  host name of at most 42 characters a row has 89 characters, 9 more than the line under the
  heading, which has the intended 80; a longer host name makes the row longer instead of being
  cut.
\<close>

lemma row_width:
  assumes "is_mac (mac (addresses s n))" and "is_ip (ip (addresses s n))"
    and "status s n \<noteq> DISCONNECTED"
  shows "length (render_row s n) = 47 + max 42 (length (hostname (addresses s n))) + 1
    \<and> 80 < length (render_row s n) - 1 \<and> row_size = 80
    \<and> length render_header = (89 + 1) + (row_size + 1)"
  using assms address_lengths [of "mac (addresses s n)" "ip (addresses s n)"]
  by (cases "status s n")
    (simp_all add: render_row_def render_header_def Let_def col_sizes newline_def)

lemma row_width_witness:
  "length (render_row (service_a AWAKEN) 0) = 90"
  using row_width [of "service_a AWAKEN" 0]
  by (simp add: service_a_simps) (simp add: host_a_def is_mac_def is_ip_def)

definition is_exit :: "string \<Rightarrow> bool" where
  "is_exit line \<longleftrightarrow> map toupper (trim_whitespace line) = ''EXIT''"

lemma participant_input_eq:
  "participant_input lines c cerr =
    (if \<exists>line \<in> set lines. is_exit line then snd (send PARTICIPANT_EXIT c) else c,
     cerr @ concat (replicate (length (takeWhile (\<lambda>line. \<not> is_exit line) lines))
       (''Unknown command.'' @ newline)))"
proof (induction lines arbitrary: cerr)
  case (Cons line lines)
  then show ?case by (auto simp: is_exit_def Let_def)
qed simp

text \<open>
  The participant's input: the exit message is sent once if some line is the command, in any
  case and with white space around it, and not at all otherwise; each line before it gets one
  complaint, and the lines after it are not read.
\<close>

lemma participant_input_behaviour:
  "participant_input lines c cerr =
    (if \<exists>line \<in> set lines. is_exit line then snd (send PARTICIPANT_EXIT c) else c,
     cerr @ concat (replicate (length (takeWhile (\<lambda>line. \<not> is_exit line) lines))
       (''Unknown command.'' @ newline)))"
  by (rule participant_input_eq)

text \<open>
  The manager's interface with an empty table: it prints the heading, then once more for
  every message \<open>REFRESH\<close>, and leaves when the message \<open>EXIT\<close> comes, in the order in which
  they were sent, whatever was already on the screen.
\<close>

lemma interface_renders_on_refresh:
  assumes "mac_address_index s = []" and "connected (outside s)"
    and "messages (outside s) = replicate k MANAGER_IFACE_REFRESH @ [MANAGER_IFACE_EXIT]"
  shows "snd (interface_rounds (k + 1 + n) s cout) =
    (Inr True, cout @ concat (replicate k render_header))"
  using assms
proof (induction k arbitrary: s cout)
  case 0
  then have "fst (receive (outside s)) = Received MANAGER_IFACE_EXIT"
    using mpsc.receive_first [of "outside s" MANAGER_IFACE_EXIT "[]"] by simp
  then show ?case by (simp add: interface_round_def split_beta)
next
  case (Suc k)
  have r: "fst (receive (outside s)) = Received MANAGER_IFACE_REFRESH"
    "connected (snd (receive (outside s)))"
    "messages (snd (receive (outside s))) = replicate k MANAGER_IFACE_REFRESH @ [MANAGER_IFACE_EXIT]"
    using Suc.prems mpsc.receive_first [of "outside s" MANAGER_IFACE_REFRESH] by simp_all
  have "interface_round s =
      Some (s\<lparr>outside := snd (receive (outside s))\<rparr>, (Inr False, render_header))"
    using r(1) Suc.prems(1)
    by (simp add: interface_round_def split_beta render_def participant_list_def modify_def)
  then show ?case
    using Suc.IH [of "s\<lparr>outside := snd (receive (outside s))\<rparr>" "cout @ render_header"] r Suc.prems(1)
    by simp
qed

lemma interface_renders_on_refresh_witness:
  "snd (interface_rounds 3 ((ManagementService_new
      (snd (send MANAGER_IFACE_EXIT (snd (send MANAGER_IFACE_REFRESH Channel_open)))))) []) =
    (Inr True, render_header)"
  using interface_renders_on_refresh [of "ManagementService_new
      (snd (send MANAGER_IFACE_EXIT (snd (send MANAGER_IFACE_REFRESH Channel_open))))" 1 1 "[]"]
  by (simp add: ManagementService_new_def connected_def chan_ok_def send_def Channel_open_def Let_def
      numeral_eq_Suc)

end
