(* ===== verification/Monitoring.thy ===== *)
theory Monitoring
  imports Discovery
begin

text \<open>
  The monitoring thread (\<open>monitoring.cpp\<close>): in each tick it polls the participants for their
  sleep status, takes the packets that arrived on the exit port and removes their senders from
  the table, and sleeps.
\<close>

definition MONITORING_TICK_US :: int where "MONITORING_TICK_US = 50000"
definition MAX_RETRIES :: uint64 where "MAX_RETRIES = 3"

section \<open>Polling the participants\<close>

text \<open>
  The requests, one for each pointer of the list. A null pointer is dereferenced as any other.
\<close>

fun poll_requests ::
    "'w os \<Rightarrow> station option list \<Rightarrow> ('w, 'x, (MacAddress \<times> client_request) list) manager_io" where
  "poll_requests E [] = ret []"
| "poll_requests E (None # others) =
     undefined_behaviour ''null participant dereferenced''"
| "poll_requests E (Some participant # others) =
     andthen (gets (\<lambda>m. addresses (service m) participant)) (\<lambda>a.
     let packet_body = PacketBody_new\<lparr>packet_type := SLEEP_STATUS\<rparr> in
     andthen (on_host (client_request_op E packet_body (ip a) SLEEP_STATUS_PORT)) (\<lambda>request.
     andthen (poll_requests E others) (\<lambda>requests. ret ((mac a, request) # requests))))"

text \<open>
  The responses. The branch for a present packet assigns nothing to \<open>sleep_status\<close>, which was
  declared without a value and is read next.
\<close>

fun poll_responses ::
    "'w os \<Rightarrow> (MacAddress \<times> client_request) list \<Rightarrow> ('w, 'x, unit) manager_io" where
  "poll_responses E [] = ret ()"
| "poll_responses E ((address, request) # requests) =
     andthen (on_host (receive_bounded E request MAX_RETRIES SLEEP_STATUS_PORT DEFAULT_TRY_US))
       (\<lambda>maybe_packet.
     case maybe_packet of
       Some packet \<Rightarrow> undefined_behaviour ''sleep_status read before it was written''
     | None \<Rightarrow> andthen (on_service (update_sleep_status address ASLEEP)) (\<lambda>_.
         poll_responses E requests))"

section \<open>The exit port\<close>

partial_function (option) exit_loop ::
    "'w os \<Rightarrow> int \<Rightarrow> ('w, 'x) manager \<Rightarrow> ((failure + unit) \<times> ('w, 'x) manager) option" where
  "exit_loop E fd m =
     (case on_host (server_try_receive E fd) m of
        (Inl e, m') \<Rightarrow> Some (Inl e, m')
      | (Inr None, m') \<Rightarrow> Some (Inr (), m')
      | (Inr (Some packet), m') \<Rightarrow>
          exit_loop E fd (m'\<lparr>service :=
            snd (remove_by_mac_address (mac (sender_addresses (header packet))) (service m'))\<rparr>))"

section \<open>The thread\<close>

definition monitoring_sleep :: "'w os \<Rightarrow> ('w, 'x, unit) manager_io" where
  "monitoring_sleep E = modify (\<lambda>m. m\<lparr>host :=
     sys_effect (sys_nanosleep E (MONITORING_TICK_US div 1000000) (MONITORING_TICK_US * 1000)) (host m)\<rparr>)"

definition monitoring_tick ::
    "'w os \<Rightarrow> int \<Rightarrow> ('w, 'x) manager \<Rightarrow> ((failure + unit) \<times> ('w, 'x) manager) option" where
  "monitoring_tick E fd m =
     (case andthen (gets (\<lambda>m. participant_list (service m))) (\<lambda>participants.
           andthen (poll_requests E participants) (\<lambda>requests. poll_responses E requests)) m of
        (Inl e, m') \<Rightarrow> Some (Inl e, m')
      | (Inr _, m') \<Rightarrow>
          (case exit_loop E fd m' of
             None \<Rightarrow> None
           | Some (Inl e, m'') \<Rightarrow> Some (Inl e, m'')
           | Some (Inr _, m'') \<Rightarrow> Some (monitoring_sleep E m'')))"

text \<open>The first \<open>n\<close> ticks of the endless loop, or the failure that ends the thread in them.\<close>

fun monitoring_ticks ::
    "'w os \<Rightarrow> int \<Rightarrow> nat \<Rightarrow> ('w, 'x) manager \<Rightarrow> ((failure + unit) \<times> ('w, 'x) manager) option" where
  "monitoring_ticks E fd 0 m = Some (Inr (), m)"
| "monitoring_ticks E fd (Suc n) m =
     (case monitoring_tick E fd m of
        Some (Inr _, m') \<Rightarrow> monitoring_ticks E fd n m'
      | r \<Rightarrow> r)"

definition ClientSocket_new :: "'w os \<Rightarrow> ('w, int) io" where
  "ClientSocket_new E = UdpSenderSocket_new E"

definition client_enable_broadcast :: "'w os \<Rightarrow> int \<Rightarrow> bool \<Rightarrow> ('w, unit) io" where
  "client_enable_broadcast E fd enable = sender_enable_broadcast E fd enable"

definition monitoring_main ::
    "'w os \<Rightarrow> nat \<Rightarrow> ('w, 'x) manager \<Rightarrow> ((failure + unit) \<times> ('w, 'x) manager) option" where
  "monitoring_main E n m =
     (case andthen (on_host (ClientSocket_new E)) (\<lambda>_. on_host (ServerSocket_new E EXIT_PORT)) m of
        (Inl e, m') \<Rightarrow> Some (Inl e, m')
      | (Inr fd, m') \<Rightarrow> monitoring_ticks E fd n m')"

section \<open>Lemmas\<close>

lemma tick_with_participants:
  assumes "mac_address_index (service m) \<noteq> []"
  shows "monitoring_tick E fd m = Some (Inl (Undefined ''null participant dereferenced''), m)"
proof -
  have "\<exists>ps. participant_list (service m) = None # ps"
    using assms by (cases "mac_address_index (service m)") (simp_all add: participant_list_def)
  then show ?thesis
    by (auto simp: monitoring_tick_def undefined_behaviour_def throw_def)
qed

lemma exit_loop_loopback:
  assumes "inbox (world (host m)) = map packet_text pks" and "list_all sendable pks"
    and "idle_flags (host m)"
  shows "\<exists>m'. exit_loop (loopback self) fd m = Some (Inr (), m')
    \<and> service m' = by_mac.remove_all (map (\<lambda>pk. mac (sender_of pk)) pks) (service m)
    \<and> inbox (world (host m')) = [] \<and> outbox (world (host m')) = outbox (world (host m))
    \<and> idle_flags (host m') \<and> slept (world (host m')) = slept (world (host m))"
  using assms
proof (induction pks arbitrary: m)
  case Nil
  then show ?case
    using loopback_try_receive_string [of "host m" self fd]
    by (subst exit_loop.simps) (simp add: on_host_def server_try_receive_def
        receiver_try_receive_packet_def andthen_def ret_def idle_flags_def)
next
  case (Cons pk pks)
  have r: "on_host (server_try_receive (loopback self) fd) m =
      (Inr (Some (packet_view pk Packet_new)),
       m\<lparr>host := (host m)\<lparr>world := (world (host m))\<lparr>inbox := map packet_text pks\<rparr>\<rparr>\<rparr>)"
    using loopback_try_receive_packet [of "host m" pk "map packet_text pks" self fd Packet_new] Cons.prems
    by (simp add: on_host_def server_try_receive_def andthen_Inr ret_def)
  have "mac (sender_addresses (header (packet_view pk Packet_new))) = mac (sender_of pk)"
    by (simp add: packet_view_def header_view_def sender_of_def)
  then show ?case
    using Cons.prems Cons.IH [of "m\<lparr>host := (host m)\<lparr>world := (world (host m))\<lparr>inbox := map packet_text pks\<rparr>\<rparr>,
        service := snd (remove_by_mac_address (mac (sender_of pk)) (service m))\<rparr>"]
    by (subst exit_loop.simps) (simp add: r idle_flags_def)
qed

lemma poll_responses_undefined:
  assumes "poll_responses E ((address, request) # requests) m = (Inr (), m')"
  shows False
  using assms
  by (auto simp: on_host_def receive_bounded_def with_receiver_def andthen_result_Inr
      with_destructor_result undefined_behaviour_def throw_def ret_def
      split: prod.splits option.splits)

section \<open>Properties\<close>

text \<open>
  C31: The monitoring thread cannot run beside a participant: as soon as the table has an entry,
  the next tick dereferences the null pointer at the head of the list, before it sends,
  receives or changes anything. Even on a list without null pointers the responses could not be
  processed: the variable for the new status is never written.
\<close>

theorem monitoring_undefined_with_participants:
  "(mac_address_index (service m) \<noteq> [] \<longrightarrow>
      monitoring_tick E fd m = Some (Inl (Undefined ''null participant dereferenced''), m))
   \<and> poll_responses E ((address, request) # requests) m \<noteq> (Inr (), m')"
  using tick_with_participants poll_responses_undefined by blast

theorem monitoring_undefined_with_participants_witness:
  "monitoring_tick (loopback host_a) 3 \<lparr>host = net_with [], service = service_a AWAKEN\<rparr> =
    Some (Inl (Undefined ''null participant dereferenced''), \<lparr>host = net_with [], service = service_a AWAKEN\<rparr>)"
  using monitoring_undefined_with_participants [of "\<lparr>host = net_with [], service = service_a AWAKEN\<rparr>"]
  by (simp add: service_a_simps)

text \<open>
  C25: The exit port: if packets of senders with well-formed addresses, of any types, wait there, the
  loop takes them all and ends; afterwards no station is found by the MAC address of one of the senders,
  a lookup by any other MAC address gives what it gave before, no response has been sent, and the
  service keeps its invariant.
\<close>

theorem exit_loop_removes_senders:
  assumes "inbox (world (host m)) = map packet_text pks" and "list_all sendable pks"
    and "idle_flags (host m)" and "ms_inv (service m)"
  shows "\<exists>m'. exit_loop (loopback self) fd m = Some (Inr (), m')
    \<and> (\<forall>a. get_by_mac_address a (service m') =
        (if a \<in> (\<lambda>pk. mac (sender_of pk)) ` set pks then None else get_by_mac_address a (service m)))
    \<and> inbox (world (host m')) = [] \<and> outbox (world (host m')) = outbox (world (host m))
    \<and> ms_inv (service m')"
  using exit_loop_loopback [OF assms(1-3), of self fd] by_mac.remove_all_look [OF assms(4)]
    by_mac.remove_all_inv [OF assms(4)] by (auto simp: image_image)

theorem exit_loop_removes_senders_witness:
  "\<exists>m'. exit_loop (loopback host_a) 3
      \<lparr>host = net_with [packet_text (example_packet WOL)], service = service_a AWAKEN\<rparr> = Some (Inr (), m')
    \<and> get_by_mac_address (mac host_a) (service m') = None"
proof -
  have "sendable (example_packet WOL)" by (rule sendable_example)
  then show ?thesis
    using exit_loop_removes_senders [of "\<lparr>host = net_with [packet_text (example_packet WOL)],
        service = service_a AWAKEN\<rparr>" "[example_packet WOL]" host_a 3] ms_inv_service_a
    by (fastforce simp: sender_of_def example_packet_def host_a_def)
qed

text \<open>
  Without participants a tick on a quiet network is a sleep of 50 milliseconds, any number of
  times: nothing is sent and the table stays empty.
\<close>

lemma idle_monitoring_ticks:
  assumes "mac_address_index (service m) = []" and "silent (host m)"
  shows "\<exists>m'. monitoring_ticks (loopback self) fd n m = Some (Inr (), m') \<and> service m' = service m
    \<and> outbox (world (host m')) = outbox (world (host m))
    \<and> slept (world (host m')) = slept (world (host m)) @ replicate n (0, 50000000)"
  using assms
proof (induction n arbitrary: m)
  case (Suc n)
  obtain m' where e: "exit_loop (loopback self) fd m = Some (Inr (), m')" "service m' = service m"
    "silent (host m')" "outbox (world (host m')) = outbox (world (host m))"
    "slept (world (host m')) = slept (world (host m))"
    using exit_loop_loopback [of m "[]" self fd] Suc.prems(2) by (auto simp: silent_def)
  have "participant_list (service m) = []"
    using Suc.prems(1) by (simp add: participant_list_def)
  then have "\<exists>m''. monitoring_tick (loopback self) fd m = Some (Inr (), m'')
      \<and> service m'' = service m \<and> silent (host m'')
      \<and> outbox (world (host m'')) = outbox (world (host m))
      \<and> slept (world (host m'')) = slept (world (host m)) @ [(0, 50000000)]"
    using e by (simp add: monitoring_tick_def monitoring_sleep_def modify_def ret_def
        sys_effect_def MONITORING_TICK_US_def silent_def idle_flags_def)
  then obtain m'' where t: "monitoring_tick (loopback self) fd m = Some (Inr (), m'')"
    "service m'' = service m" "silent (host m'')"
    "outbox (world (host m'')) = outbox (world (host m))"
    "slept (world (host m'')) = slept (world (host m)) @ [(0, 50000000)]" by blast
  show ?case
    using Suc.IH [of m''] Suc.prems(1) t by auto
qed simp

lemma idle_monitoring_ticks_witness:
  "\<exists>m'. monitoring_ticks (loopback host_a) 3 20 (fresh_manager (net_with [])) = Some (Inr (), m')
    \<and> slept (world (host m')) = replicate 20 (0, 50000000)"
  using idle_monitoring_ticks [of "fresh_manager (net_with [])" host_a 3 20]
  by (auto simp: fresh_manager_def ManagementService_new_def silent_def net_with_def boot_def quiet_net_def
      idle_flags_def)

end
