(* ===== verification/Participant.thy ===== *)
theory Participant
  imports Interface Monitoring
begin

text \<open>
  The participant (\<open>participant.cpp\<close>), the two signal handlers, and the entry points of the
  manager and of the program (\<open>manager.cpp\<close>, \<open>main.cpp\<close>). A computation that may wait for ever
  has an optional result: \<open>None\<close> says that it does not return.
\<close>

section \<open>Computations that may not return\<close>

type_synonym ('w, 'a) waiting_io = "'w process \<Rightarrow> ((failure + 'a) \<times> 'w process) option"

definition returns :: "('w, 'a) io \<Rightarrow> ('w, 'a) waiting_io" where
  "returns c p = Some (c p)"

definition then_wait :: "('w, 'a) waiting_io \<Rightarrow> ('a \<Rightarrow> ('w, 'b) waiting_io) \<Rightarrow> ('w, 'b) waiting_io" where
  "then_wait c k p =
     (case c p of None \<Rightarrow> None | Some (Inl e, q) \<Rightarrow> Some (Inl e, q) | Some (Inr x, q) \<Rightarrow> k x q)"

lemma then_wait_returns: "c p = (Inr x, q) \<Longrightarrow> then_wait (returns c) k p = k x q"
  by (simp add: then_wait_def returns_def)

lemma then_wait_Some: "c p = Some (Inr x, q) \<Longrightarrow> then_wait c k p = k x q"
  by (simp add: then_wait_def)

lemma then_wait_result:
  "then_wait c k p = Some (Inr y, r) \<longleftrightarrow> (\<exists>x q. c p = Some (Inr x, q) \<and> k x q = Some (Inr y, r))"
  by (auto simp: then_wait_def split: option.splits prod.splits sum.splits)

section \<open>The manager's address and the way back\<close>

definition connect_to_manager :: "'w os \<Rightarrow> int \<Rightarrow> ('w, NodeAddresses) waiting_io" where
  "connect_to_manager E client_socket =
     then_wait (returns (client_enable_broadcast E client_socket True)) (\<lambda>_.
     let packet_body = PacketBody_new\<lparr>packet_type := DISCOVERY\<rparr> in
     then_wait (returns (client_request_op E packet_body [255, 255, 255, 255] DISCOVERY_MANAGER_PORT))
       (\<lambda>request.
     then_wait (receive_response E request DISCOVERY_PARTICIPANT_PORT DEFAULT_TRY_US) (\<lambda>response.
     then_wait (returns (client_enable_broadcast E client_socket False)) (\<lambda>_.
     returns (ret (sender_addresses (header response)))))))"

definition disconnect_to_manager :: "'w os \<Rightarrow> IpAddress \<Rightarrow> ('w, unit) waiting_io" where
  "disconnect_to_manager E manager_ip =
     (let packet_body = PacketBody_new\<lparr>packet_type := EXIT\<rparr> in
      then_wait (returns (client_request_op E packet_body manager_ip EXIT_PORT)) (\<lambda>request.
      then_wait (receive_response E request EXIT_PORT DEFAULT_TRY_US) (\<lambda>_. returns (ret ()))))"

text \<open>The thread for wake-up packets: its socket, and \<open>n\<close> rounds of its endless loop.\<close>

primrec listen_wol_rounds :: "nat \<Rightarrow> 'w os \<Rightarrow> int \<Rightarrow> ('w, unit) io" where
  "listen_wol_rounds 0 E fd = ret ()"
| "listen_wol_rounds (Suc n) E fd =
     andthen (handle_wol E fd [255, 255, 255, 255] WOL_PARTICIPANT_PORT) (\<lambda>_. listen_wol_rounds n E fd)"

definition listen_wol :: "nat \<Rightarrow> 'w os \<Rightarrow> ('w, unit) io" where
  "listen_wol n E =
     andthen (ServerSocket_new E WOL_PARTICIPANT_PORT) (\<lambda>fd.
     andthen (server_enable_broadcast E fd True) (\<lambda>_. listen_wol_rounds n E fd))"

section \<open>The main loop\<close>

lemma receive_shrinks:
  "receive c = (Received m, c') \<Longrightarrow> length (messages c') < length (messages c)"
  by (auto simp: receive_def Let_def split: StateTag.splits list.splits if_splits)

text \<open>A message that is not \<open>PARTICIPANT_EXIT\<close> has no case in the \<open>switch\<close>.\<close>

function participant_loop :: "ParticipantMsg Mpsc \<Rightarrow> (failure + ParticipantMsg Mpsc) option" where
  "participant_loop c =
     (case receive c of
        (Received PARTICIPANT_EXIT, c') \<Rightarrow> Some (Inr c')
      | (Received PARTICIPANT_WAKEUP, c') \<Rightarrow> participant_loop c'
      | (NoProducer, c') \<Rightarrow> Some (Inr c')
      | (FrontOfEmpty, c') \<Rightarrow> Some (Inl (Undefined ''front of an empty queue''))
      | (Blocked, c') \<Rightarrow> None)"
  by pat_completeness auto
termination
  by (relation "measure (\<lambda>c. length (messages c))") (auto dest: receive_shrinks sym)

declare participant_loop.simps [simp del]

text \<open>
  The channel when the interface thread runs: opened, both handles moved, and the sender copied
  into the thread, which destroys its copy when the function has returned, and into the
  parameter of its function.
\<close>

definition participant_channel :: "ParticipantMsg Mpsc" where
  "participant_channel = Sender_copy (Sender_copy (Receiver_move (Sender_move Channel_open)))"

text \<open>How a process stands: an exception that leaves a thread terminates it, \<open>SIGINT\<close> can kill it.\<close>

datatype process_state = Running | Exited int | Terminated failure | Killed

text \<open>The participant's handler of \<open>SIGINT\<close>; the result is the exit code.\<close>

definition participant_sigint :: "'w os \<Rightarrow> IpAddress \<Rightarrow> ('w, int) waiting_io" where
  "participant_sigint E manager_ip =
     then_wait (returns (ClientSocket_new E)) (\<lambda>_.
     then_wait (disconnect_to_manager E manager_ip) (\<lambda>_. returns (ret 130)))"

section \<open>The manager and the program\<close>

definition manager_sigint :: "'w os \<Rightarrow> ('w, int) io" where
  "manager_sigint E =
     andthen (ClientSocket_new E) (\<lambda>client_socket.
     andthen (client_enable_broadcast E client_socket True) (\<lambda>_.
     let packet_body = PacketBody_new\<lparr>packet_type := EXIT\<rparr> in
     andthen (client_request_op E packet_body [255, 255, 255, 255] EXIT_PORT) (\<lambda>_. ret 130)))"

text \<open>
  \<open>manager_main\<close>: a new service, given to the interface; \<open>others\<close> is what the monitoring and
  the discovery threads and the input do to it before the \<open>n\<close> rounds that are run.
\<close>

definition manager_main ::
    "nat \<Rightarrow> (iface_service \<Rightarrow> iface_service) \<Rightarrow> iface_service \<times> ((failure + bool) \<times> string)" where
  "manager_main n others =
     manager_interface_main n others (ManagementService_new Channel_open)"

datatype role = Run_participant | Run_manager | Refuse

text \<open>The role \<open>main\<close> chooses, what it prints, to \<open>cout\<close> and to \<open>cerr\<close>, and its exit code.\<close>

definition main_role :: "string list \<Rightarrow> role \<times> string \<times> string \<times> int" where
  "main_role argv =
     (if length argv \<le> 1 then (Run_participant, ''participant'' @ newline, [], 0)
      else if length argv > 2 then
        (Refuse, [], ''program expects at most one additional argument'' @ newline, -1)
      else if argv ! 1 \<noteq> ''manager'' then
        (Refuse, [], ''if additional argument given, it must be '' @ [CHR 0x22] @ ''maanger'' @ [CHR 0x22]
           @ newline, -1)
      else (Run_manager, ''manager'' @ newline, [], 0))"

section \<open>Requests and responses on the loopback network\<close>

definition own_packet :: "NodeAddresses \<Rightarrow> uint64 \<Rightarrow> PacketBody \<Rightarrow> Packet" where
  "own_packet self n b =
     \<lparr>header = \<lparr>seqn = n, timestamp = 1000002, sender_addresses = self, direction = REQUEST\<rparr>, body = b\<rparr>"

lemma client_request_loopback:
  assumes "loadable self"
  defines "text0 \<equiv> \<lambda>p b. packet_text (own_packet self (global_seqn p) b)"
  shows "\<exists>q. client_request_op (loopback self) b dest port p =
      (Inr \<lparr>sent_packet = text0 p b, dest_ip_address = dest, dest_port = port\<rparr>, q)
    \<and> outbox (world q) = outbox (world p) @ [(text0 p b, dest, port)]
    \<and> inbox (world q) = inbox (world p) \<and> flags_of (world q) = flags_of (world p)"
  by (simp add: client_request_op_def andthen_def load_host_loopback [OF assms(1)] next_seqn_def
      call_def now_def sys_result ret_def request_send_loopback text0_def packet_text_def
      own_packet_def Packet_new_def PacketHeader_new_def signed_divide_int_def Let_def)

text \<open>
  A participant that waits for the manager: every packet of another type costs it a wait and a
  repeated request, the first packet of the type \<open>DISCOVERY\<close> ends the loop.
\<close>

definition as_sent :: "client_request \<Rightarrow> string \<times> IpAddress \<times> uint16" where
  "as_sent req = (sent_packet req, dest_ip_address req, dest_port req)"

lemma rejected_round:
  assumes "inbox (world p) = packet_text pk # ms" and "sendable pk" and "idle_flags p"
    and "packet_type (body pk) \<noteq> DISCOVERY"
  shows "\<exists>p'. response_round (loopback self) req us fd q p = (Inr (False, packet_view pk q), p')
    \<and> inbox (world p') = ms \<and> idle_flags p' \<and> outbox (world p') = outbox (world p) @ [as_sent req]"
  using assms loopback_try_receive_packet [OF assms(1-3), of self fd q]
  by (simp add: response_round_def andthen_def ret_def retry_wait_def modify_def sys_effect_def
      request_send_loopback as_sent_def idle_flags_def)

lemma response_loop_first:
  assumes "inbox (world p) = map packet_text (others @ [pk]) @ ms" and "list_all sendable (others @ [pk])"
    and "list_all (\<lambda>other. packet_type (body other) \<noteq> DISCOVERY) others" and "packet_type (body pk) = DISCOVERY"
    and "idle_flags p"
  shows "\<exists>packet p'. receive_response_loop (loopback self) req us fd q p = Some (Inr packet, p')
    \<and> header packet = header_view (header pk) \<and> idle_flags p' \<and> inbox (world p') = ms
    \<and> outbox (world p') = outbox (world p) @ replicate (length others) (as_sent req)"
  using assms
proof (induction others arbitrary: p q)
  case Nil
  then have "receiver_try_receive_packet (loopback self) fd q p =
      (Inr (Some True, packet_view pk q), p\<lparr>world := (world p)\<lparr>inbox := ms\<rparr>\<rparr>)"
    using loopback_try_receive_packet [of p pk ms self fd q] by simp
  then show ?case
    using Nil(5) by (subst receive_response_loop.simps)
      (simp add: response_round_def andthen_def ret_def packet_view_def idle_flags_def)
next
  case (Cons other others)
  obtain p' where p': "response_round (loopback self) req us fd q p = (Inr (False, packet_view other q), p')"
    "inbox (world p') = map packet_text (others @ [pk]) @ ms" "idle_flags p'"
    "outbox (world p') = outbox (world p) @ [as_sent req]"
    using Cons.prems rejected_round [of p other "map packet_text (others @ [pk]) @ ms" self req us fd q] by auto
  obtain packet p'' where p'': "receive_response_loop (loopback self) req us fd (packet_view other q) p' = Some (Inr packet, p'')"
    "header packet = header_view (header pk)" "idle_flags p''" "inbox (world p'') = ms"
    "outbox (world p'') = outbox (world p') @ replicate (length others) (as_sent req)"
    using Cons.IH [OF p'(2) _ _ Cons.prems(4) p'(3), of "packet_view other q"] Cons.prems(2,3) by auto
  then show ?case using p' by (subst receive_response_loop.simps) simp
qed

lemma receive_response_after:
  assumes "inbox (world p) = map packet_text (others @ [pk]) @ ms" and "list_all sendable (others @ [pk])"
    and "list_all (\<lambda>other. packet_type (body other) \<noteq> DISCOVERY) others" and "packet_type (body pk) = DISCOVERY"
    and "idle_flags p"
  shows "\<exists>packet q. receive_response (loopback self) req port us p = Some (Inr packet, q)
    \<and> header packet = header_view (header pk) \<and> idle_flags q \<and> inbox (world q) = ms
    \<and> outbox (world q) = outbox (world p) @ replicate (length others) (as_sent req)"
proof -
  let ?p = "p\<lparr>world := (world p)\<lparr>next_fd := Suc (next_fd (world p))\<rparr>\<rparr>"
  have new: "UdpReceiverSocket_new (loopback self) port p = (Inr (int (next_fd (world p))), ?p)"
    by (simp add: UdpReceiverSocket_new_def andthen_assoc andthen_sys ret_def)
  obtain packet p' where "receive_response_loop (loopback self) req us (int (next_fd (world p))) Packet_new ?p =
      Some (Inr packet, p')"
    "header packet = header_view (header pk)" "idle_flags p'" "inbox (world p') = ms"
    "outbox (world p') = outbox (world p) @ replicate (length others) (as_sent req)"
    using response_loop_first [of ?p others pk ms self req us "int (next_fd (world p))" Packet_new] assms
    by (auto simp: idle_flags_def)
  then show ?thesis
    by (simp add: receive_response_def new UdpReceiverSocket_delete_def sys_effect_def idle_flags_def)
qed

lemma receive_response_first:
  assumes "inbox (world p) = packet_text pk # ms" and "sendable pk" and "idle_flags p"
    and "packet_type (body pk) = DISCOVERY"
  shows "\<exists>packet q. receive_response (loopback self) req port us p = Some (Inr packet, q)
    \<and> header packet = header_view (header pk) \<and> idle_flags q \<and> inbox (world q) = ms
    \<and> outbox (world q) = outbox (world p)"
  using receive_response_after [of p "[]" pk ms self req port us] assms by simp

lemma client_broadcast_loopback:
  "client_enable_broadcast (loopback self) fd b p = (Inr (), p)"
  by (simp add: client_enable_broadcast_def sender_enable_broadcast_def andthen_sys ret_def)

lemma connect_after:
  assumes "loadable self" and "inbox (world p) = map packet_text (others @ [pk]) @ ms"
    and "list_all sendable (others @ [pk])"
    and "list_all (\<lambda>other. packet_type (body other) \<noteq> DISCOVERY) others" and "packet_type (body pk) = DISCOVERY"
    and "idle_flags p"
  shows "\<exists>q. connect_to_manager (loopback self) fd p =
      Some (Inr (sender_addresses (header_view (header pk))), q)
    \<and> outbox (world q) = outbox (world p) @ replicate (Suc (length others))
        (packet_text (own_packet self (global_seqn p) PacketBody_new), BROADCAST_IP, DISCOVERY_MANAGER_PORT)
    \<and> inbox (world q) = ms \<and> idle_flags q"
proof -
  have body: "PacketBody_new\<lparr>packet_type := DISCOVERY\<rparr> = PacketBody_new"
    by (simp add: PacketBody_new_def)
  let ?sent = "(packet_text (own_packet self (global_seqn p) PacketBody_new), BROADCAST_IP, DISCOVERY_MANAGER_PORT)"
  let ?req = "\<lparr>sent_packet = fst ?sent, dest_ip_address = [255, 255, 255, 255], dest_port = DISCOVERY_MANAGER_PORT\<rparr>"
  have sent: "as_sent ?req = ?sent" by (simp add: as_sent_def BROADCAST_IP_def)
  obtain q where q: "client_request_op (loopback self) PacketBody_new [255, 255, 255, 255]
      DISCOVERY_MANAGER_PORT p = (Inr ?req, q)"
    "outbox (world q) = outbox (world p) @ [?sent]" "inbox (world q) = inbox (world p)" "idle_flags q"
    using client_request_loopback [OF assms(1), of PacketBody_new "[255, 255, 255, 255]"
        DISCOVERY_MANAGER_PORT p] assms(6)
    unfolding idle_flags_def BROADCAST_IP_def by auto
  have inbox: "inbox (world q) = map packet_text (others @ [pk]) @ ms" using assms(2) q(3) by simp
  obtain packet q' where q': "receive_response (loopback self) ?req DISCOVERY_PARTICIPANT_PORT DEFAULT_TRY_US q =
      Some (Inr packet, q')" "header packet = header_view (header pk)" "idle_flags q'"
    "inbox (world q') = ms" "outbox (world q') = outbox (world q) @ replicate (length others) ?sent"
    using receive_response_after [OF inbox assms(3-5) q(4), of self ?req, unfolded sent] by blast
  then show ?thesis
    using q
    by (simp add: connect_to_manager_def body then_wait_def returns_def client_broadcast_loopback ret_def)
qed

lemma connect_loopback:
  assumes "loadable self" and "inbox (world p) = packet_text pk # ms" and "sendable pk"
    and "idle_flags p" and "packet_type (body pk) = DISCOVERY"
  shows "\<exists>q. connect_to_manager (loopback self) fd p =
      Some (Inr (sender_addresses (header_view (header pk))), q)
    \<and> outbox (world q) = outbox (world p) @
        [(packet_text (own_packet self (global_seqn p) PacketBody_new), BROADCAST_IP, DISCOVERY_MANAGER_PORT)]
    \<and> inbox (world q) = ms \<and> idle_flags q"
  using connect_after [of self p "[]" pk ms fd] assms by simp

lemma disconnect_unanswered:
  assumes "loadable self" and "unanswered p"
  shows "disconnect_to_manager (loopback self) manager_ip p = None"
proof -
  obtain req q where r: "client_request_op (loopback self) (PacketBody_new\<lparr>packet_type := EXIT\<rparr>) manager_ip
      EXIT_PORT p = (Inr req, q)" "inbox (world q) = inbox (world p)" "flags_of (world q) = flags_of (world p)"
    using client_request_loopback [OF assms(1)] by blast
  then have "unanswered q" using unanswered_cong assms(2) by blast
  then show ?thesis
    by (simp add: disconnect_to_manager_def then_wait_def returns_def r(1) unanswered_receive_response)
qed

section \<open>The main loop and the input\<close>

lemma participant_channel_fields:
  "state_tag participant_channel = UP_TO_DATE" "messages participant_channel = []"
  "use_count participant_channel = 6"
  by (simp_all add: participant_channel_def Channel_open_def handle_defs)

lemma loop_after_input:
  "\<exists>c. participant_loop (Sender_drop (Sender_drop (snd (send PARTICIPANT_EXIT participant_channel)))) = Some (Inr c)"
  "participant_loop (Sender_drop (Sender_drop participant_channel)) = None"
  by (simp_all add: participant_loop.simps receive_def send_def handle_defs participant_channel_fields)

section \<open>Properties\<close>

text \<open>
  The first discovery takes the manager's interface down: the insertion of any host into the
  empty table makes the interface render the list, whose first pointer is null. Until then the
  interface printed the heading of the empty table.
\<close>

lemma interface_undefined_after_discovery:
  "snd (manager_main (Suc n) (\<lambda>s. snd (enroll a AWAKEN s))) =
    (Inl (Undefined ''null participant dereferenced''), render_header)"
proof -
  let ?s = "manager_interface_start (ManagementService_new Channel_open)"
  let ?t = "snd (enroll a AWAKEN ?s)"
  have "mac_address_index ?t = [(mac a, 0)]"
    and "outside ?t = snd (send MANAGER_IFACE_REFRESH (Sender_move (Sender_move (Receiver_move (Sender_move Channel_open)))))"
    by (simp_all add: manager_interface_start_def register_event_handler_def service_ops
        ManagementService_new_def WorkStation_new_def Let_def)
  then have "interface_round ?t =
      Some (?t\<lparr>outside := snd (receive (outside ?t))\<rparr>,
        (Inl (Undefined ''null participant dereferenced''), []))"
    by (simp add: interface_round_def split_beta render_def participant_list_def
        undefined_behaviour_def throw_def receive_def send_def handle_defs Channel_open_def)
  moreover have "participant_list ?s = []"
    by (simp add: manager_interface_start_def register_event_handler_def ManagementService_new_def
        participant_list_def Let_def)
  ultimately show ?thesis
    by (simp add: manager_main_def manager_interface_main_def render_def modify_def Let_def)
qed

end
