(* ===== verification/Wake_Up.thy ===== *)
theory Wake_Up
  imports Participant
begin

text \<open>
  The participant's listener for wake-up packets (\<open>ServerSocket::handle_wol\<close>, \<open>listen_wol\<close>): what
  it does with a packet on a kernel that lets only sockets broadcast that asked for it, and
  what its answer does to the listeners of the network.
\<close>

section \<open>Kernels that guard broadcasts\<close>

text \<open>
  \<open>SO_BROADCAST\<close>: a descriptor may send to the broadcast address only after the option was set
  for it; a new descriptor does not have it, and \<open>sendto\<close> fails without it.
\<close>

definition guards_broadcast :: "'w os \<Rightarrow> ('w \<Rightarrow> int \<Rightarrow> bool) \<Rightarrow> bool" where
  "guards_broadcast E allowed \<longleftrightarrow>
     (\<forall>pr w. \<not> allowed (snd (sys_socket E pr w)) (fst (sys_socket E pr w)))
     \<and> (\<forall>fd m port w. \<not> allowed w fd \<longrightarrow> fst (sys_sendto E fd m BROADCAST_IP port w) < 0)"

text \<open>A new sender that does not ask for the option cannot send to the broadcast address.\<close>

lemma new_sender_cannot_broadcast:
  assumes "guards_broadcast E allowed"
  shows "\<exists>e q. with_sender E (\<lambda>s. sender_send_packet E s packet BROADCAST_IP port) p = (Inl e, q)"
proof -
  let ?fd = "fst (sys_socket E IPPROTO_UDP (world p))"
  let ?w = "snd (sys_socket E IPPROTO_UDP (world p))"
  have "fst (sys_sendto E ?fd m BROADCAST_IP port ?w) < 0" for m
    using assms by (simp add: guards_broadcast_def)
  then show ?thesis
    by (auto simp: with_sender_def UdpSenderSocket_new_def andthen_assoc andthen_sys
        with_destructor_def sender_send_packet_def sender_send_def throw_io_def throw_def)
qed

lemma handle_wol_fails:
  assumes "guards_broadcast E allowed"
  shows "\<exists>e q. handle_wol E fd BROADCAST_IP port p = (Inl e, q)"
proof (cases "handle_wol E fd BROADCAST_IP port p")
  case (Pair r q)
  have "r \<noteq> Inr ()"
    using Pair new_sender_cannot_broadcast [OF assms]
    by (auto simp: handle_wol_def andthen_result_Inr Let_def throw_def split: if_splits)
      (metis Inl_Inr_False prod.inject)
  then show ?thesis using Pair by (cases r) auto
qed

section \<open>The answer to a wake-up packet\<close>

text \<open>The text of the answer of a plain host is shorter than a magic packet.\<close>

definition wol_answer :: "NodeAddresses \<Rightarrow> uint64 \<Rightarrow> Packet" where
  "wol_answer self n = Packet_new
     \<lparr>header := \<lparr>seqn = n, timestamp = 1000002, sender_addresses = self, direction = RESPONSE\<rparr>,
      body := PacketBody_new\<lparr>packet_type := WOL\<rparr>\<rparr>"

lemma wol_answer_short:
  assumes "plain_host self"
  shows "length (packet_text (wol_answer self n)) < MAGIC_PACKET_SIZE"
proof -
  have "length (to_string (1000002 :: uint64)) \<le> 20" "length (to_string n) \<le> 20"
    by (rule length_to_string)+
  moreover have "length (render_mac_address (mac self)) = 17" "length (render_ip_address (ip self)) \<le> 15"
    using assms address_lengths [of "mac self" "ip self"] by (simp_all add: plain_host_def loadable_def)
  moreover have "escape_loop False (hostname self) = []"
    using assms by (simp add: plain_host_def escape_loop_no_backslash)
  moreover have "length (to_string (direction_code RESPONSE)) \<le> 1" "length (to_string (type_code WOL)) \<le> 1"
    by (simp_all add: to_string_def show_radix.simps)
  ultimately show ?thesis
    by (simp add: packet_text_fields wol_answer_def MAGIC_PACKET_SIZE_def)
qed

lemma loopback_receive:
  "inbox (world p) = m # ms \<Longrightarrow> idle_flags p \<Longrightarrow>
    receiver_receive (loopback self) fd n p =
      (Inr (length (take n m), take n m, [127, 0, 0, 1]), p\<lparr>world := (world p)\<lparr>inbox := ms\<rparr>\<rparr>)"
  by (auto simp: receiver_receive_def receive_with_block_type_def andthen_assoc andthen_sys
      loop_receive_def idle_flags_def prog_simps)

lemma handle_wol_answers:
  assumes "loadable self" and "inbox (world p) = m # ms" and "idle_flags p"
    and "MAGIC_PACKET_SIZE \<le> length m"
  shows "\<exists>q. handle_wol (loopback self) fd dest port p = (Inr (), q)
    \<and> outbox (world q) = outbox (world p) @ [(packet_text (wol_answer self (global_seqn p)), dest, port)]"
  using assms
  by (simp add: handle_wol_def andthen_Inr [OF loopback_receive] min_def next_seqn_def
      andthen_Inr [OF load_host_loopback] now_def andthen_assoc andthen_sys
      with_sender_def UdpSenderSocket_new_def with_destructor_def sender_send_packet_def
      sender_send_def UdpSenderSocket_delete_def sys_effect_def packet_text_def wol_answer_def
      signed_divide_int_def ret_def)

lemma handle_wol_short:
  assumes "inbox (world p) = m # ms" and "idle_flags p" and "length m < MAGIC_PACKET_SIZE"
  shows "handle_wol (loopback self) fd dest port p =
    (Inl (InvalidPacketExc (InvalidPacketException ''WOL packet must have length 6 * 17'')),
     p\<lparr>world := (world p)\<lparr>inbox := ms\<rparr>\<rparr>)"
  using assms by (simp add: handle_wol_def andthen_Inr [OF loopback_receive] throw_def)

section \<open>Properties\<close>

text \<open>
  C33: A wake-up packet ends the participant on a kernel that guards broadcasts: \<open>handle_wol\<close>
  answers through a new sender socket to the broadcast address and does not ask for the option,
  so its first round, whatever datagram it gets, ends in an exception, which leaves the thread
  \<open>listen_wol\<close>; it never gets to a second packet.
\<close>

theorem wake_up_ends_participant:
  assumes "guards_broadcast E allowed"
  shows "\<exists>e q. listen_wol (Suc n) E p = (Inl e, q)"
proof (cases "listen_wol (Suc n) E p")
  case (Pair r q)
  have fails: "handle_wol E fd [255, 255, 255, 255] port s \<noteq> (Inr (), t)" for fd port s t
    using handle_wol_fails [OF assms, of fd port s] by (auto simp: BROADCAST_IP_def)
  have "r \<noteq> Inr ()"
    using Pair by (auto simp: listen_wol_def andthen_result_Inr fails)
  then show ?thesis using Pair by (cases r) auto
qed

definition guarded :: "NodeAddresses \<Rightarrow> net os" where
  "guarded self = (loopback self)\<lparr>sys_sendto := \<lambda>fd m a port w.
     if a = BROADCAST_IP then (-1, w\<lparr>last_error := 13\<rparr>) else (int (length m), w)\<rparr>"

theorem wake_up_ends_participant_witness:
  "\<exists>e q. listen_wol 2 (guarded host_a) (net_with [replicate 102 (CHR 0x00), ''x'']) = (Inl e, q)"
proof -
  have "guards_broadcast (guarded host_a) (\<lambda>_ _. False)"
    by (simp add: guards_broadcast_def guarded_def)
  then show ?thesis
    using wake_up_ends_participant [of "guarded host_a" "\<lambda>_ _. False" 1] by (simp add: numeral_2_eq_2)
qed

text \<open>
  C34: The listeners stop each other: where broadcasts are free, any datagram of at least 102
  bytes, whatever its bytes, is answered by one packet that is broadcast to the port the
  listeners themselves are bound to; and this answer, being shorter than a magic packet, makes
  the listener of any participant that receives it, the sender included, throw.
\<close>

theorem wake_up_answer_stops_listeners:
  assumes "plain_host self" and "inbox (world p) = m # ms" and "idle_flags p"
    and "MAGIC_PACKET_SIZE \<le> length m"
  shows "\<exists>q answer. handle_wol (loopback self) fd BROADCAST_IP WOL_PARTICIPANT_PORT p = (Inr (), q)
    \<and> outbox (world q) = outbox (world p) @ [(answer, BROADCAST_IP, WOL_PARTICIPANT_PORT)]
    \<and> (\<forall>r rest. inbox (world r) = answer # rest \<and> idle_flags r \<longrightarrow>
        fst (handle_wol (loopback other) fd' BROADCAST_IP WOL_PARTICIPANT_PORT r) =
          Inl (InvalidPacketExc (InvalidPacketException ''WOL packet must have length 6 * 17'')))"
proof -
  have "loadable self" using assms(1) by (simp add: plain_host_def)
  then show ?thesis
    using handle_wol_answers [OF _ assms(2-4), of self fd BROADCAST_IP WOL_PARTICIPANT_PORT]
      handle_wol_short wol_answer_short [OF assms(1)] by fastforce
qed

theorem wake_up_answer_stops_listeners_witness:
  "\<exists>q. handle_wol (loopback host_a) 3 BROADCAST_IP WOL_PARTICIPANT_PORT
      (net_with [replicate 102 (CHR ''x'')]) = (Inr (), q)"
proof -
  have "plain_host host_a"
    by (simp add: plain_host_def loadable_def host_a_def is_mac_def is_ip_def BACKSLASH_def)
  then show ?thesis
    using wake_up_answer_stops_listeners [of host_a "net_with [replicate 102 (CHR ''x'')]"
        "replicate 102 (CHR ''x'')" "[]" 3 host_b 3] by (auto simp: MAGIC_PACKET_SIZE_def)
qed

end
