(* ===== verification/World_Invariants.thy ===== *)
theory World_Invariants
  imports Participant
begin

text \<open>
  Which states of the outside world the program keeps to: a property \<open>I\<close> of worlds that every
  system call keeps, where only packets are sent that may be sent, is kept by every operation of
  the sockets. The locale \<open>kept_world\<close> states what is asked of the system calls; the operations'
  lemmas are proved in it once, for any operating system and any such property.
\<close>

section \<open>Computations that keep a property of the world\<close>

text \<open>From a world with \<open>I\<close> the computation leads to one with \<open>I\<close>, and its result satisfies \<open>Q\<close>.\<close>

definition gives :: "('w \<Rightarrow> bool) \<Rightarrow> ('w, 'a) io \<Rightarrow> ('a \<Rightarrow> bool) \<Rightarrow> bool" where
  "gives I c Q \<longleftrightarrow> (\<forall>p. I (world p) \<longrightarrow> I (world (snd (c p))) \<and> (\<forall>x. fst (c p) = Inr x \<longrightarrow> Q x))"

named_theorems gives_rules

lemma givesD:
  assumes "gives I c Q" and "I (world p)"
  shows "c p = (r, q) \<Longrightarrow> I (world q)" and "c p = (Inr x, q) \<Longrightarrow> Q x"
  using assms by (auto simp: gives_def dest!: spec [of _ p])

lemma gives_result:
  "gives I c Q \<Longrightarrow> c p = (r, q) \<Longrightarrow> I (world p) \<Longrightarrow> I (world q) \<and> (\<forall>x. r = Inr x \<longrightarrow> Q x)"
  by (auto simp: gives_def dest!: spec [of _ p])

lemma gives_weaken: "gives I c Q \<Longrightarrow> (\<And>x. Q x \<Longrightarrow> R x) \<Longrightarrow> gives I c R"
  by (auto simp: gives_def)

lemma gives_andthen: "gives I c Q \<Longrightarrow> (\<And>x. Q x \<Longrightarrow> gives I (k x) R) \<Longrightarrow> gives I (andthen c k) R"
  unfolding gives_def andthen_def by (fastforce split: prod.splits sum.splits)

lemma gives_ret [gives_rules]: "Q x \<Longrightarrow> gives I (ret x) Q"
  by (simp add: gives_def ret_def)

lemma gives_throw [gives_rules]: "gives I (throw e) Q"
  by (simp add: gives_def throw_def)

lemma gives_throw_io [gives_rules]: "gives I (throw_io E what) Q"
  by (simp add: gives_def throw_io_def throw_def)

lemma gives_undefined [gives_rules]: "gives I (undefined_behaviour why) Q"
  by (simp add: undefined_behaviour_def gives_throw)

lemma gives_gets: "(\<And>p. Q (f p)) \<Longrightarrow> gives I (gets f) Q"
  by (simp add: gives_def gets_def)

lemma gives_next_seqn: "gives I next_seqn (\<lambda>_. True)"
  by (simp add: gives_def next_seqn_def call_def)

lemma gives_sys: "(\<And>w. I w \<Longrightarrow> I (snd (f w)) \<and> Q (fst (f w))) \<Longrightarrow> gives I (sys f) Q"
  by (simp add: gives_def sys_result)

lemma gives_effect: "(\<And>w. I w \<Longrightarrow> I (f w)) \<Longrightarrow> gives I (modify (sys_effect f)) (\<lambda>_. True)"
  by (simp add: gives_def modify_def sys_effect_def)

lemma gives_if [gives_rules]:
  "(b \<Longrightarrow> gives I c Q) \<Longrightarrow> (\<not> b \<Longrightarrow> gives I d Q) \<Longrightarrow> gives I (if b then c else d) Q"
  by simp

lemma gives_option [gives_rules]:
  "(x = None \<Longrightarrow> gives I c Q) \<Longrightarrow> (\<And>y. x = Some y \<Longrightarrow> gives I (d y) Q) \<Longrightarrow>
    gives I (case x of None \<Rightarrow> c | Some y \<Rightarrow> d y) Q"
  by (cases x) simp_all

lemma gives_pair: "(\<And>a b. x = (a, b) \<Longrightarrow> gives I (f a b) Q) \<Longrightarrow> gives I (case x of (a, b) \<Rightarrow> f a b) Q"
  by (cases x) simp

lemma gives_destructor:
  "gives I c Q \<Longrightarrow> (\<And>p. I (world p) \<Longrightarrow> I (world (d p))) \<Longrightarrow> gives I (with_destructor c d) Q"
  unfolding gives_def with_destructor_def by (fastforce split: prod.splits)

section \<open>Texts of packets\<close>

text \<open>A request of the host \<open>self\<close> with the body \<open>b\<close>.\<close>

definition own_text :: "NodeAddresses \<Rightarrow> PacketBody \<Rightarrow> string \<Rightarrow> bool" where
  "own_text self b m \<longleftrightarrow> (\<exists>n t. m = packet_text
     \<lparr>header = \<lparr>seqn = n, timestamp = t, sender_addresses = self, direction = REQUEST\<rparr>, body = b\<rparr>)"

text \<open>A packet that was deserialized from a text of \<open>A\<close>, with the result \<open>done\<close>.\<close>

definition read_from :: "(string \<Rightarrow> bool) \<Rightarrow> bool \<Rightarrow> Packet \<Rightarrow> bool" where
  "read_from A done pk \<longleftrightarrow>
     (\<exists>m q. A m \<and> fst (packet_deserialize q (PacketDeserializer_new m)) = Inr (done, pk))"

section \<open>The contract of the system calls\<close>

text \<open>
  \<open>ok\<close> says which datagrams may be sent where, \<open>arrives\<close> what a descriptor can receive, \<open>self\<close>
  are the host's own addresses. A descriptor that was just opened may be
  bound, and later closed.
\<close>

locale kept_world =
  fixes E :: "'w os" and I :: "'w \<Rightarrow> bool" and self :: NodeAddresses
    and ok :: "string \<Rightarrow> IpAddress \<Rightarrow> uint16 \<Rightarrow> bool" and arrives :: "int \<Rightarrow> string \<Rightarrow> bool"
  assumes socket: "I w \<Longrightarrow> I (snd (sys_socket E pr w))"
    and close_new: "I w \<Longrightarrow> I w' \<Longrightarrow> I (sys_close E (fst (sys_socket E pr w)) w')"
    and bind_new: "I w \<Longrightarrow> I (snd (sys_bind E (fst (sys_socket E pr w)) a port (snd (sys_socket E pr w))))"
    and sendto: "I w \<Longrightarrow> ok m dest port \<Longrightarrow> I (snd (sys_sendto E fd m dest port w))"
    and broadcast: "I w \<Longrightarrow> I (snd (sys_broadcast E fd b w))"
    and getfl: "I w \<Longrightarrow> I (snd (sys_getfl E fd w))"
    and setfl: "I w \<Longrightarrow> I (snd (sys_setfl E fd f w))"
    and recvfrom: "I w \<Longrightarrow> I (snd (sys_recvfrom E fd n w))"
    and received_data: "I w \<Longrightarrow> fst (sys_recvfrom E fd STR_BUF_SIZE w) = (res, data, src) \<Longrightarrow> 0 \<le> res \<Longrightarrow>
      arrives fd (message_buffer (nat res) data)"
    and clock: "I w \<Longrightarrow> I (snd (sys_clock E w))"
    and nanosleep: "I w \<Longrightarrow> I (sys_nanosleep E s ns w)"
    and loads: "gives I (load_host E) (\<lambda>a. a = self)"
begin

text \<open>The destructor of a socket that was opened in a world with \<open>I\<close>.\<close>

lemma delete_new:
  "I w \<Longrightarrow> I (world p) \<Longrightarrow> I (world (UdpSenderSocket_delete E (fst (sys_socket E pr w)) p))"
  "I w \<Longrightarrow> I (world p) \<Longrightarrow> I (world (UdpReceiverSocket_delete E (fst (sys_socket E pr w)) p))"
  using close_new by (auto simp: UdpSenderSocket_delete_def UdpReceiverSocket_delete_def sys_effect_def)

text \<open>What is known of a descriptor: a new socket had it.\<close>

definition opened :: "int \<Rightarrow> bool" where
  "opened fd \<longleftrightarrow> (\<exists>pr w. I w \<and> fd = fst (sys_socket E pr w))"

lemma gives_socket: "gives I (sys (sys_socket E pr)) opened"
  by (rule gives_sys) (auto simp: opened_def intro: socket)

lemma gives_sender_new: "gives I (UdpSenderSocket_new E) opened"
  unfolding UdpSenderSocket_new_def
  by (rule gives_andthen [OF gives_socket]) (intro gives_rules)

lemma gives_receiver_new: "gives I (UdpReceiverSocket_new E port) opened"
  unfolding gives_def
proof (intro allI impI)
  fix p :: "'w process"
  assume I: "I (world p)"
  show "I (world (snd (UdpReceiverSocket_new E port p)))
    \<and> (\<forall>x. fst (UdpReceiverSocket_new E port p) = Inr x \<longrightarrow> opened x)"
    using socket [OF I] bind_new [OF I] I
    by (auto simp: UdpReceiverSocket_new_def andthen_sys throw_io_def throw_def ret_def opened_def)
qed

lemma gives_sender_send: "ok m dest port \<Longrightarrow> gives I (sender_send E fd m dest port) (\<lambda>_. True)"
  unfolding sender_send_def
  by (rule gives_andthen [where Q = "\<lambda>_. True"]) (intro gives_rules gives_sys conjI sendto TrueI; assumption)+

lemma gives_sender_broadcast: "gives I (sender_enable_broadcast E fd b) (\<lambda>_. True)"
  unfolding sender_enable_broadcast_def
  by (rule gives_andthen [where Q = "\<lambda>_. True"]) (intro gives_rules gives_sys conjI broadcast TrueI; assumption)+

lemma gives_receiver_broadcast: "gives I (receiver_enable_broadcast E fd b) (\<lambda>_. True)"
  using gives_sender_broadcast [of fd b]
  by (auto simp: receiver_enable_broadcast_def intro!: gives_andthen [OF gives_sys] gives_rules broadcast)

lemma gives_with_sender:
  assumes "\<And>fd. gives I (inside fd) Q"
  shows "gives I (with_sender E inside) Q"
  unfolding with_sender_def
  by (rule gives_andthen [OF gives_sender_new])
    (auto intro!: gives_destructor assms simp: opened_def intro: delete_new)

lemma gives_request_send:
  assumes "ok (sent_packet req) (dest_ip_address req) (dest_port req)"
  shows "gives I (request_send E req) (\<lambda>_. True)"
  unfolding request_send_def
  by (intro gives_with_sender gives_andthen [where Q = "\<lambda>_. True"] gives_rules gives_sender_broadcast
      gives_sender_send assms TrueI)

lemma gives_now: "gives I (now E) (\<lambda>_. True)"
  unfolding now_def
  by (rule gives_andthen [where Q = "\<lambda>_. True"])
    (auto intro!: gives_sys gives_pair gives_ret clock split: prod.splits)

lemma gives_client_request:
  assumes "\<And>m. own_text self b m \<Longrightarrow> ok m dest port"
  shows "gives I (client_request_op E b dest port) (\<lambda>req. own_text self b (sent_packet req)
    \<and> dest_ip_address req = dest \<and> dest_port req = port)"
proof -
  have own: "own_text self b (finish (packet_serialize
      (Packet_new\<lparr>header := \<lparr>seqn = n, timestamp = t, sender_addresses = self, direction = REQUEST\<rparr>, body := b\<rparr>)
      PacketSerializer_new))" for n t
    by (auto simp: own_text_def packet_text_def Packet_new_def)
  show ?thesis
    unfolding client_request_op_def Let_def
    by (intro gives_andthen [OF loads] gives_andthen [OF gives_next_seqn] gives_andthen [OF gives_now]
        gives_andthen [OF gives_request_send] gives_ret)
      (auto intro: assms own)
qed

section \<open>Receiving\<close>

lemma gives_receive_blocked:
  "gives I (receive_with_block_type E fd STR_BUF_SIZE bt)
    (\<lambda>r. \<forall>n d s. r = Some (n, d, s) \<longrightarrow> arrives fd (message_buffer n d))"
proof -
  have flags: "gives I (sys (sys_getfl E fd)) (\<lambda>_. True)" "gives I (sys (sys_setfl E fd f)) (\<lambda>_. True)" for f
    by (auto intro!: gives_sys getfl setfl)
  have set: "gives I (case bt of BLOCKING \<Rightarrow> ret () | NON_BLOCKING \<Rightarrow>
      andthen (sys (sys_setfl E fd f)) (\<lambda>r. if r < 0 then throw_io E what else ret ())) (\<lambda>_. True)" for f what
    by (cases bt) (auto intro!: gives_rules gives_andthen [OF flags(2)])
  have recv: "gives I (sys (sys_recvfrom E fd STR_BUF_SIZE))
      (\<lambda>(res, data, src). 0 \<le> res \<longrightarrow> arrives fd (message_buffer (nat res) data))"
    by (rule gives_sys) (auto intro: recvfrom received_data)
  show ?thesis
    unfolding receive_with_block_type_def
  proof (intro gives_andthen [OF flags(1)] gives_if gives_throw_io gives_andthen [OF set]
      gives_andthen [OF recv] gives_pair)
    fix x res data_src data src
    assume "case x of (res, data, src) \<Rightarrow> 0 \<le> res \<longrightarrow> arrives fd (message_buffer (nat res) data)"
      and "x = (res, data_src)" and "data_src = (data, src)"
    then show "gives I (andthen (gets (\<lambda>p. errno E (world p))) (\<lambda>err.
        if res < 0 then if err = EWOULDBLOCK E \<or> err = EAGAIN E then ret None else throw_io E ''recvfrom''
        else andthen (case bt of BLOCKING \<Rightarrow> ret () | NON_BLOCKING \<Rightarrow>
            andthen (sys (sys_setfl E fd flags)) (\<lambda>r. if r < 0 then throw_io E ''fcntl unset O_NONBLOCK'' else ret ()))
          (\<lambda>_. ret (Some (nat res, data, src)))))
      (\<lambda>r. \<forall>n d s. r = Some (n, d, s) \<longrightarrow> arrives fd (message_buffer n d))" for flags
      by (intro gives_andthen [OF gives_gets [where Q = "\<lambda>_. True"]] gives_rules gives_andthen [OF set]) auto
  qed
qed

lemma gives_deserialize:
  assumes "arrives fd m"
  shows "gives I (deserialize_message q m) (\<lambda>(done, pk). read_from (arrives fd) done pk)"
proof (cases "fst (packet_deserialize q (PacketDeserializer_new m))")
  case (Inl e)
  then show ?thesis by (simp add: deserialize_message_def gives_throw)
next
  case (Inr r)
  then show ?thesis
    using assms by (cases r) (auto simp: deserialize_message_def read_from_def intro!: gives_ret)
qed

lemma gives_receive_string: "gives I (receiver_receive_string E fd) (arrives fd)"
  unfolding receiver_receive_string_def receiver_receive_def andthen_assoc
  by (rule gives_andthen [OF gives_receive_blocked]) (auto intro!: gives_rules split: option.splits)

lemma gives_try_receive_string:
  "gives I (receiver_try_receive_string E fd) (\<lambda>r. \<forall>m. r = Some m \<longrightarrow> arrives fd m)"
  unfolding receiver_try_receive_string_def receiver_try_receive_def
  by (rule gives_andthen [OF gives_receive_blocked]) (auto intro!: gives_rules)

lemma gives_receive_packet:
  "gives I (receiver_receive_packet E fd q) (\<lambda>(done, pk). read_from (arrives fd) done pk)"
  unfolding receiver_receive_packet_def
  by (rule gives_andthen [OF gives_receive_string]) (rule gives_deserialize)

lemma gives_try_receive_packet:
  "gives I (receiver_try_receive_packet E fd q) (\<lambda>(r, pk). \<forall>done. r = Some done \<longrightarrow> read_from (arrives fd) done pk)"
  unfolding receiver_try_receive_packet_def
  by (rule gives_andthen [OF gives_try_receive_string])
    (auto intro!: gives_option gives_ret gives_andthen [OF gives_deserialize] gives_pair)

lemma gives_response_round:
  assumes "ok (sent_packet req) (dest_ip_address req) (dest_port req)"
  shows "gives I (response_round E req us fd q) (\<lambda>(done, pk). done \<longrightarrow> read_from (arrives fd) True pk)"
proof -
  have wait: "gives I (retry_wait E us) (\<lambda>_. True)"
    unfolding retry_wait_def by (intro gives_effect nanosleep)
  show ?thesis
    unfolding response_round_def
    by (rule gives_andthen [OF gives_try_receive_packet])
      (auto intro!: gives_pair gives_if gives_ret gives_andthen [OF wait]
        gives_andthen [OF gives_request_send [OF assms]])
qed

lemma gives_server_try_receive:
  "gives I (server_try_receive E fd) (\<lambda>r. \<forall>pk. r = Some pk \<longrightarrow> (\<exists>done. read_from (arrives fd) done pk))"
  unfolding server_try_receive_def
  by (rule gives_andthen [OF gives_try_receive_packet])
    (auto intro!: gives_pair gives_option gives_ret)

text \<open>A server that returns keeps \<open>I\<close>, and what it returns was read from its descriptor.\<close>

lemma server_receive_gives:
  assumes "server_receive E fd p = Some (r, q)" and "I (world p)"
  shows "I (world q) \<and> (\<forall>pk. r = Inr pk \<longrightarrow> read_from (arrives fd) True pk)"
proof -
  have "E' = E \<longrightarrow> fd' = fd \<longrightarrow> I (world p) \<longrightarrow>
      I (world (snd x)) \<and> (\<forall>pk. fst x = Inr pk \<longrightarrow> read_from (arrives fd) True pk)"
    if "server_receive_loop E' fd' q p = Some x" for E' fd' q p x
  proof (rule server_receive_loop.raw_induct [OF _ that, where P = "\<lambda>E' fd' q p x. E' = E \<longrightarrow> fd' = fd \<longrightarrow>
        I (world p) \<longrightarrow> I (world (snd x)) \<and> (\<forall>pk. fst x = Inr pk \<longrightarrow> read_from (arrives fd) True pk)"], intro impI)
    fix loop E' fd' q p x
    assume ih: "\<And>E' fd' q p x. loop E' fd' q p = Some x \<Longrightarrow> E' = E \<longrightarrow> fd' = fd \<longrightarrow>
        I (world p) \<longrightarrow> I (world (snd x)) \<and> (\<forall>pk. fst x = Inr pk \<longrightarrow> read_from (arrives fd) True pk)"
      and step: "(case receiver_receive_packet E' fd' q p of (Inl e, p') \<Rightarrow> Some (Inl e, p')
        | (Inr (done, pk), p') \<Rightarrow> if done then Some (Inr pk, p') else loop E' fd' pk p') = Some x"
      and E: "E' = E" "fd' = fd" and I: "I (world p)"
    note known = givesD [OF gives_receive_packet I]
    show "I (world (snd x)) \<and> (\<forall>pk. fst x = Inr pk \<longrightarrow> read_from (arrives fd) True pk)"
      using step ih E known by (auto split: prod.splits sum.splits if_splits)
  qed
  from this [of E fd Packet_new p "(r, q)"] show ?thesis
    using assms by (simp add: server_receive_def)
qed

section \<open>Answers\<close>

lemma gives_send_packet:
  "ok (packet_text packet) dest port \<Longrightarrow> gives I (sender_send_packet E fd packet dest port) (\<lambda>_. True)"
  unfolding sender_send_packet_def Let_def packet_text_def by (rule gives_sender_send)

text \<open>The answer to a wake-up packet, and the response to a request.\<close>

lemma gives_handle_wol:
  assumes "\<And>n t. ok (packet_text (Packet_new\<lparr>header := \<lparr>seqn = n, timestamp = t, sender_addresses = self,
      direction = RESPONSE\<rparr>, body := PacketBody_new\<lparr>packet_type := WOL\<rparr>\<rparr>)) dest port"
  shows "gives I (handle_wol E fd dest port) (\<lambda>_. True)"
proof -
  have flags: "gives I (sys (sys_getfl E fd)) (\<lambda>_. True)"
    and recv: "gives I (sys (sys_recvfrom E fd MAGIC_PACKET_SIZE)) (\<lambda>_. True)"
    by (auto intro!: gives_sys getfl recvfrom)
  have "gives I (receiver_receive E fd MAGIC_PACKET_SIZE) (\<lambda>_. True)"
    unfolding receiver_receive_def receive_with_block_type_def andthen_assoc
    by (intro gives_andthen [OF flags]) (auto intro!: gives_rules gives_andthen [OF recv] gives_pair
        gives_gets gives_andthen [where Q = "\<lambda>_. True"]
        split: option.splits)
  then show ?thesis
    unfolding handle_wol_def Let_def
    by (rule gives_andthen)
      (auto intro!: gives_pair gives_rules gives_andthen [OF gives_next_seqn] gives_andthen [OF loads]
        gives_andthen [OF gives_now] gives_with_sender gives_send_packet assms)
qed

lemma gives_respond:
  assumes "\<And>t. ok (packet_text (Packet_new
      \<lparr>header := (header packet)\<lparr>direction := RESPONSE, sender_addresses := self, timestamp := t\<rparr>,
       body := body packet\<rparr>)) (ip (sender_addresses (header packet))) port"
  shows "gives I (respond E packet port) (\<lambda>_. True)"
  unfolding respond_def respond_with_def Let_def
  by (intro gives_andthen [OF loads] gives_andthen [OF gives_now] gives_with_sender gives_send_packet)
    (simp add: assms)

end

end
