(* ===== verification/Kernel.thy ===== *)
theory Kernel
  imports World_Invariants
begin

text \<open>
  A second executable instance of the parameter \<open>os\<close>: one host of a network, with sockets bound
  to ports, a queue of arrived datagrams for each port, the option for broadcasts and the limit
  on the size of a datagram. Nothing of the program is modelled here; the theory \<open>Network\<close> runs
  the program on it. What the instance keeps is an interpretation of the contract \<open>kept_world\<close>.
\<close>

section \<open>The kernel of a host\<close>

text \<open>
  \<open>sent\<close> are the datagrams that left the host. A blocking receive on an empty queue would wait; it
  sets \<open>stalled\<close>, and the network takes no step that stalls.
\<close>

record kernel =
  bound :: "(int \<times> uint16) list"
  queues :: "uint16 \<Rightarrow> string list"
  sent :: "(string \<times> IpAddress \<times> uint16) list"
  new_fd :: nat
  nonblocking :: "int \<Rightarrow> bool"
  broadcasting :: "int \<Rightarrow> bool"
  kernel_errno :: int
  stalled :: bool

definition boot_kernel :: kernel where
  "boot_kernel = \<lparr>bound = [], queues = (\<lambda>_. []), sent = [], new_fd = 3, nonblocking = (\<lambda>_. False),
     broadcasting = (\<lambda>_. False), kernel_errno = 0, stalled = False\<rparr>"

definition kernel_bind :: "int \<Rightarrow> uint16 \<Rightarrow> kernel \<Rightarrow> int \<times> kernel" where
  "kernel_bind fd port w =
     (if port \<in> snd ` set (bound w) then (-1, w\<lparr>kernel_errno := 98\<rparr>)
      else (0, w\<lparr>bound := (fd, port) # bound w, queues := (queues w)(port := [])\<rparr>))"

definition kernel_send :: "int \<Rightarrow> string \<Rightarrow> IpAddress \<Rightarrow> uint16 \<Rightarrow> kernel \<Rightarrow> int \<times> kernel" where
  "kernel_send fd m dest port w =
     (if 65507 < length m then (-1, w\<lparr>kernel_errno := 90\<rparr>)
      else if dest = BROADCAST_IP \<and> \<not> broadcasting w fd then (-1, w\<lparr>kernel_errno := 13\<rparr>)
      else (int (length m), w\<lparr>sent := sent w @ [(m, dest, port)]\<rparr>))"

definition kernel_receive :: "int \<Rightarrow> nat \<Rightarrow> kernel \<Rightarrow> (int \<times> string \<times> IpAddress) \<times> kernel" where
  "kernel_receive fd n w =
     (case map_of (bound w) fd of
        None \<Rightarrow> ((-1, [], []), w\<lparr>kernel_errno := 107\<rparr>)
      | Some port \<Rightarrow>
          (case queues w port of
             [] \<Rightarrow> if nonblocking w fd then ((-1, [], []), w\<lparr>kernel_errno := 11\<rparr>)
                   else ((-1, [], []), w\<lparr>kernel_errno := 4, stalled := True\<rparr>)
           | m # ms \<Rightarrow> ((int (length (take n m)), take n m, [0, 0, 0, 0]),
               w\<lparr>queues := (queues w)(port := ms)\<rparr>)))"

definition kernel_os :: "NodeAddresses \<Rightarrow> kernel os" where
  "kernel_os self =
     \<lparr>strerror = (\<lambda>_. ''error''), errno = kernel_errno, EWOULDBLOCK = 11, EAGAIN = 11,
      O_NONBLOCK = 2048, AF_INET = 2,
      sys_socket = (\<lambda>_ w. (int (new_fd w), w\<lparr>new_fd := Suc (new_fd w)\<rparr>)),
      sys_close = (\<lambda>fd w. w\<lparr>bound := filter (\<lambda>b. fst b \<noteq> fd) (bound w)\<rparr>),
      sys_bind = (\<lambda>fd a port w. kernel_bind fd port w),
      sys_sendto = kernel_send,
      sys_broadcast = (\<lambda>fd b w. (0, w\<lparr>broadcasting := (broadcasting w)(fd := b)\<rparr>)),
      sys_getfl = (\<lambda>fd w. (if nonblocking w fd then 2050 else 2, w)),
      sys_setfl = (\<lambda>fd f w. (0, w\<lparr>nonblocking := (nonblocking w)(fd := 2048 \<le> f)\<rparr>)),
      sys_recvfrom = kernel_receive,
      sys_clock = (\<lambda>w. ((1, 2000), w)),
      sys_nanosleep = (\<lambda>s ns w. w),
      sys_gethostname = (\<lambda>w. ((0, hostname self @ [CHR 0x00]), w)),
      sys_getaddrinfo = (\<lambda>h w. ((0, [\<lparr>ai_family = 2, sa_data = [0, 0] @ ip self\<rparr>]), w)),
      sys_getifaddrs = (\<lambda>w. ((0, [''lo'', ''eth0'']), w)),
      sys_ifaddr = (\<lambda>fd n w. ((0, if n = ''lo'' then [127, 0, 0, 1] else ip self), w)),
      sys_hwaddr = (\<lambda>fd n w. ((0, mac self), w))\<rparr>"

lemma kernel_os_sel [simp]:
  "errno (kernel_os self) = kernel_errno" "EWOULDBLOCK (kernel_os self) = 11"
  "EAGAIN (kernel_os self) = 11" "O_NONBLOCK (kernel_os self) = 2048" "AF_INET (kernel_os self) = 2"
  "sys_socket (kernel_os self) pr w = (int (new_fd w), w\<lparr>new_fd := Suc (new_fd w)\<rparr>)"
  "sys_close (kernel_os self) fd w = w\<lparr>bound := filter (\<lambda>b. fst b \<noteq> fd) (bound w)\<rparr>"
  "sys_bind (kernel_os self) fd a port w = kernel_bind fd port w"
  "sys_sendto (kernel_os self) fd m a port w = kernel_send fd m a port w"
  "sys_broadcast (kernel_os self) fd b w = (0, w\<lparr>broadcasting := (broadcasting w)(fd := b)\<rparr>)"
  "sys_getfl (kernel_os self) fd w = (if nonblocking w fd then 2050 else 2, w)"
  "sys_setfl (kernel_os self) fd f w = (0, w\<lparr>nonblocking := (nonblocking w)(fd := 2048 \<le> f)\<rparr>)"
  "sys_recvfrom (kernel_os self) fd n w = kernel_receive fd n w"
  "sys_clock (kernel_os self) w = ((1, 2000), w)" "sys_nanosleep (kernel_os self) sec nsec w = w"
  "sys_gethostname (kernel_os self) w = ((0, hostname self @ [CHR 0x00]), w)"
  "sys_getaddrinfo (kernel_os self) h w = ((0, [\<lparr>ai_family = 2, sa_data = [0, 0] @ ip self\<rparr>]), w)"
  "sys_getifaddrs (kernel_os self) w = ((0, [''lo'', ''eth0'']), w)"
  "sys_ifaddr (kernel_os self) fd nm w = ((0, if nm = ''lo'' then [127, 0, 0, 1] else ip self), w)"
  "sys_hwaddr (kernel_os self) fd nm w = ((0, mac self), w)"
  by (simp_all add: kernel_os_def)

lemma load_host_kernel:
  assumes "loadable self"
  shows "load_host (kernel_os self) p =
    (Inr self, p\<lparr>world := (world p)\<lparr>new_fd := Suc (Suc (new_fd (world p)))\<rparr>\<rparr>)"
proof -
  have "takeWhile (\<lambda>c. c \<noteq> CHR 0x00) (hostname self @ [CHR 0x00]) = hostname self"
    using assms by (intro takeWhile_prefix) (auto simp: loadable_def)
  then have "takeWhile (\<lambda>c. c \<noteq> CHR 0x00) (hostname self @ [CHR 0x00]) = hostname self"
    "take 4 (ip self) = ip self" "take 6 (mac self) = mac self" "[127, 0, 0, 1] \<noteq> ip self"
    using assms by (auto simp: loadable_def is_mac_def is_ip_def)
  then show ?thesis
    by (simp add: load_host_def load_hostname_def load_ip_def load_mac_def andthen_assoc
        andthen_sys NodeAddresses_new_def prog_simps)
qed

section \<open>What a host keeps to\<close>

text \<open>
  \<open>ok\<close> holds of all that was sent, \<open>comes port\<close> of all that waits for a port, and the descriptors
  in \<open>B\<close> are bound as \<open>B\<close> says.
\<close>

definition kernel_inv :: "NodeAddresses \<Rightarrow> (string \<Rightarrow> IpAddress \<Rightarrow> uint16 \<Rightarrow> bool) \<Rightarrow>
    (uint16 \<Rightarrow> string \<Rightarrow> bool) \<Rightarrow> (int \<times> uint16) set \<Rightarrow> kernel \<Rightarrow> bool" where
  "kernel_inv self ok comes B w \<longleftrightarrow> loadable self
     \<and> (\<forall>m dest port. (m, dest, port) \<in> set (sent w) \<longrightarrow> ok m dest port \<and> length m \<le> 65507)
     \<and> (\<forall>port. \<forall>m \<in> set (queues w port). comes port m \<and> length m \<le> 65507)
     \<and> (\<forall>(fd, port) \<in> B. map_of (bound w) fd = Some port)
     \<and> (\<forall>(fd, port) \<in> set (bound w). fd < int (new_fd w))"

definition kernel_arrives :: "(uint16 \<Rightarrow> string \<Rightarrow> bool) \<Rightarrow> (int \<times> uint16) set \<Rightarrow> int \<Rightarrow> string \<Rightarrow> bool" where
  "kernel_arrives comes B fd m \<longleftrightarrow> (\<forall>port. (fd, port) \<in> B \<longrightarrow> comes port m)"

lemma map_of_filter_other: "fd \<noteq> fd' \<Longrightarrow> map_of (filter (\<lambda>b. fst b \<noteq> fd') bs) fd = map_of bs fd"
  by (induction bs) auto

lemma kernel_inv_fresh:
  "kernel_inv self ok comes B w \<Longrightarrow> (fd, port) \<in> B \<Longrightarrow> fd < int (new_fd w)"
  by (auto simp: kernel_inv_def dest!: map_of_SomeD)

lemma kernel_waiting:
  "kernel_inv self ok comes B w \<Longrightarrow> m \<in> set (queues w port) \<Longrightarrow> comes port m \<and> length m \<le> 65507"
  by (auto simp: kernel_inv_def)

lemma kernel_loads: "gives (kernel_inv self ok comes B) (load_host (kernel_os self)) (\<lambda>a. a = self)"
  unfolding gives_def
proof (intro allI impI)
  fix p :: "kernel process"
  assume "kernel_inv self ok comes B (world p)"
  then show "kernel_inv self ok comes B (world (snd (load_host (kernel_os self) p)))
    \<and> (\<forall>x. fst (load_host (kernel_os self) p) = Inr x \<longrightarrow> x = self)"
    by (fastforce simp: kernel_inv_def load_host_kernel)
qed

interpretation kernel: kept_world "kernel_os self" "kernel_inv self ok comes B" self ok "kernel_arrives comes B"
  for self :: NodeAddresses and ok :: "string \<Rightarrow> IpAddress \<Rightarrow> uint16 \<Rightarrow> bool"
    and comes :: "uint16 \<Rightarrow> string \<Rightarrow> bool" and B :: "(int \<times> uint16) set"
proof
  show "gives (kernel_inv self ok comes B) (load_host (kernel_os self)) (\<lambda>a. a = self)"
    by (rule kernel_loads)
next
  fix w w' :: kernel and pr a port fd b f s ns n res data src m dest
  assume I: "kernel_inv self ok comes B w"
  show "kernel_inv self ok comes B (snd (sys_socket (kernel_os self) pr w))"
    using I by (fastforce simp: kernel_inv_def)
  show "kernel_inv self ok comes B (sys_close (kernel_os self) (fst (sys_socket (kernel_os self) pr w)) w')"
    if "kernel_inv self ok comes B w'"
    using that kernel_inv_fresh [OF I] by (fastforce simp: kernel_inv_def map_of_filter_other)
  show "kernel_inv self ok comes B (snd (sys_bind (kernel_os self) (fst (sys_socket (kernel_os self) pr w))
      a port (snd (sys_socket (kernel_os self) pr w))))"
  proof -
    have "fd \<noteq> int (new_fd w)" if "(fd, port) \<in> B" for fd port
      using kernel_inv_fresh [OF I that] by simp
    then have "\<forall>(fd, port) \<in> B. map_of ((int (new_fd w), pt) # bound w) fd = Some port" for pt
      using I by (auto simp: kernel_inv_def)
    moreover have "\<forall>(fd, port) \<in> set (bound w). fd < 1 + int (new_fd w)"
      using I by (auto simp: kernel_inv_def)
    ultimately show ?thesis
      using I by (simp add: kernel_inv_def kernel_bind_def)
  qed
  show "kernel_inv self ok comes B (snd (sys_sendto (kernel_os self) fd m dest port w))"
    if "ok m dest port"
    using I that by (auto simp: kernel_inv_def kernel_send_def)
  show "kernel_inv self ok comes B (snd (sys_broadcast (kernel_os self) fd b w))"
    "kernel_inv self ok comes B (snd (sys_getfl (kernel_os self) fd w))"
    "kernel_inv self ok comes B (snd (sys_setfl (kernel_os self) fd f w))"
    "kernel_inv self ok comes B (snd (sys_clock (kernel_os self) w))"
    "kernel_inv self ok comes B (sys_nanosleep (kernel_os self) s ns w)"
    using I by (simp_all add: kernel_inv_def)
  show "kernel_inv self ok comes B (snd (sys_recvfrom (kernel_os self) fd n w))"
  proof -
    have "comes p m \<and> length m \<le> 65507" if "queues w p = x # ms" "m \<in> set ms" for p x ms m
      using kernel_waiting [OF I, of m p] that by simp
    then show ?thesis
      using I by (auto simp: kernel_inv_def kernel_receive_def split: option.splits list.splits)
  qed
  show "kernel_arrives comes B fd (message_buffer (nat res) data)"
    if call: "fst (sys_recvfrom (kernel_os self) fd STR_BUF_SIZE w) = (res, data, src)" and res: "0 \<le> res"
    unfolding kernel_arrives_def
  proof (intro allI impI)
    fix pt assume pt: "(fd, pt) \<in> B"
    then have b: "map_of (bound w) fd = Some pt" using I by (auto simp: kernel_inv_def)
    obtain m ms where q: "queues w pt = m # ms" "res = int (length (take STR_BUF_SIZE m))"
      "data = take STR_BUF_SIZE m"
      using call res b by (auto simp: kernel_receive_def split: list.splits if_splits)
    have m: "comes pt m" "length m \<le> 65507" using kernel_waiting [OF I, of m pt] q(1) by simp_all
    then have "take STR_BUF_SIZE m = m" "length m \<le> STR_BUF_SIZE" by (simp_all add: STR_BUF_SIZE_def)
    then show "comes pt (message_buffer (nat res) data)" using m(1) by (simp add: q(2,3))
  qed
qed

end
