(* ===== verification/Participant_Steps.thy ===== *)
theory Participant_Steps
  imports Participant
begin

text \<open>
  The participant with all its threads (\<open>participant.cpp\<close>): the main thread, the thread that reads
  the input, the listener for wake-up packets and the handler of \<open>SIGINT\<close>, in any interleaving,
  on any operating system. The theory \<open>Participant\<close> runs them one after the other.
\<close>

section \<open>States\<close>

text \<open>
  Where the main thread stands: before its socket, before the discovery request, waiting for the
  response to a request, with a response, with the manager's addresses, in its loop, after it,
  and at its end. The numbers are the descriptors of the client and of the receiver socket.
\<close>

datatype exchange = Joining | Leaving NodeAddresses

datatype main_pc =
    MBegin
  | MConnect int
  | MAwait exchange int client_request int Packet
  | MAnswered exchange int int Packet
  | MConnected int NodeAddresses
  | MLoop int NodeAddresses
  | MLeave int NodeAddresses
  | MDone int

datatype input_pc = INotStarted | IReading | IEnding | IGone

datatype wol_pc = WNotStarted | WBegin | WListening int

datatype handler_pc = HIdle | HBegin | HAwait client_request int Packet | HDone

datatype participant_thread = MainThread | InputThread | WolThread

text \<open>
  \<open>manager_ip\<close> is the global variable, \<open>handles\<close> says whether the signal handler is installed;
  a handler runs on top of the thread the signal interrupts, which waits for it. \<open>typed\<close> keeps
  the lines that were read, for the statements.
\<close>

record 'w participant =
  os_state :: "'w process"
  main_at :: main_pc
  input_at :: input_pc
  wol_at :: wol_pc
  handler_at :: "participant_thread \<Rightarrow> handler_pc"
  manager_ip :: IpAddress
  handles :: bool
  channel :: "ParticipantMsg Mpsc"
  stdin :: "string list"
  typed :: "string list"
  cerr :: string
  ended :: process_state

definition participant_start :: "string list \<Rightarrow> 'w process \<Rightarrow> 'w participant" where
  "participant_start input p =
     \<lparr>os_state = p, main_at = MBegin, input_at = INotStarted, wol_at = WNotStarted,
      handler_at = (\<lambda>_. HIdle), manager_ip = [0, 0, 0, 0], handles = False,
      channel = Channel_open, stdin = input, typed = [], cerr = [], ended = Running\<rparr>"

section \<open>The calls of the threads\<close>

text \<open>The requests and the receiver sockets of the two exchanges.\<close>

definition discovery_request :: "'w os \<Rightarrow> int \<Rightarrow> ('w, main_pc) io" where
  "discovery_request E client_socket =
     andthen (client_enable_broadcast E client_socket True) (\<lambda>_.
     let packet_body = PacketBody_new\<lparr>packet_type := DISCOVERY\<rparr> in
     andthen (client_request_op E packet_body [255, 255, 255, 255] DISCOVERY_MANAGER_PORT) (\<lambda>request.
     andthen (UdpReceiverSocket_new E DISCOVERY_PARTICIPANT_PORT) (\<lambda>receiver.
     ret (MAwait Joining client_socket request receiver Packet_new))))"

definition exit_request :: "'w os \<Rightarrow> IpAddress \<Rightarrow> (client_request \<Rightarrow> int \<Rightarrow> 'a) \<Rightarrow> ('w, 'a) io" where
  "exit_request E dest next_pc =
     (let packet_body = PacketBody_new\<lparr>packet_type := EXIT\<rparr> in
     andthen (client_request_op E packet_body dest EXIT_PORT) (\<lambda>request.
     andthen (UdpReceiverSocket_new E EXIT_PORT) (\<lambda>receiver. ret (next_pc request receiver))))"

text \<open>
  What the main thread does next, where it calls the operating system. One round of a response
  loop is one step.
\<close>

fun main_io :: "'w os \<Rightarrow> main_pc \<Rightarrow> ('w, main_pc) io option" where
  "main_io E MBegin = Some (andthen (ClientSocket_new E) (\<lambda>client_socket. ret (MConnect client_socket)))"
| "main_io E (MConnect client_socket) = Some (discovery_request E client_socket)"
| "main_io E (MAwait x client_socket request receiver packet) =
     Some (andthen (response_round E request DEFAULT_TRY_US receiver packet) (\<lambda>(done, packet').
       ret (if done then MAnswered x client_socket receiver packet'
            else MAwait x client_socket request receiver packet')))"
| "main_io E (MAnswered Joining client_socket receiver response) =
     Some (andthen (modify (UdpReceiverSocket_delete E receiver)) (\<lambda>_.
       andthen (client_enable_broadcast E client_socket False) (\<lambda>_.
       ret (MConnected client_socket (sender_addresses (header response))))))"
| "main_io E (MLeave client_socket manager_addresses) =
     Some (exit_request E (ip manager_addresses) (\<lambda>request receiver.
       MAwait (Leaving manager_addresses) client_socket request receiver Packet_new))"
| "main_io E (MAnswered (Leaving _) client_socket receiver response) =
     Some (andthen (modify (UdpReceiverSocket_delete E receiver)) (\<lambda>_. ret (MDone client_socket)))"
| "main_io E _ = None"

fun wol_io :: "'w os \<Rightarrow> wol_pc \<Rightarrow> ('w, wol_pc) io option" where
  "wol_io E WBegin =
     Some (andthen (ServerSocket_new E WOL_PARTICIPANT_PORT) (\<lambda>socket.
       andthen (server_enable_broadcast E socket True) (\<lambda>_. ret (WListening socket))))"
| "wol_io E (WListening socket) =
     Some (andthen (handle_wol E socket [255, 255, 255, 255] WOL_PARTICIPANT_PORT) (\<lambda>_.
       ret (WListening socket)))"
| "wol_io E WNotStarted = None"

fun handler_io :: "'w os \<Rightarrow> IpAddress \<Rightarrow> handler_pc \<Rightarrow> ('w, handler_pc) io option" where
  "handler_io E addr HBegin =
     Some (andthen (ClientSocket_new E) (\<lambda>_.
       exit_request E addr (\<lambda>request receiver. HAwait request receiver Packet_new)))"
| "handler_io E addr (HAwait request receiver packet) =
     Some (andthen (response_round E request DEFAULT_TRY_US receiver packet) (\<lambda>(done, packet').
       if done then andthen (modify (UdpReceiverSocket_delete E receiver)) (\<lambda>_. ret HDone)
       else ret (HAwait request receiver packet')))"
| "handler_io E addr _ = None"

section \<open>Steps\<close>

text \<open>A thread runs while the process does and no handler is on top of it.\<close>

definition runs :: "'w participant \<Rightarrow> participant_thread \<Rightarrow> bool" where
  "runs s t \<longleftrightarrow> ended s = Running \<and> handler_at s t = HIdle"

fun started :: "'w participant \<Rightarrow> participant_thread \<Rightarrow> bool" where
  "started s MainThread = True"
| "started s InputThread = (input_at s = IReading \<or> input_at s = IEnding)"
| "started s WolThread = (wol_at s \<noteq> WNotStarted)"

inductive participant_step :: "'w os \<Rightarrow> 'w participant \<Rightarrow> 'w participant \<Rightarrow> bool" for E where
  main_calls: "participant_step E s (s\<lparr>main_at := pc, os_state := p,
      wol_at := (if main_at s = MBegin then WBegin else wol_at s)\<rparr>)"
    if "runs s MainThread" and "main_io E (main_at s) = Some c" and "c (os_state s) = (Inr pc, p)"
| main_throws: "participant_step E s (s\<lparr>os_state := p, ended := Terminated e\<rparr>)"
    if "runs s MainThread" and "main_io E (main_at s) = Some c" and "c (os_state s) = (Inl e, p)"
| main_connected: "participant_step E s (s\<lparr>main_at := MLoop fd a,
      cerr := cerr s @ ''Connected to '' @ render_ip_address (ip a) @ newline,
      manager_ip := ip a, handles := True, channel := participant_channel, input_at := IReading\<rparr>)"
    if "runs s MainThread" and "main_at s = MConnected fd a"
| main_takes_exit: "participant_step E s (s\<lparr>main_at := MLeave fd a, channel := c\<rparr>)"
    if "runs s MainThread" and "main_at s = MLoop fd a"
      and "receive (channel s) = (Received PARTICIPANT_EXIT, c)"
| main_ignores: "participant_step E s (s\<lparr>channel := c\<rparr>)"
    if "runs s MainThread" and "main_at s = MLoop fd a"
      and "receive (channel s) = (Received PARTICIPANT_WAKEUP, c)"
| main_disconnected: "participant_step E s (s\<lparr>main_at := MLeave fd a, channel := c\<rparr>)"
    if "runs s MainThread" and "main_at s = MLoop fd a" and "receive (channel s) = (NoProducer, c)"
| main_front_of_empty: "participant_step E s
      (s\<lparr>channel := c, ended := Terminated (Undefined ''front of an empty queue'')\<rparr>)"
    if "runs s MainThread" and "main_at s = MLoop fd a" and "receive (channel s) = (FrontOfEmpty, c)"
| main_returns: "participant_step E s
      (s\<lparr>os_state := UdpSenderSocket_delete E fd (os_state s), ended := Exited 0\<rparr>)"
    if "runs s MainThread" and "main_at s = MDone fd"
| input_line: "participant_step E s (s\<lparr>channel := c, cerr := t, stdin := rest,
      typed := typed s @ [l], input_at := (if is_exit l then IEnding else IReading)\<rparr>)"
    if "runs s InputThread" and "input_at s = IReading" and "stdin s = l # rest"
      and "participant_input [l] (channel s) (cerr s) = (c, t)"
| input_end: "participant_step E s (s\<lparr>input_at := IEnding\<rparr>)"
    if "runs s InputThread" and "input_at s = IReading" and "stdin s = []"
| input_leaves: "participant_step E s (s\<lparr>channel := Sender_drop (Sender_drop (channel s)), input_at := IGone\<rparr>)"
    if "runs s InputThread" and "input_at s = IEnding"
| wol_calls: "participant_step E s (s\<lparr>wol_at := pc, os_state := p\<rparr>)"
    if "runs s WolThread" and "wol_io E (wol_at s) = Some c" and "c (os_state s) = (Inr pc, p)"
| wol_throws: "participant_step E s (s\<lparr>os_state := p, ended := Terminated e\<rparr>)"
    if "runs s WolThread" and "wol_io E (wol_at s) = Some c" and "c (os_state s) = (Inl e, p)"
| killed: "participant_step E s (s\<lparr>ended := Killed\<rparr>)"
    if "ended s = Running" and "\<not> handles s"
| interrupted: "participant_step E s (s\<lparr>handler_at := (handler_at s)(t := HBegin)\<rparr>)"
    if "runs s t" and "handles s" and "started s t"
| handler_calls: "participant_step E s (s\<lparr>handler_at := (handler_at s)(t := pc), os_state := p\<rparr>)"
    if "ended s = Running" and "handler_io E (manager_ip s) (handler_at s t) = Some c"
      and "c (os_state s) = (Inr pc, p)"
| handler_throws: "participant_step E s (s\<lparr>os_state := p, ended := Terminated e\<rparr>)"
    if "ended s = Running" and "handler_io E (manager_ip s) (handler_at s t) = Some c"
      and "c (os_state s) = (Inl e, p)"
| handler_exits: "participant_step E s (s\<lparr>ended := Exited 130\<rparr>)"
    if "ended s = Running" and "handler_at s t = HDone"

text \<open>Between two steps the outside world can change in any way.\<close>

definition with_world :: "'w \<Rightarrow> 'w participant \<Rightarrow> 'w participant" where
  "with_world w s = s\<lparr>os_state := (os_state s)\<lparr>world := w\<rparr>\<rparr>"

inductive participant_reachable ::
    "'w os \<Rightarrow> string list \<Rightarrow> 'w process \<Rightarrow> 'w participant \<Rightarrow> bool" for E input p where
  participant_starts: "participant_reachable E input p (participant_start input p)"
| participant_steps: "participant_reachable E input p s \<Longrightarrow> participant_step E s s' \<Longrightarrow>
    participant_reachable E input p s'"
| participant_surroundings: "participant_reachable E input p s \<Longrightarrow>
    participant_reachable E input p (with_world w s)"

inductive_cases participant_stepE: "participant_step E s s'"

section \<open>The invariant\<close>

text \<open>Whether the main thread has its channel, and whether it has left its loop.\<close>

fun in_loop :: "main_pc \<Rightarrow> bool" where
  "in_loop (MLoop _ _) = True"
| "in_loop _ = False"

fun leaving :: "main_pc \<Rightarrow> bool" where
  "leaving (MLeave _ _) = True"
| "leaving (MAwait x _ _ _ _) = (x \<noteq> Joining)"
| "leaving (MAnswered x _ _ _) = (x \<noteq> Joining)"
| "leaving (MDone _) = True"
| "leaving _ = False"

text \<open>Where a call that succeeds takes the main thread.\<close>

inductive main_next :: "main_pc \<Rightarrow> main_pc \<Rightarrow> bool" where
  "main_next MBegin (MConnect fd)"
| "main_next (MConnect fd) (MAwait Joining fd req receiver Packet_new)"
| "main_next (MAwait x fd req receiver packet) (MAwait x fd req receiver packet')"
| "main_next (MAwait x fd req receiver packet) (MAnswered x fd receiver packet')"
    if "accepted packet'"
| "main_next (MAnswered Joining fd receiver packet) (MConnected fd (sender_addresses (header packet)))"
| "main_next (MLeave fd a) (MAwait (Leaving a) fd req receiver Packet_new)"
    if "dest_ip_address req = ip a" and "dest_port req = EXIT_PORT"
| "main_next (MAnswered (Leaving a) fd receiver packet) (MDone fd)"

lemma client_request_dest:
  "client_request_op E b dest port p = (Inr req, q) \<Longrightarrow> dest_ip_address req = dest \<and> dest_port req = port"
  by (auto simp: client_request_op_def andthen_result_Inr ret_def Let_def)

lemma exit_request_result:
  "exit_request E dest f p = (Inr x, q) \<Longrightarrow>
    \<exists>req receiver. x = f req receiver \<and> dest_ip_address req = dest \<and> dest_port req = EXIT_PORT"
  by (auto simp: exit_request_def andthen_result_Inr ret_def Let_def dest!: client_request_dest)

lemma discovery_request_result:
  "discovery_request E fd p = (Inr x, q) \<Longrightarrow> \<exists>req receiver. x = MAwait Joining fd req receiver Packet_new"
  by (auto simp: discovery_request_def andthen_result_Inr ret_def Let_def)

lemma main_io_next:
  "main_io E pc = Some c \<Longrightarrow> c p = (Inr pc', p') \<Longrightarrow> main_next pc pc'"
  by (cases "(E, pc)" rule: main_io.cases)
    (auto simp: andthen_result_Inr ret_def split: if_splits intro: main_next.intros
      dest!: exit_request_result discovery_request_result response_round_accepts)

lemma main_next_leaving:
  "main_next pc pc' \<Longrightarrow> leaving pc' = leaving pc \<and> \<not> in_loop pc \<and> \<not> in_loop pc'"
  by (cases rule: main_next.cases) auto

definition exit_typed :: "'w participant \<Rightarrow> bool" where
  "exit_typed s \<longleftrightarrow> (\<exists>line \<in> set (typed s). is_exit line)"

text \<open>
  From the moment the main thread has its channel, the channel is connected, with the handles of
  the main thread and, while the input thread lives, two more; the message to leave is in it
  only if the command was typed, and the main thread has left its loop only then.
\<close>

definition participant_inv :: "'w participant \<Rightarrow> bool" where
  "participant_inv s \<longleftrightarrow>
     (in_loop (main_at s) \<or> leaving (main_at s) \<longrightarrow>
        channel_steady (channel s) (if input_at s = IGone then 4 else 6)
        \<and> input_at s \<noteq> INotStarted)
     \<and> (\<not> in_loop (main_at s) \<and> \<not> leaving (main_at s) \<longrightarrow> input_at s = INotStarted)
     \<and> (PARTICIPANT_EXIT \<in> set (messages (channel s)) \<longrightarrow> exit_typed s)
     \<and> (leaving (main_at s) \<longrightarrow> exit_typed s)
     \<and> (ended s = Exited 0 \<longrightarrow> leaving (main_at s))"

lemma input_line_channel:
  assumes "participant_input [l] c t = (c', t')"
  shows "c' = (if is_exit l then snd (send PARTICIPANT_EXIT c) else c)"
  using assms by (auto simp: participant_input_eq)

lemma steady_no_producer:
  "channel_steady c n \<Longrightarrow> fst (receive c) \<noteq> NoProducer \<and> fst (receive c) \<noteq> FrontOfEmpty"
  by (auto simp: channel_steady_def chan_ok_def receive_def Let_def split: StateTag.splits list.splits)

lemma participant_inv_step:
  assumes "participant_step E s s'" and "participant_inv s"
  shows "participant_inv s'"
  using assms(1)
proof (cases rule: participant_step.cases)
  case (main_calls c pc p)
  then show ?thesis
    using assms(2) main_next_leaving [OF main_io_next [OF main_calls(3,4)]]
    by (auto simp: participant_inv_def exit_typed_def runs_def)
next
  case (main_connected fd a)
  then show ?thesis
    using assms(2) participant_channel_fields
    by (auto simp: participant_inv_def exit_typed_def runs_def channel_steady_def chan_ok_def)
next
  case (main_takes_exit fd a c)
  then show ?thesis
    using assms(2) steady_receive [OF _ main_takes_exit(4)]
    by (auto simp: participant_inv_def exit_typed_def runs_def)
next
  case (main_ignores fd a c)
  then show ?thesis
    using assms(2) steady_receive [OF _ main_ignores(4)]
    by (auto simp: participant_inv_def exit_typed_def runs_def)
next
  case (main_disconnected fd a c)
  then show ?thesis
    using assms(2) steady_no_producer [of "channel s"] by (auto simp: participant_inv_def)
next
  case (main_front_of_empty fd a c)
  then show ?thesis
    using assms(2) steady_no_producer [of "channel s"] by (auto simp: participant_inv_def)
next
  case (input_line l rest c t)
  then show ?thesis
    using assms(2) input_line_channel [OF input_line(5)] steady_send [of "channel s" _ PARTICIPANT_EXIT]
    by (auto simp: participant_inv_def exit_typed_def runs_def)
next
  case input_leaves
  then show ?thesis
    using assms(2) steady_drop [of "channel s" 5] steady_drop [of "Sender_drop (channel s)" 4]
    by (auto simp: participant_inv_def exit_typed_def runs_def numeral_eq_Suc)
qed (use assms(2) in \<open>auto simp: participant_inv_def exit_typed_def runs_def\<close>)

lemma participant_inv_reachable: "participant_reachable E input p s \<Longrightarrow> participant_inv s"
proof (induction rule: participant_reachable.induct)
  case participant_starts
  show ?case by (simp add: participant_inv_def participant_start_def Channel_open_def)
next
  case (participant_steps s s')
  then show ?case using participant_inv_step by blast
next
  case (participant_surroundings s w)
  then show ?case by (simp add: participant_inv_def with_world_def exit_typed_def)
qed

section \<open>Whom the good-byes go to\<close>

text \<open>The manager's addresses, as the main thread has them in its hands.\<close>

fun manager_known :: "main_pc \<Rightarrow> NodeAddresses option" where
  "manager_known (MConnected _ a) = Some a"
| "manager_known (MLoop _ a) = Some a"
| "manager_known (MLeave _ a) = Some a"
| "manager_known (MAwait x _ _ _ _) = (case x of Joining \<Rightarrow> None | Leaving a \<Rightarrow> Some a)"
| "manager_known (MAnswered x _ _ _) = (case x of Joining \<Rightarrow> None | Leaving a \<Rightarrow> Some a)"
| "manager_known _ = None"

fun goodbye_ok :: "IpAddress \<Rightarrow> main_pc \<Rightarrow> bool" where
  "goodbye_ok dest (MAwait x _ req _ _) =
     (x \<noteq> Joining \<longrightarrow> dest_ip_address req = dest \<and> dest_port req = EXIT_PORT)"
| "goodbye_ok dest (MAnswered _ _ _ packet) = accepted packet"
| "goodbye_ok dest _ = True"

fun handler_ok :: "IpAddress \<Rightarrow> handler_pc \<Rightarrow> bool" where
  "handler_ok dest (HAwait req _ _) = (dest_ip_address req = dest \<and> dest_port req = EXIT_PORT)"
| "handler_ok dest _ = True"

definition goodbye_inv :: "'w participant \<Rightarrow> bool" where
  "goodbye_inv s \<longleftrightarrow>
     (handles s \<longleftrightarrow> in_loop (main_at s) \<or> leaving (main_at s))
     \<and> (\<forall>a. manager_known (main_at s) = Some a \<longrightarrow> wf_addresses a \<and> (handles s \<longrightarrow> manager_ip s = ip a))
     \<and> (handles s \<longrightarrow> is_ip (manager_ip s))
     \<and> goodbye_ok (manager_ip s) (main_at s)
     \<and> (\<forall>t. handler_ok (manager_ip s) (handler_at s t))
     \<and> (\<forall>t. handler_at s t \<noteq> HIdle \<longrightarrow> handles s)
     \<and> (ended s = Exited 130 \<longrightarrow> handles s)"

lemma main_next_goodbye:
  assumes "main_next pc pc'" and "goodbye_ok dest pc"
    and "\<forall>a. manager_known pc = Some a \<longrightarrow> wf_addresses a \<and> (known \<longrightarrow> ip a = dest)"
    and "leaving pc \<longrightarrow> known" and "known \<longrightarrow> in_loop pc \<or> leaving pc"
  shows "goodbye_ok dest pc'
    \<and> (\<forall>a. manager_known pc' = Some a \<longrightarrow> wf_addresses a \<and> (known \<longrightarrow> ip a = dest))"
  using assms by (cases rule: main_next.cases) (auto simp: accepted_def typed_header_def split: exchange.splits)

lemma handler_io_ok:
  "handler_io E dest pc = Some c \<Longrightarrow> c p = (Inr pc', p') \<Longrightarrow> handler_ok dest pc \<Longrightarrow>
    handler_ok dest pc' \<and> pc \<noteq> HIdle"
  by (cases "(E, dest, pc)" rule: handler_io.cases)
    (auto simp: andthen_result_Inr ret_def split: if_splits dest!: exit_request_result)

lemma goodbye_inv_step:
  assumes "participant_step E s s'" and "goodbye_inv s"
  shows "goodbye_inv s'"
  using assms(1)
proof (cases rule: participant_step.cases)
  case (main_calls c pc p)
  note after = main_io_next [OF main_calls(3,4)]
  show ?thesis
    using assms(2) main_calls main_next_leaving [OF after]
      main_next_goodbye [OF after, of "manager_ip s" "handles s"]
    by (auto simp: goodbye_inv_def)
next
  case (main_connected fd a)
  then show ?thesis
    using assms(2) by (auto simp: goodbye_inv_def wf_addresses_def)
next
  case (handler_exits t)
  then show ?thesis
    using assms(2) handler_pc.distinct(5) [symmetric] by (fastforce simp: goodbye_inv_def)
next
  case (handler_calls t c pc p)
  then show ?thesis
    using assms(2) handler_io_ok [OF handler_calls(3,4)] by (auto simp: goodbye_inv_def)
qed (use assms(2) in \<open>auto simp: goodbye_inv_def\<close>)

lemma goodbye_inv_reachable: "participant_reachable E input p s \<Longrightarrow> goodbye_inv s"
proof (induction rule: participant_reachable.induct)
  case participant_starts
  show ?case by (simp add: goodbye_inv_def participant_start_def)
next
  case (participant_steps s s')
  then show ?case using goodbye_inv_step by blast
next
  case (participant_surroundings s w)
  then show ?case by (auto simp: goodbye_inv_def with_world_def)
qed

text \<open>The lines that were read are the first ones of the input.\<close>

lemma typed_reachable: "participant_reachable E input p s \<Longrightarrow> typed s @ stdin s = input"
proof (induction rule: participant_reachable.induct)
  case participant_starts
  show ?case by (simp add: participant_start_def)
next
  case (participant_steps s s')
  from participant_steps(2) show ?case
    by (cases rule: participant_step.cases) (use participant_steps.IH in auto)
qed (simp add: with_world_def)

end
