(* ===== verification/Participant_Runs.thy ===== *)
theory Participant_Runs
  imports Participant_Steps
begin

text \<open>
  The runs of the participant: one in which it ends, by running its threads one after the other; what
  holds in all of them about the exit and the good-byes.
\<close>

section \<open>A run to the end\<close>

text \<open>
  One schedule of the threads: the main thread until it is connected, the input thread to its end, and
  the main thread again. The result is what was written to \<open>cerr\<close>.
\<close>

definition threads_in_turn :: "'w os \<Rightarrow> string list \<Rightarrow> ('w, string) waiting_io" where
  "threads_in_turn E lines =
     then_wait (returns (ClientSocket_new E)) (\<lambda>client_socket.
     then_wait (connect_to_manager E client_socket) (\<lambda>manager_addresses.
     let cerr = ''Connected to '' @ render_ip_address (ip manager_addresses) @ newline;
         (channel, cerr') = participant_interface_main lines participant_channel cerr
     in case participant_loop (Sender_drop channel) of
          None \<Rightarrow> (\<lambda>p. None)
        | Some (Inl e) \<Rightarrow> returns (throw e)
        | Some (Inr _) \<Rightarrow>
            then_wait (disconnect_to_manager E (ip manager_addresses)) (\<lambda>_.
            returns (andthen (modify (UdpSenderSocket_delete E client_socket)) (\<lambda>_. ret cerr')))))"

text \<open>
  The threads one after the other: the steps of the main thread and of the input thread lead to
  where the functions of the theory \<open>Participant\<close> lead.
\<close>

lemma reach_step:
  "participant_reachable E input p s \<Longrightarrow> participant_step E s t \<Longrightarrow> t = s' \<Longrightarrow>
    participant_reachable E input p s'"
  using participant_steps by blast

text \<open>A call of the main thread after its first one.\<close>

lemma reach_main_call:
  assumes "participant_reachable E input p s" and "runs s MainThread" and "main_at s \<noteq> MBegin"
    and "main_io E (main_at s) = Some c" and "c (os_state s) = (Inr pc, q)"
  shows "participant_reachable E input p (s\<lparr>main_at := pc, os_state := q\<rparr>)"
  by (rule reach_step [OF assms(1) main_calls [OF assms(2,4,5)]]) (use assms(3) in \<open>cases s, simp\<close>)

lemma reach_response:
  assumes "receive_response_loop E req us fd pk p = Some r"
  shows "\<forall>pk' q s x c. us = DEFAULT_TRY_US \<and> r = (Inr pk', q) \<and> participant_reachable E input p0 s
    \<and> runs s MainThread \<and> main_at s = MAwait x c req fd pk \<and> os_state s = p \<longrightarrow>
    participant_reachable E input p0 (s\<lparr>main_at := MAnswered x c fd pk', os_state := q\<rparr>)"
proof (rule receive_response_loop.raw_induct [OF _ assms, where P =
      "\<lambda>E req us fd pk p r. \<forall>pk' q s x c. us = DEFAULT_TRY_US \<and> r = (Inr pk', q)
        \<and> participant_reachable E input p0 s
        \<and> runs s MainThread \<and> main_at s = MAwait x c req fd pk \<and> os_state s = p \<longrightarrow>
        participant_reachable E input p0 (s\<lparr>main_at := MAnswered x c fd pk', os_state := q\<rparr>)"],
    intro allI impI, elim conjE)
  fix loop E req us fd pk p r pk' q and s :: "'a participant" and x c
  assume ih: "\<And>E req us fd pk p r. loop E req us fd pk p = Some r \<Longrightarrow>
      \<forall>pk' q s x c. us = DEFAULT_TRY_US \<and> r = (Inr pk', q) \<and> participant_reachable E input p0 s
        \<and> runs s MainThread \<and> main_at s = MAwait x c req fd pk \<and> os_state s = p \<longrightarrow>
        participant_reachable E input p0 (s\<lparr>main_at := MAnswered x c fd pk', os_state := q\<rparr>)"
    and loop: "(case response_round E req us fd pk p of (Inl e, p') \<Rightarrow> Some (Inl e, p')
        | (Inr (done, packet), p') \<Rightarrow> if done then Some (Inr packet, p')
            else loop E req us fd packet p') = Some r"
    and r: "r = (Inr pk', q)" and s: "participant_reachable E input p0 s" "runs s MainThread"
      "main_at s = MAwait x c req fd pk" "os_state s = p" and us: "us = DEFAULT_TRY_US"
  obtain d pk1 p1 where round: "response_round E req us fd pk p = (Inr (d, pk1), p1)"
    using loop r by (auto split: prod.splits sum.splits)
  have step: "participant_reachable E input p0
      (s\<lparr>main_at := (if d then MAnswered x c fd pk1 else MAwait x c req fd pk1), os_state := p1\<rparr>)"
  proof (rule reach_main_call [OF s(1,2)])
    show "main_io E (main_at s) = Some (andthen (response_round E req DEFAULT_TRY_US fd pk)
        (\<lambda>(done, packet'). ret (if done then MAnswered x c fd packet' else MAwait x c req fd packet')))"
      by (simp add: s(3))
  qed (use s(3,4) round us in \<open>simp_all add: andthen_Inr ret_def\<close>)
  show "participant_reachable E input p0 (s\<lparr>main_at := MAnswered x c fd pk', os_state := q\<rparr>)"
  proof (cases d)
    case True
    then show ?thesis using step loop round r by simp
  next
    case False
    let ?s = "s\<lparr>main_at := MAwait x c req fd pk1, os_state := p1\<rparr>"
    have "loop E req us fd pk1 p1 = Some (Inr pk', q)" using False loop round r by simp
    from ih [OF this, rule_format, of pk' q ?s x c] show ?thesis
      using False step s(2) us by (simp add: runs_def)
  qed
qed

lemma reach_input:
  assumes "participant_input lines (channel s) (cerr s) = (c, t)"
    and "participant_reachable E input p s" and "runs s InputThread" and "input_at s = IReading"
    and "stdin s = lines"
  shows "\<exists>ty rest. participant_reachable E input p
    (s\<lparr>channel := c, cerr := t, stdin := rest, typed := ty, input_at := IEnding\<rparr>)"
  using assms
proof (induction lines arbitrary: s)
  case Nil
  have "participant_reachable E input p
      (s\<lparr>channel := c, cerr := t, stdin := stdin s, typed := typed s, input_at := IEnding\<rparr>)"
    by (rule reach_step [OF Nil(2) input_end [OF Nil(3,4,5)]]) (use Nil(1) in \<open>cases s, simp\<close>)
  then show ?case by blast
next
  case (Cons l lines)
  obtain c1 t1 where l: "participant_input [l] (channel s) (cerr s) = (c1, t1)" by fastforce
  let ?s = "s\<lparr>channel := c1, cerr := t1, stdin := lines, typed := typed s @ [l],
      input_at := (if is_exit l then IEnding else IReading)\<rparr>"
  have step: "participant_reachable E input p ?s"
    by (rule participant_steps [OF Cons.prems(2) input_line [OF Cons.prems(3,4) _ l]])
      (simp add: Cons.prems(5))
  show ?case
  proof (cases "is_exit l")
    case True
    then have "c1 = c \<and> t1 = t" using l Cons.prems(1) by (simp add: is_exit_def Let_def)
    then show ?thesis using step True by auto
  next
    case False
    then have "participant_input lines (channel ?s) (cerr ?s) = (c, t)"
      using l Cons.prems(1) by (simp add: is_exit_def Let_def)
    from Cons.IH [OF this step] show ?thesis
      using False Cons.prems(3) by (simp add: runs_def)
  qed
qed

lemma reach_loop:
  "participant_loop c = Some (Inr c') \<Longrightarrow> participant_reachable E input p s \<Longrightarrow> runs s MainThread \<Longrightarrow>
    main_at s = MLoop fd a \<Longrightarrow> channel s = c \<Longrightarrow>
    participant_reachable E input p (s\<lparr>main_at := MLeave fd a, channel := c'\<rparr>)"
proof (induction c arbitrary: s rule: participant_loop.induct)
  case (1 c)
  obtain m c1 where m: "receive c = (m, c1)" by fastforce
  show ?case
  proof (cases m)
    case (Received msg)
    show ?thesis
    proof (cases msg)
      case PARTICIPANT_EXIT
      then have "c1 = c'" using 1(2) m Received by (simp add: participant_loop.simps)
      then show ?thesis
        using participant_steps [OF 1(3) main_takes_exit [OF 1(4,5)]] m Received PARTICIPANT_EXIT 1(6)
        by simp
    next
      case PARTICIPANT_WAKEUP
      have "participant_reachable E input p (s\<lparr>channel := c1\<rparr>)"
        using participant_steps [OF 1(3) main_ignores [OF 1(4,5)]] m Received PARTICIPANT_WAKEUP 1(6)
        by simp
      moreover have "participant_loop c1 = Some (Inr c')"
        using 1(2) m Received PARTICIPANT_WAKEUP by (simp add: participant_loop.simps [of c])
      ultimately show ?thesis
        using 1(1) [of m c1 msg "s\<lparr>channel := c1\<rparr>"] m Received PARTICIPANT_WAKEUP 1(4,5)
        by (simp add: runs_def)
    qed
  next
    case NoProducer
    then have "c1 = c'" using 1(2) m by (simp add: participant_loop.simps)
    then show ?thesis
      using participant_steps [OF 1(3) main_disconnected [OF 1(4,5)]] m NoProducer 1(6) by simp
  qed (use 1(2) m in \<open>simp_all add: participant_loop.simps\<close>)
qed

lemma reach_exchange:
  assumes "receive_response E req port DEFAULT_TRY_US p = Some (Inr pk, q)"
    and "UdpReceiverSocket_new E port p = (Inr fd, p')"
    and "participant_reachable E input p0 s" and "runs s MainThread"
    and "main_at s = MAwait x c req fd Packet_new" and "os_state s = p'"
  shows "\<exists>q'. participant_reachable E input p0 (s\<lparr>main_at := MAnswered x c fd pk, os_state := q'\<rparr>)
    \<and> q = UdpReceiverSocket_delete E fd q'"
proof -
  obtain q' where loop: "receive_response_loop E req DEFAULT_TRY_US fd Packet_new p' = Some (Inr pk, q')"
    and q: "q = UdpReceiverSocket_delete E fd q'"
    using assms(1,2) by (auto simp: receive_response_def)
  show ?thesis using reach_response [OF loop, of input p0] assms(3-6) q by blast
qed

lemma receive_response_socket:
  "receive_response E req port us p = Some (Inr pk, q) \<Longrightarrow> \<exists>fd p'. UdpReceiverSocket_new E port p = (Inr fd, p')"
  by (auto simp: receive_response_def split: prod.splits sum.splits)

text \<open>A call of the main thread, given by the state it is in.\<close>

lemma reach_call:
  assumes "participant_reachable E input p s" and "runs s MainThread" and "main_at s = pc0"
    and "pc0 \<noteq> MBegin" and "main_io E pc0 \<noteq> None" and "the (main_io E pc0) (os_state s) = (Inr pc, q)"
  shows "participant_reachable E input p (s\<lparr>main_at := pc, os_state := q\<rparr>)"
  using reach_main_call [OF assms(1,2)] assms(3-6) by auto

lemma reach_connected:
  assumes "connect_to_manager E fd p = Some (Inr a, q)"
    and "participant_reachable E input p0 s" and "runs s MainThread"
    and "main_at s = MConnect fd" and "os_state s = p"
  shows "participant_reachable E input p0 (s\<lparr>main_at := MConnected fd a, os_state := q\<rparr>)"
proof -
  obtain p1 p2 p3 req pk where c: "client_enable_broadcast E fd True p = (Inr (), p1)"
    "client_request_op E (PacketBody_new\<lparr>packet_type := DISCOVERY\<rparr>) [255, 255, 255, 255]
      DISCOVERY_MANAGER_PORT p1 = (Inr req, p2)"
    "receive_response E req DISCOVERY_PARTICIPANT_PORT DEFAULT_TRY_US p2 = Some (Inr pk, p3)"
    "client_enable_broadcast E fd False p3 = (Inr (), q)" "a = sender_addresses (header pk)"
    using assms(1) by (auto simp: connect_to_manager_def then_wait_result returns_def ret_def)
  obtain r p2' where new: "UdpReceiverSocket_new E DISCOVERY_PARTICIPANT_PORT p2 = (Inr r, p2')"
    using receive_response_socket [OF c(3)] by blast
  let ?s1 = "s\<lparr>main_at := MAwait Joining fd req r Packet_new, os_state := p2'\<rparr>"
  have s1: "participant_reachable E input p0 ?s1"
    by (rule reach_call [OF assms(2-4)])
      (simp_all add: discovery_request_def andthen_def c(1,2) new ret_def assms(5))
  obtain q' where s2: "participant_reachable E input p0 (?s1\<lparr>main_at := MAnswered Joining fd r pk, os_state := q'\<rparr>)"
    and q': "p3 = UdpReceiverSocket_delete E r q'"
    using reach_exchange [OF c(3) new s1] assms(3) by (auto simp: runs_def)
  have "participant_reachable E input p0
      (s\<lparr>main_at := MAnswered Joining fd r pk, os_state := q'\<rparr>\<lparr>main_at := MConnected fd a, os_state := q\<rparr>)"
    by (rule reach_call [of E input p0 _ "MAnswered Joining fd r pk"])
      (use s2 assms(3) in \<open>simp_all add: runs_def andthen_def modify_def c(4) q' [symmetric] c(5) ret_def\<close>)
  then show ?thesis by simp
qed

lemma reach_done:
  assumes "disconnect_to_manager E (ip a) p = Some (Inr (), q)"
    and "participant_reachable E input p0 s" and "runs s MainThread"
    and "main_at s = MLeave fd a" and "os_state s = p"
  shows "participant_reachable E input p0 (s\<lparr>main_at := MDone fd, os_state := q\<rparr>)"
proof -
  obtain p2 req pk where c:
    "client_request_op E (PacketBody_new\<lparr>packet_type := EXIT\<rparr>) (ip a) EXIT_PORT p = (Inr req, p2)"
    "receive_response E req EXIT_PORT DEFAULT_TRY_US p2 = Some (Inr pk, q)"
    using assms(1) by (auto simp: disconnect_to_manager_def then_wait_result returns_def ret_def)
  obtain r p2' where new: "UdpReceiverSocket_new E EXIT_PORT p2 = (Inr r, p2')"
    using receive_response_socket [OF c(2)] by blast
  let ?s1 = "s\<lparr>main_at := MAwait (Leaving a) fd req r Packet_new, os_state := p2'\<rparr>"
  have s1: "participant_reachable E input p0 ?s1"
    by (rule reach_call [OF assms(2-4)])
      (simp_all add: exit_request_def andthen_def c(1) new ret_def assms(5))
  obtain q' where s2: "participant_reachable E input p0 (?s1\<lparr>main_at := MAnswered (Leaving a) fd r pk, os_state := q'\<rparr>)"
    and q': "q = UdpReceiverSocket_delete E r q'"
    using reach_exchange [OF c(2) new s1] assms(3) by (auto simp: runs_def)
  have "participant_reachable E input p0
      (s\<lparr>main_at := MAnswered (Leaving a) fd r pk, os_state := q'\<rparr>\<lparr>main_at := MDone fd, os_state := q\<rparr>)"
    by (rule reach_call [of E input p0 _ "MAnswered (Leaving a) fd r pk"])
      (use s2 assms(3) in \<open>simp_all add: runs_def q' ret_def\<close>)
  then show ?thesis by simp
qed

text \<open>The participant in its loop, when its connection has succeeded.\<close>

definition joined :: "string list \<Rightarrow> int \<Rightarrow> NodeAddresses \<Rightarrow> 'w process \<Rightarrow> 'w process \<Rightarrow> 'w participant" where
  "joined lines fd a p p2 = (participant_start lines p)\<lparr>main_at := MLoop fd a, os_state := p2,
     wol_at := WBegin, cerr := ''Connected to '' @ render_ip_address (ip a) @ newline,
     manager_ip := ip a, handles := True, channel := participant_channel, input_at := IReading\<rparr>"

lemma joined_reachable:
  assumes "ClientSocket_new E p = (Inr fd, p1)" and "connect_to_manager E fd p1 = Some (Inr a, p2)"
  shows "participant_reachable E lines p (joined lines fd a p p2)"
proof -
  let ?s0 = "participant_start lines p"
  let ?s1 = "?s0\<lparr>main_at := MConnect fd, os_state := p1, wol_at := WBegin\<rparr>"
  have s1: "participant_reachable E lines p ?s1"
    by (rule reach_step [OF participant_starts main_calls [where
          c = "andthen (ClientSocket_new E) (\<lambda>client_socket. ret (MConnect client_socket))"
          and pc = "MConnect fd" and p = p1]])
      (simp_all add: runs_def participant_start_def andthen_def assms(1) ret_def)
  have s2: "participant_reachable E lines p (?s1\<lparr>main_at := MConnected fd a, os_state := p2\<rparr>)" (is "participant_reachable _ _ _ ?s2")
    by (rule reach_connected [OF assms(2) s1]) (simp_all add: runs_def participant_start_def)
  show ?thesis
    by (rule reach_step [OF s2 main_connected])
      (simp_all add: runs_def participant_start_def joined_def)
qed

lemma threads_in_turn_reachable:
  assumes "threads_in_turn E lines p = Some (Inr t, q)"
  shows "\<exists>s. participant_reachable E lines p s \<and> ended s = Exited 0 \<and> cerr s = t \<and> os_state s = q"
proof -
  obtain fd p1 a p2 c t0 c' p3 where m: "ClientSocket_new E p = (Inr fd, p1)"
    "connect_to_manager E fd p1 = Some (Inr a, p2)"
    "participant_interface_main lines participant_channel
      (''Connected to '' @ render_ip_address (ip a) @ newline) = (c, t)"
    "participant_loop (Sender_drop c) = Some (Inr c')"
    "disconnect_to_manager E (ip a) p2 = Some (Inr (), p3)"
    "q = UdpSenderSocket_delete E fd p3"
  proof -
    obtain fd p1 a p2 where m: "ClientSocket_new E p = (Inr fd, p1)"
      "connect_to_manager E fd p1 = Some (Inr a, p2)"
      and rest: "(let cerr = ''Connected to '' @ render_ip_address (ip a) @ newline;
         (channel, cerr') = participant_interface_main lines participant_channel cerr
       in case participant_loop (Sender_drop channel) of
          None \<Rightarrow> (\<lambda>p. None)
        | Some (Inl e) \<Rightarrow> returns (throw e)
        | Some (Inr _) \<Rightarrow>
            then_wait (disconnect_to_manager E (ip a)) (\<lambda>_.
            returns (andthen (modify (UdpSenderSocket_delete E fd)) (\<lambda>_. ret cerr')))) p2 = Some (Inr t, q)"
      using assms by (auto simp only: threads_in_turn_def then_wait_result returns_def option.inject)
    obtain c t' where i: "participant_interface_main lines participant_channel
      (''Connected to '' @ render_ip_address (ip a) @ newline) = (c, t')" by fastforce
    obtain c' where l: "participant_loop (Sender_drop c) = Some (Inr c')"
      using rest unfolding Let_def i
      by (auto simp: returns_def throw_def split: option.splits sum.splits)
    obtain p3 where d: "disconnect_to_manager E (ip a) p2 = Some (Inr (), p3)"
      "q = UdpSenderSocket_delete E fd p3" "t' = t"
      using rest unfolding Let_def i by (auto simp: l then_wait_result returns_def ret_def)
    show ?thesis using that m i l d by blast
  qed
  obtain c0 where c0: "participant_input lines participant_channel
      (''Connected to '' @ render_ip_address (ip a) @ newline) = (c0, t)" "c = Sender_drop c0"
    using m(3) by (auto simp: participant_interface_main_def split: prod.splits)
  let ?s3 = "joined lines fd a p p2"
  have s3: "participant_reachable E lines p ?s3" by (rule joined_reachable [OF m(1,2)])
  obtain ty rest where s4: "participant_reachable E lines p
      (?s3\<lparr>channel := c0, cerr := t, stdin := rest, typed := ty, input_at := IEnding\<rparr>)" (is "participant_reachable _ _ _ ?s4")
    using reach_input [OF _ s3, of lines c0 t] c0(1) by (auto simp: runs_def joined_def participant_start_def)
  have s5: "participant_reachable E lines p
      (?s4\<lparr>channel := Sender_drop (Sender_drop (channel ?s4)), input_at := IGone\<rparr>)" (is "participant_reachable _ _ _ ?s5")
    by (rule participant_steps [OF s4 input_leaves]) (simp_all add: runs_def joined_def participant_start_def)
  have s6: "participant_reachable E lines p (?s5\<lparr>main_at := MLeave fd a, channel := c'\<rparr>)" (is "participant_reachable _ _ _ ?s6")
    by (rule reach_loop [OF m(4) s5]) (simp_all add: runs_def joined_def participant_start_def c0(2))
  have s7: "participant_reachable E lines p (?s6\<lparr>main_at := MDone fd, os_state := p3\<rparr>)" (is "participant_reachable _ _ _ ?s7")
    by (rule reach_done [OF m(5) s6]) (simp_all add: runs_def joined_def participant_start_def)
  have s8: "participant_reachable E lines p
      (?s7\<lparr>os_state := UdpSenderSocket_delete E fd (os_state ?s7), ended := Exited 0\<rparr>)" (is "participant_reachable _ _ _ ?s8")
    by (rule participant_steps [OF s7 main_returns]) (simp_all add: runs_def joined_def participant_start_def)
  show ?thesis
    by (rule exI [of _ ?s8]) (use s8 in \<open>simp_all add: m(6)\<close>)
qed

section \<open>A run\<close>

text \<open>A participant whose two requests are answered by packets of type \<open>DISCOVERY\<close>.\<close>

lemma answered_run:
  assumes "loadable self" and "sendable pk" and "packet_type (body pk) = DISCOVERY" and "is_exit line"
  shows "\<exists>t q. threads_in_turn (loopback self) [line]
    (net_with [packet_text pk, packet_text pk]) = Some (Inr t, q)"
proof -
  let ?p = "net_with [packet_text pk, packet_text pk]"
  let ?p1 = "?p\<lparr>world := (world ?p)\<lparr>next_fd := Suc (next_fd (world ?p))\<rparr>\<rparr>"
  have new: "ClientSocket_new (loopback self) ?p = (Inr (int (next_fd (world ?p))), ?p1)"
    by (simp add: ClientSocket_new_def UdpSenderSocket_new_def andthen_assoc andthen_sys ret_def)
  have inbox: "inbox (world ?p1) = packet_text pk # [packet_text pk]" and idle: "idle_flags ?p1"
    by (simp_all add: idle_flags_def)
  obtain a q where q: "connect_to_manager (loopback self) (int (next_fd (world ?p))) ?p1 = Some (Inr a, q)"
    "inbox (world q) = [packet_text pk]" "idle_flags q"
    using connect_loopback [OF assms(1) inbox assms(2) idle assms(3)] by blast
  obtain req q1 where r: "client_request_op (loopback self) (PacketBody_new\<lparr>packet_type := EXIT\<rparr>) (ip a)
      EXIT_PORT q = (Inr req, q1)" "inbox (world q1) = [packet_text pk]" "flags_of (world q1) = flags_of (world q)"
    using client_request_loopback [OF assms(1)] q(2) by fastforce
  then have "idle_flags q1" using q(3) by (simp add: idle_flags_def)
  then obtain x q2 where "receive_response (loopback self) req EXIT_PORT DEFAULT_TRY_US q1 = Some (Inr x, q2)"
    using receive_response_first [OF r(2) assms(2) _ assms(3)] by blast
  then have d: "disconnect_to_manager (loopback self) (ip a) q = Some (Inr (), q2)"
    by (simp add: disconnect_to_manager_def then_wait_def returns_def r(1) ret_def)
  obtain c where "participant_loop (Sender_drop (Sender_drop (snd (send PARTICIPANT_EXIT participant_channel)))) = Some (Inr c)"
    using loop_after_input(1) by blast
  then show ?thesis
    using assms(4)
    by (simp add: threads_in_turn_def then_wait_def returns_def new q(1) Let_def
        participant_interface_main_def participant_input_eq d ret_def)
qed

lemma exit_command: "is_exit ''exit''"
  by (simp add: is_exit_def trim_whitespace_def iswspace_def toupper_def char_of_def bit_0)

lemma host_b_loadable: "loadable host_b"
  by (simp add: loadable_def host_b_def is_mac_def is_ip_def)

definition answered_net :: "net process" where
  "answered_net = net_with (replicate 2 (packet_text (example_packet DISCOVERY)))"

lemma answered_example: "\<exists>t q. threads_in_turn (loopback host_b) [''exit''] answered_net = Some (Inr t, q)"
  using answered_run [OF host_b_loadable sendable_example [of DISCOVERY] _ exit_command]
  by (simp add: answered_net_def numeral_2_eq_2)

section \<open>Properties\<close>

text \<open>
  C14: The only way to a normal exit is the exit command: in every interleaving of the main
  thread, the input thread, the wake-up thread and signals, on every network, a participant
  exits with 0 only if a line of its input is the command. The end of the input does not end
  it: the input thread is gone then, but the main thread's own copies of the sender keep the
  channel connected.
\<close>

theorem participant_exits_by_command:
  assumes "participant_reachable E input p s" and "ended s = Exited 0"
  shows "\<exists>line \<in> set input. is_exit line"
proof -
  have "exit_typed s"
    using participant_inv_reachable [OF assms(1)] assms(2) by (simp add: participant_inv_def)
  then show ?thesis using typed_reachable [OF assms(1)] by (auto simp: exit_typed_def)
qed

theorem participant_exits_by_command_witness:
  "\<exists>line \<in> set [''exit'']. is_exit line"
proof -
  obtain s where "participant_reachable (loopback host_b) [''exit''] answered_net s" "ended s = Exited 0"
    using answered_example threads_in_turn_reachable by blast
  then show ?thesis by (rule participant_exits_by_command)
qed

text \<open>
  C15: The good-byes are addressed to the manager: in every reachable state, once the main thread
  is in its loop, the signal handler is installed and the global \<open>manager_ip\<close> is the 4-byte
  address from the discovery response; no handler runs and no process exits with 130 before;
  and every exit request, of the main thread or of a handler, goes to that address and the
  exit port.
\<close>

theorem goodbyes_addressed:
  assumes "participant_reachable E input p s"
  shows "(main_at s = MLoop fd a \<longrightarrow> handles s \<and> manager_ip s = ip a \<and> wf_addresses a)
    \<and> (handler_at s t \<noteq> HIdle \<or> ended s = Exited 130 \<longrightarrow> handles s \<and> is_ip (manager_ip s))
    \<and> (main_at s = MAwait (Leaving a) fd req r packet \<or> handler_at s t = HAwait req r packet \<longrightarrow>
        dest_ip_address req = manager_ip s \<and> dest_port req = EXIT_PORT)"
proof -
  have inv: "goodbye_inv s" by (rule goodbye_inv_reachable [OF assms])
  have "goodbye_ok (manager_ip s) (main_at s)" "handler_ok (manager_ip s) (handler_at s t)"
    using inv by (simp_all add: goodbye_inv_def)
  then have "main_at s = MAwait (Leaving a) fd req r packet \<or> handler_at s t = HAwait req r packet \<Longrightarrow>
      dest_ip_address req = manager_ip s \<and> dest_port req = EXIT_PORT" by auto
  moreover have "main_at s = MLoop fd a \<Longrightarrow> handles s \<and> manager_ip s = ip a \<and> wf_addresses a"
    using inv by (auto simp: goodbye_inv_def)
  moreover have "handler_at s t \<noteq> HIdle \<or> ended s = Exited 130 \<Longrightarrow> handles s \<and> is_ip (manager_ip s)"
    using inv by (auto simp: goodbye_inv_def)
  ultimately show ?thesis by blast
qed

theorem goodbyes_addressed_witness:
  "\<exists>s fd a. participant_reachable (loopback host_b) [] answered_net s \<and> main_at s = MLoop fd a
    \<and> manager_ip s = ip a \<and> is_ip (manager_ip s)"
proof -
  let ?p = "answered_net"
  let ?p1 = "?p\<lparr>world := (world ?p)\<lparr>next_fd := Suc (next_fd (world ?p))\<rparr>\<rparr>"
  let ?t = "packet_text (example_packet DISCOVERY)"
  have new: "ClientSocket_new (loopback host_b) ?p = (Inr (int (next_fd (world ?p))), ?p1)"
    by (simp add: ClientSocket_new_def UdpSenderSocket_new_def andthen_assoc andthen_sys ret_def)
  have inbox: "inbox (world ?p1) = ?t # [?t]" and idle: "idle_flags ?p1"
    by (simp_all add: answered_net_def idle_flags_def numeral_2_eq_2)
  obtain a q where q: "connect_to_manager (loopback host_b) (int (next_fd (world ?p))) ?p1 = Some (Inr a, q)"
    using connect_loopback [OF host_b_loadable inbox sendable_example idle, of "int (next_fd (world ?p))"]
    by fastforce
  have "participant_reachable (loopback host_b) [] ?p (joined [] (int (next_fd (world ?p))) a ?p q)"
    by (rule joined_reachable [OF new q])
  moreover from goodbyes_addressed [OF this, of "int (next_fd (world ?p))" a]
  have "manager_ip (joined [] (int (next_fd (world ?p))) a ?p q) = ip a" "is_ip (ip a)"
    by (auto simp: joined_def wf_addresses_def)
  ultimately show ?thesis by (force simp: joined_def)
qed

end
