(* ===== verification/Manager_Steps.thy ===== *)
theory Manager_Steps
  imports Participant
begin

text \<open>
  The manager with all its threads (\<open>manager.cpp\<close>): discovery threads insert, the monitoring
  thread removes, the input thread wakes up and ends the program, the interface thread renders,
  in any interleaving of their operations on the service and on the interface's channel. What
  arrives from the network is left open: any host may ask, any station may say good-bye. This is a
  specification, for the processes of the theory \<open>Manager_Process\<close>; its readers are not disturbed.
\<close>

section \<open>What an operation sends to the interface\<close>

definition refresh :: "ManagerIfaceMsg Mpsc \<Rightarrow> ManagementEvent \<Rightarrow> ManagerIfaceMsg Mpsc" where
  "refresh c event = snd (send MANAGER_IFACE_REFRESH c)"

text \<open>Before the interface has registered its handler, an operation sends nothing.\<close>

definition refreshes :: "(iface_service \<Rightarrow> bool \<times> iface_service) \<Rightarrow> bool" where
  "refreshes operation \<longleftrightarrow> (\<forall>s. event_handlers s = [] \<or> event_handlers s = [refresh] \<longrightarrow>
     event_handlers (snd (operation s)) = event_handlers s \<and>
     outside (snd (operation s)) =
       (if fst (operation s) \<and> event_handlers s = [refresh]
        then snd (send MANAGER_IFACE_REFRESH (outside s)) else outside s))"

lemmas refresh_defs = refreshes_def refresh_def dispatch_event_def on_remove_def set_status_def

lemma enroll_refreshes: "refreshes (enroll a st)"
  by (auto simp: refresh_defs enroll_def make_station_def ms_insert_def Let_def split: prod.splits)

lemma remove_refreshes: "refreshes (remove_by_mac_address m)"
  by (auto simp: refresh_defs remove_by_mac_address_def Let_def split: prod.splits option.splits)

lemma wakeup_refreshes: "refreshes (wakeup h)"
  by (auto simp: refresh_defs wakeup_def split: option.splits)

section \<open>The threads\<close>

text \<open>
  \<open>inserting\<close> are the requests whose threads have not inserted yet, \<open>lines\<close> the rest of the
  standard input. The other threads are started before the interface; \<open>begun\<close> is set when it has
  registered its handler. \<open>changes\<close> and \<open>rendered\<close> count, from then on, the operations that
  changed the table and the rounds in which the interface rendered; \<open>failed\<close> is set when a thread fails, \<open>left\<close> when the
  interface, and with it the process, is left.
\<close>

record running =
  table :: iface_service
  begun :: bool
  inserting :: "NodeAddresses list"
  lines :: "string list"
  input_ended :: bool
  screen :: string
  complaints :: string
  left :: bool
  failed :: "failure option"
  changes :: nat
  rendered :: nat

definition manager_start :: "string list \<Rightarrow> running" where
  "manager_start input =
     \<lparr>table = ManagementService_new Channel_open, begun = False, inserting = [],
      lines = input, input_ended = False, screen = [], complaints = [], left = False,
      failed = None, changes = 0, rendered = 0\<rparr>"

definition lives :: "running \<Rightarrow> bool" where
  "lives r \<longleftrightarrow> failed r = None \<and> \<not> left r"

text \<open>Whether a line of the input wakes a station up.\<close>

definition line_changes :: "string \<Rightarrow> iface_service \<Rightarrow> bool" where
  "line_changes line s \<longleftrightarrow> fst (parse_command line) = ''WAKEUP'' \<and> snd (parse_command line) \<noteq> []
     \<and> fst (wakeup (snd (parse_command line)) s)"

text \<open>The count of changes, to which an operation adds one if it changed the table.\<close>

definition changes_after :: "running \<Rightarrow> bool \<Rightarrow> nat" where
  "changes_after r changed = changes r + of_bool (changed \<and> begun r)"

inductive manager_step :: "running \<Rightarrow> running \<Rightarrow> bool" where
  request: "manager_step r (r\<lparr>inserting := inserting r @ [a]\<rparr>)"
    if "lives r"
| begins: "manager_step r (r\<lparr>table := s, begun := True, screen := t\<rparr>)"
    if "lives r" and "\<not> begun r" and "s = manager_interface_start (table r)"
      and "render s (participant_list s) (screen r) = (Inr (), t)"
| begin_fails: "manager_step r (r\<lparr>table := s, failed := Some e\<rparr>)"
    if "lives r" and "\<not> begun r" and "s = manager_interface_start (table r)"
      and "render s (participant_list s) (screen r) = (Inl e, t)"
| inserts: "manager_step r (r\<lparr>table := s, inserting := take i (inserting r) @ drop (Suc i) (inserting r),
      changes := changes_after r b\<rparr>)"
    if "lives r" and "i < length (inserting r)" and "enroll (inserting r ! i) AWAKEN (table r) = (b, s)"
| goodbye: "manager_step r (r\<lparr>table := s, changes := changes_after r b\<rparr>)"
    if "lives r" and "remove_by_mac_address m (table r) = (b, s)"
| tick_fails: "manager_step r (r\<lparr>failed := Some (Undefined ''null participant dereferenced'')\<rparr>)"
    if "lives r" and "mac_address_index (table r) \<noteq> []"
| line: "manager_step r (r\<lparr>table := s, lines := rest, complaints := t,
      changes := changes_after r (line_changes l (table r))\<rparr>)"
    if "lives r" and "begun r" and "lines r = l # rest" and "handle_line l (table r) (complaints r) = (s, t)"
| input_ends: "manager_step r (r\<lparr>table := s, input_ended := True\<rparr>)"
    if "lives r" and "begun r" and "lines r = []" and "\<not> input_ended r"
      and "manager_input_thread [] (table r) [] = (s, [])"
| renders: "manager_step r (r\<lparr>table := s, screen := screen r @ t, rendered := rendered r + 1\<rparr>)"
    if "lives r" and "begun r" and "interface_round (table r) = Some (s, (Inr False, t))"
| leaves: "manager_step r (r\<lparr>table := s, screen := screen r @ t, left := True\<rparr>)"
    if "lives r" and "begun r" and "interface_round (table r) = Some (s, (Inr True, t))"
| interface_fails: "manager_step r (r\<lparr>table := s, screen := screen r @ t, failed := Some e\<rparr>)"
    if "lives r" and "begun r" and "interface_round (table r) = Some (s, (Inl e, t))"

inductive manager_reachable :: "string list \<Rightarrow> running \<Rightarrow> bool" for input where
  at_start: "manager_reachable input (manager_start input)"
| by_step: "manager_reachable input r \<Longrightarrow> manager_step r r' \<Longrightarrow> manager_reachable input r'"

section \<open>Rounds of the interface\<close>

lemma round_continues:
  assumes "interface_round s = Some (s', (Inr False, t))"
  shows "\<exists>c. receive (outside s) = (Received MANAGER_IFACE_REFRESH, c) \<and> s' = s\<lparr>outside := c\<rparr>
    \<and> t = render_header \<and> mac_address_index s = []"
proof -
  obtain m c where r: "receive (outside s) = (m, c)" by fastforce
  have "m = Received MANAGER_IFACE_REFRESH"
    using assms r by (auto simp: interface_round_def Let_def split: received.splits ManagerIfaceMsg.splits)
  moreover have "mac_address_index s = []" if "None \<notin> set (participant_list (s\<lparr>outside := c\<rparr>))"
    using that by (cases "mac_address_index s") (auto simp: participant_list_def)
  ultimately show ?thesis
    using assms r by (auto simp: interface_round_def Let_def render_def modify_def undefined_behaviour_def
        throw_def participant_list_def split: if_splits)
qed

lemma round_ends: "interface_round s = Some (s', (Inr True, t)) \<Longrightarrow> t = []"
  and round_fails: "interface_round s = Some (s', (Inl e, t)) \<Longrightarrow> t = []"
  by (auto simp: interface_round_def Let_def render_def modify_def undefined_behaviour_def throw_def
      split: prod.splits received.splits ManagerIfaceMsg.splits if_splits)

text \<open>A list without a null pointer is the list of the empty table.\<close>

lemma empty_when_rendered:
  assumes "render s (participant_list s) cout = (Inr (), t)"
  shows "mac_address_index s = []"
  using assms by (cases "mac_address_index s")
    (auto simp: participant_list_def render_def undefined_behaviour_def throw_def)

section \<open>The invariant\<close>

text \<open>
  While the manager lives and the interface has begun, every change of the table is a refresh that is still in the channel
  or was rendered, the message to leave is in the channel exactly if the input has ended, and
  the channel is connected.
\<close>

definition pending :: "running \<Rightarrow> ManagerIfaceMsg list" where
  "pending r = messages (outside (table r))"

definition channel_inv :: "running \<Rightarrow> bool" where
  "channel_inv r \<longleftrightarrow> event_handlers (table r) = [refresh]
     \<and> channel_steady (outside (table r)) (if input_ended r then 4 else 6)
     \<and> changes r = rendered r + count_list (pending r) MANAGER_IFACE_REFRESH
     \<and> (MANAGER_IFACE_EXIT \<in> set (pending r) \<longleftrightarrow> input_ended r)"

definition live_inv :: "running \<Rightarrow> bool" where
  "live_inv r \<longleftrightarrow> ms_inv (table r)
     \<and> (if begun r then channel_inv r
        else event_handlers (table r) = [] \<and> changes r = 0 \<and> rendered r = 0 \<and> \<not> input_ended r)"

text \<open>An operation of a thread that changes the table.\<close>

lemma live_inv_operation:
  assumes "live_inv r" and "refreshes f" and "f (table r) = (b, s)" and "ms_inv s"
    and "table r' = s" "input_ended r' = input_ended r" "rendered r' = rendered r"
    and "begun r' = begun r" and "changes r' = changes_after r b"
  shows "live_inv r'"
proof -
  have h: "event_handlers (table r) = (if begun r then [refresh] else [])"
    using assms(1) by (cases "begun r") (simp_all add: live_inv_def channel_inv_def)
  then have e: "event_handlers s = event_handlers (table r)" "outside s =
      (if b \<and> begun r then snd (send MANAGER_IFACE_REFRESH (outside (table r))) else outside (table r))"
    using assms(2,3) by (auto simp: refreshes_def dest!: spec [of _ "table r"] split: if_splits)
  then show ?thesis
    using assms h steady_send [of "outside (table r)" _ MANAGER_IFACE_REFRESH]
    by (auto simp: live_inv_def channel_inv_def pending_def changes_after_def)
qed

lemma start_inv: "live_inv (manager_start input)"
  using ms_inv_new [of Channel_open]
  by (simp add: live_inv_def manager_start_def) (simp add: ManagementService_new_def)

text \<open>The start of the interface, on a table without events.\<close>

lemma interface_start_inv:
  assumes "ms_inv s" and "event_handlers s = []"
  defines "s' \<equiv> manager_interface_start s"
  shows "ms_inv s'" and "event_handlers s' = [refresh]" and "channel_steady (outside s') 6"
    and "messages (outside s') = []" and "mac_address_index s' = mac_address_index s"
proof -
  show "ms_inv s'"
    using assms(1) by (simp add: s'_def manager_interface_start_def register_event_handler_def inv_defs
        addresses_def status_def Let_def)
  show "event_handlers s' = [refresh]" "channel_steady (outside s') 6" "messages (outside s') = []"
    "mac_address_index s' = mac_address_index s"
    using assms(2) by (simp_all add: s'_def manager_interface_start_def register_event_handler_def Let_def
        channel_steady_def chan_ok_def handle_defs Channel_open_def refresh_def [abs_def])
qed

lemma handle_line_cases:
  assumes "handle_line l s t = (s', t')"
  shows "(line_changes l s, s') =
      (if fst (parse_command l) = ''WAKEUP'' \<and> snd (parse_command l) \<noteq> []
       then wakeup (snd (parse_command l)) s else (False, s))"
  using assms by (auto simp: handle_line_def line_changes_def split_beta prod_eq_iff split: if_splits)

lemma live_inv_step:
  assumes "manager_step r r'" and "live_inv r" and "lives r'"
  shows "live_inv r'"
  using assms(1)
proof (cases rule: manager_step.cases)
  case (request a)
  then show ?thesis using assms(2) by (cases "begun r") (simp_all add: live_inv_def channel_inv_def pending_def)
next
  case (begins s t)
  then show ?thesis
    using assms(2) interface_start_inv [of "table r"]
    by (simp add: live_inv_def channel_inv_def pending_def)
next
  case (begin_fails s e t)
  then show ?thesis using assms(3) by (simp add: lives_def)
next
  case (inserts i b s)
  have "ms_inv s"
    using inserts(4) assms(2) enroll_participants(1) [of "table r" "inserting r ! i" AWAKEN]
    by (simp add: live_inv_def)
  then show ?thesis
    using inserts by (intro live_inv_operation [OF assms(2) enroll_refreshes, of _ _ b s]) simp_all
next
  case (goodbye m b s)
  have "ms_inv s"
    using goodbye(3) assms(2) ms_inv_removals(1) [of "table r" m] by (simp add: live_inv_def)
  then show ?thesis
    using goodbye by (intro live_inv_operation [OF assms(2) remove_refreshes, of _ b s]) simp_all
next
  case tick_fails
  then show ?thesis using assms(3) by (simp add: lives_def)
next
  case (line l rest s t)
  note c = handle_line_cases [OF line(5)]
  show ?thesis
  proof (cases "fst (parse_command l) = ''WAKEUP'' \<and> snd (parse_command l) \<noteq> []")
    case True
    then have w: "wakeup (snd (parse_command l)) (table r) = (line_changes l (table r), s)"
      using c by simp
    then have "ms_inv s"
      using assms(2) ms_inv_updates(2) [of "table r" "snd (parse_command l)"] by (simp add: live_inv_def)
    then show ?thesis
      using line by (intro live_inv_operation [OF assms(2) wakeup_refreshes w]) simp_all
  next
    case False
    then have "\<not> line_changes l (table r)" "s = table r" using c by (auto split: if_splits)
    then show ?thesis using line assms(2) by (cases "begun r") (simp_all add: live_inv_def channel_inv_def pending_def changes_after_def)
  qed
next
  case (input_ends s)
  let ?c = "Sender_drop (snd (send MANAGER_IFACE_EXIT (outside (table r))))"
  have s: "s = (table r)\<lparr>outside := Sender_drop ?c\<rparr>"
    using input_ends by (simp add: manager_input_thread_def handle_manager_input_def)
  have c: "channel_steady (outside (table r)) (Suc (Suc 4))"
    using input_ends assms(2) by (simp add: live_inv_def channel_inv_def)
  have "channel_steady (outside s) 4 \<and> messages (outside s) = messages (outside (table r)) @ [MANAGER_IFACE_EXIT]"
    using steady_send [OF c, of MANAGER_IFACE_EXIT] steady_drop [of "snd (send MANAGER_IFACE_EXIT (outside (table r)))" 5]
      steady_drop [of ?c 4]
    by (simp add: s)
  moreover have "ms_inv s = ms_inv (table r)"
    by (simp add: s inv_defs addresses_def status_def)
  ultimately show ?thesis
    using input_ends(1,3) assms(2) by (simp add: live_inv_def channel_inv_def pending_def s)
next
  case (renders s t)
  obtain c where c: "receive (outside (table r)) = (Received MANAGER_IFACE_REFRESH, c)"
    "s = (table r)\<lparr>outside := c\<rparr>"
    using round_continues [OF renders(4)] by blast
  have "ms_inv s = ms_inv (table r)"
    by (simp add: c(2) inv_defs addresses_def status_def)
  then show ?thesis
    using renders(1,3) assms(2) steady_receive [OF _ c(1)]
    by (auto simp: live_inv_def channel_inv_def pending_def c(2))
next
  case (leaves s t)
  then show ?thesis using assms(3) by (simp add: lives_def)
next
  case (interface_fails s t e)
  then show ?thesis using assms(3) by (simp add: lives_def)
qed

lemma lives_step: "manager_step r r' \<Longrightarrow> lives r"
  by (cases rule: manager_step.cases)

lemma live_inv_reachable: "manager_reachable input r \<Longrightarrow> lives r \<Longrightarrow> live_inv r"
proof (induction rule: manager_reachable.induct)
  case at_start
  show ?case by (rule start_inv)
next
  case (by_step r r')
  then show ?case using lives_step live_inv_step by blast
qed

definition headings :: "nat \<Rightarrow> string" where
  "headings n = concat (replicate n render_header)"

lemma headings_Suc: "headings (Suc n) = headings n @ render_header"
  by (induction n) (simp_all add: headings_def)

lemma screen_reachable:
  "manager_reachable input r \<Longrightarrow> screen r = headings (rendered r + of_bool (begun r))
    \<and> (\<not> begun r \<longrightarrow> rendered r = 0)"
proof (induction rule: manager_reachable.induct)
  case at_start
  show ?case by (simp add: manager_start_def headings_def)
next
  case (by_step r r')
  from by_step(2,3) show ?case
  proof (cases rule: manager_step.cases)
    case (begins s t)
    then show ?thesis
      using by_step.IH empty_when_rendered [OF begins(5)]
      by (auto simp: headings_def render_def modify_def participant_list_def)
  next
    case (renders s t)
    then show ?thesis
      using round_continues [OF renders(4)] by_step.IH by (auto simp: headings_Suc)
  qed (auto dest: round_ends round_fails)
qed

text \<open>A run: the interface begins, one host asks and its thread inserts it.\<close>

definition shown :: running where
  "shown = (manager_start [])\<lparr>table := manager_interface_start (ManagementService_new Channel_open),
     begun := True, screen := render_header\<rparr>"

definition one_joined :: running where
  "one_joined = shown\<lparr>table := snd (enroll host_a AWAKEN (table shown)), changes := 1\<rparr>"

lemmas start_defs = shown_def manager_start_def manager_interface_start_def register_event_handler_def
  ManagementService_new_def WorkStation_new_def Let_def

lemma one_joined_fields:
  "lives one_joined" "mac_address_index (table one_joined) = [(mac host_a, 0)]" "begun one_joined"
  "pending one_joined = [MANAGER_IFACE_REFRESH]" "changes one_joined = 1" "rendered one_joined = 0"
  by (simp_all add: one_joined_def lives_def pending_def start_defs service_ops send_def handle_defs
      Channel_open_def)

lemma shown_reachable: "manager_reachable [] shown"
proof -
  have "manager_step (manager_start []) shown"
    unfolding shown_def by (rule manager_step.begins)
      (simp_all add: manager_start_def lives_def manager_interface_start_def register_event_handler_def
        ManagementService_new_def participant_list_def render_def modify_def Let_def)
  then show ?thesis using at_start by_step by blast
qed

lemma one_joined_reachable: "manager_reachable [] one_joined"
proof -
  let ?r = "shown\<lparr>inserting := [host_a]\<rparr>"
  let ?p = "enroll host_a AWAKEN (table shown)"
  have live: "lives shown" "lives ?r" and fields: "begun shown" "inserting shown = []" "changes shown = 0"
    by (simp_all add: lives_def shown_def manager_start_def)
  have "manager_step shown ?r"
    using manager_step.request [OF live(1), of host_a] by (simp add: fields)
  then have r: "manager_reachable [] ?r" using shown_reachable by_step by blast
  have "fst ?p" by (simp add: start_defs service_ops)
  then have "enroll (inserting ?r ! 0) AWAKEN (table ?r) = (True, snd ?p)" by (simp add: prod_eq_iff)
  from manager_step.inserts [OF live(2) _ this] have "manager_step ?r one_joined"
    by (simp add: one_joined_def changes_after_def fields) (simp add: shown_def manager_start_def)
  with r show ?thesis by (rule by_step)
qed

section \<open>Properties\<close>

text \<open>
  C12: The manager with all its threads, in every interleaving and on every input, as long as it
  lives: the table keeps its invariant; and from the moment the interface has registered its
  handler every change of the table has sent the interface exactly one refresh, which is
  rendered or still waits in the channel, the message to leave is in the channel exactly when
  the input has ended, and the channel is never disconnected.
\<close>

theorem manager_refreshes_every_change:
  assumes "manager_reachable input r" and "lives r"
  shows "ms_inv (table r)
    \<and> (begun r \<longrightarrow> changes r = rendered r + count_list (pending r) MANAGER_IFACE_REFRESH
        \<and> (MANAGER_IFACE_EXIT \<in> set (pending r) \<longleftrightarrow> input_ended r)
        \<and> state_tag (outside (table r)) \<noteq> TAG_DISCONNECTED)"
  using live_inv_reachable [OF assms] by (auto simp: live_inv_def channel_inv_def channel_steady_def)

theorem manager_refreshes_every_change_witness:
  "ms_inv (table one_joined) \<and> changes one_joined = 0 + count_list (pending one_joined) MANAGER_IFACE_REFRESH"
  using manager_refreshes_every_change [OF one_joined_reachable one_joined_fields(1)]
  by (simp add: one_joined_fields)

text \<open>
  C28: The manager never shows a participant: whatever joins, leaves and is typed, and in whatever
  order the threads run, the screen only ever holds headings of the empty table, and in a state
  with a participant the interface has no way to render: each of its rounds fails or leaves.
\<close>

theorem manager_never_shows_a_participant:
  assumes "manager_reachable input r"
  shows "screen r = headings (rendered r + of_bool (begun r))
    \<and> (mac_address_index (table r) \<noteq> [] \<longrightarrow> interface_round (table r) \<noteq> Some (s, (Inr False, t)))"
  using screen_reachable [OF assms] round_continues by blast

theorem manager_never_shows_a_participant_witness:
  "screen one_joined = render_header
    \<and> interface_round (table one_joined) \<noteq> Some (table one_joined, (Inr False, render_header))"
  using manager_never_shows_a_participant [OF one_joined_reachable]
  by (simp add: one_joined_fields headings_def)

end
