(* ===== verification/Manager_Process.thy ===== *)
theory Manager_Process
  imports Manager_Steps Locking
begin

text \<open>
  The whole manager on an operating system: the threads of \<open>manager.cpp\<close> with the calls they make
  on their sockets, interleaved in any order with each other, with \<open>SIGINT\<close> and with what changes
  outside. The theory
  \<open>Manager_Steps\<close>, in which the network is left open, is its specification: every run of the
  process is one of the runs there.
\<close>

section \<open>States\<close>

text \<open>Where the discovery thread and the monitoring thread stand.\<close>

datatype discovery_pc = DBegin | DListening int

datatype monitoring_pc =
    MonBegin
  | MonTick int
  | MonAnswers int "(MacAddress \<times> client_request) list"
  | MonExits int
  | MonRemove int MacAddress
  | MonSleep int

record 'w manager_process =
  core :: "('w, ManagerIfaceMsg Mpsc) manager"
  discovery_at :: discovery_pc
  responders :: "response_thread list"
  monitor_at :: monitoring_pc
  interface_begun :: bool
  input_left :: "string list"
  stdin_closed :: bool
  cout :: string
  cerr_text :: string
  process_ended :: process_state

definition process_start :: "string list \<Rightarrow> 'w process \<Rightarrow> 'w manager_process" where
  "process_start input p =
     \<lparr>core = \<lparr>host = p, service = ManagementService_new Channel_open\<rparr>, discovery_at = DBegin,
      responders = [], monitor_at = MonBegin, interface_begun = False, input_left = input,
      stdin_closed = False, cout = [], cerr_text = [], process_ended = Running\<rparr>"

section \<open>Steps\<close>

text \<open>What the monitoring thread does next; each removal is a step of its own.\<close>

fun monitor_io :: "'w os \<Rightarrow> monitoring_pc \<Rightarrow> ('w, 'x, monitoring_pc) manager_io" where
  "monitor_io E MonBegin =
     andthen (on_host (ClientSocket_new E)) (\<lambda>_.
     andthen (on_host (ServerSocket_new E EXIT_PORT)) (\<lambda>fd. ret (MonTick fd)))"
| "monitor_io E (MonTick fd) =
     andthen (gets (\<lambda>m. participant_list (service m))) (\<lambda>participants.
     andthen (poll_requests E participants) (\<lambda>requests. ret (MonAnswers fd requests)))"
| "monitor_io E (MonAnswers fd requests) =
     andthen (poll_responses E requests) (\<lambda>_. ret (MonExits fd))"
| "monitor_io E (MonExits fd) =
     andthen (on_host (server_try_receive E fd)) (\<lambda>maybe_packet.
       ret (case maybe_packet of
              None \<Rightarrow> MonSleep fd
            | Some packet \<Rightarrow> MonRemove fd (mac (sender_addresses (header packet)))))"
| "monitor_io E (MonRemove fd address) =
     andthen (on_service (remove_by_mac_address address)) (\<lambda>_. ret (MonExits fd))"
| "monitor_io E (MonSleep fd) = andthen (monitoring_sleep E) (\<lambda>_. ret (MonTick fd))"

definition on_table :: "iface_service \<Rightarrow> 'w manager_process \<Rightarrow> 'w manager_process" where
  "on_table t s = s\<lparr>core := (core s)\<lparr>service := t\<rparr>\<rparr>"

definition ends :: "failure \<Rightarrow> 'w manager_process \<Rightarrow> 'w manager_process" where
  "ends e s = s\<lparr>process_ended := Terminated e\<rparr>"

abbreviation table_of :: "'w manager_process \<Rightarrow> iface_service" where
  "table_of s \<equiv> service (core s)"

text \<open>
  The threads read the table and the statuses under \<open>SharedLockGuard\<close>; \<open>ctor\<close> says what its constructor
  calls, as for the programs of the theory \<open>Service_Threads\<close>. With \<open>unlock_shared\<close>, which is in the
  code, the first such read is undefined, and the process ends there; these reads are that of the status
  in an insertion, and of the list of participants in a tick and when the interface begins. All other reads
  come after one of these in the same thread.
\<close>

definition about_to_read :: "'w manager_process \<Rightarrow> bool" where
  "about_to_read s \<longleftrightarrow> (\<exists>packet. Inserting packet \<in> set (responders s)) \<or> (\<exists>fd. monitor_at s = MonTick fd)
     \<or> \<not> interface_begun s"

definition unlocked_read :: failure where
  "unlocked_read = Undefined ''unlock_shared of a mutex that is not held''"

inductive process_step :: "(lock_name \<Rightarrow> lock_act) \<Rightarrow> 'w os \<Rightarrow> 'w manager_process \<Rightarrow> 'w manager_process \<Rightarrow> bool"
  for ctor E where
  discovery_opens: "process_step ctor E s (s\<lparr>discovery_at := DListening fd, core := m\<rparr>)"
    if "process_ended s = Running" and "discovery_at s = DBegin"
      and "on_host (discovery_socket E) (core s) = (Inr fd, m)"
| discovery_open_throws: "process_step ctor E s (ends e (s\<lparr>core := m\<rparr>))"
    if "process_ended s = Running" and "discovery_at s = DBegin"
      and "on_host (discovery_socket E) (core s) = (Inl e, m)"
| discovery_receives: "process_step ctor E s
      (s\<lparr>core := (core s)\<lparr>host := p\<rparr>, responders := responders s @ [Inserting packet]\<rparr>)"
    if "process_ended s = Running" and "discovery_at s = DListening fd"
      and "server_receive E fd (host (core s)) = Some (Inr packet, p)"
| discovery_throws: "process_step ctor E s (ends e (s\<lparr>core := (core s)\<lparr>host := p\<rparr>\<rparr>))"
    if "process_ended s = Running" and "discovery_at s = DListening fd"
      and "server_receive E fd (host (core s)) = Some (Inl e, p)"
| responder_inserts: "process_step ctor E s
      (s\<lparr>core := snd (discovery_insert packet (core s)), responders := (responders s)[i := Responding packet]\<rparr>)"
    if "process_ended s = Running" and "i < length (responders s)" and "responders s ! i = Inserting packet"
      and "ctor = LockShared"
| responder_responds: "process_step ctor E s (s\<lparr>core := m, responders := (responders s)[i := Finished]\<rparr>)"
    if "process_ended s = Running" and "i < length (responders s)" and "responders s ! i = Responding packet"
      and "on_host (respond E packet DISCOVERY_PARTICIPANT_PORT) (core s) = (Inr (), m)"
| responder_throws: "process_step ctor E s (ends e (s\<lparr>core := m\<rparr>))"
    if "process_ended s = Running" and "i < length (responders s)" and "responders s ! i = Responding packet"
      and "on_host (respond E packet DISCOVERY_PARTICIPANT_PORT) (core s) = (Inl e, m)"
| monitor_calls: "process_step ctor E s (s\<lparr>core := m, monitor_at := pc\<rparr>)"
    if "process_ended s = Running" and "monitor_io E (monitor_at s) (core s) = (Inr pc, m)"
      and "(\<exists>fd. monitor_at s = MonTick fd) \<longrightarrow> ctor = LockShared"
| monitor_throws: "process_step ctor E s (ends e (s\<lparr>core := m\<rparr>))"
    if "process_ended s = Running" and "monitor_io E (monitor_at s) (core s) = (Inl e, m)"
      and "(\<exists>fd. monitor_at s = MonTick fd) \<longrightarrow> ctor = LockShared"
| interface_begins: "process_step ctor E s (on_table t (s\<lparr>interface_begun := True, cout := c\<rparr>))"
    if "process_ended s = Running" and "\<not> interface_begun s" and "t = manager_interface_start (table_of s)"
      and "ctor = LockShared" and "render t (participant_list t) (cout s) = (Inr (), c)"
| interface_begin_fails: "process_step ctor E s (ends e (on_table t s))"
    if "process_ended s = Running" and "\<not> interface_begun s" and "t = manager_interface_start (table_of s)"
      and "ctor = LockShared" and "render t (participant_list t) (cout s) = (Inl e, c)"
| interface_renders: "process_step ctor E s (on_table t (s\<lparr>cout := cout s @ c\<rparr>))"
    if "process_ended s = Running" and "interface_begun s" and "interface_round (table_of s) = Some (t, (Inr False, c))"
| interface_leaves: "process_step ctor E s (on_table t (s\<lparr>cout := cout s @ c, process_ended := Exited 0\<rparr>))"
    if "process_ended s = Running" and "interface_begun s" and "interface_round (table_of s) = Some (t, (Inr True, c))"
| interface_throws: "process_step ctor E s (ends e (on_table t (s\<lparr>cout := cout s @ c\<rparr>)))"
    if "process_ended s = Running" and "interface_begun s" and "interface_round (table_of s) = Some (t, (Inl e, c))"
| stdin_line: "process_step ctor E s (on_table t (s\<lparr>input_left := rest, cerr_text := c\<rparr>))"
    if "process_ended s = Running" and "interface_begun s" and "input_left s = l # rest"
      and "handle_line l (table_of s) (cerr_text s) = (t, c)"
| stdin_ends: "process_step ctor E s (on_table t (s\<lparr>stdin_closed := True\<rparr>))"
    if "process_ended s = Running" and "interface_begun s" and "input_left s = []" and "\<not> stdin_closed s"
      and "manager_input_thread [] (table_of s) [] = (t, [])"
| unlocked_reads: "process_step ctor E s (ends unlocked_read s)"
    if "process_ended s = Running" and "about_to_read s" and "ctor = UnlockShared"
| sigint: "process_step ctor E s (s\<lparr>core := m, process_ended := Exited code\<rparr>)"
    if "process_ended s = Running" and "on_host (manager_sigint E) (core s) = (Inr code, m)"
| sigint_throws: "process_step ctor E s (ends e (s\<lparr>core := m\<rparr>))"
    if "process_ended s = Running" and "on_host (manager_sigint E) (core s) = (Inl e, m)"

definition process_world :: "'w \<Rightarrow> 'w manager_process \<Rightarrow> 'w manager_process" where
  "process_world w s = s\<lparr>core := (core s)\<lparr>host := (host (core s))\<lparr>world := w\<rparr>\<rparr>\<rparr>"

inductive process_reachable ::
    "(lock_name \<Rightarrow> lock_act) \<Rightarrow> 'w os \<Rightarrow> string list \<Rightarrow> 'w process \<Rightarrow> 'w manager_process \<Rightarrow> bool"
  for ctor E input p where
  process_starts: "process_reachable ctor E input p (process_start input p)"
| process_steps: "process_reachable ctor E input p s \<Longrightarrow> process_step ctor E s s' \<Longrightarrow> process_reachable ctor E input p s'"
| process_surroundings: "process_reachable ctor E input p s \<Longrightarrow> process_reachable ctor E input p (process_world w s)"

section \<open>The simulation\<close>

text \<open>The requests whose threads have not inserted yet.\<close>

fun joins :: "response_thread \<Rightarrow> NodeAddresses list" where
  "joins (Inserting packet) = [sender_of packet]"
| "joins _ = []"

definition joining :: "response_thread list \<Rightarrow> NodeAddresses list" where
  "joining ts = concat (map joins ts)"

lemma joining_replace:
  assumes "i < length ts"
  shows "joining (ts[i := t]) = joining (take i ts) @ joins t @ joining (drop (Suc i) ts)"
    and "joining ts = joining (take i ts) @ joins (ts ! i) @ joining (drop (Suc i) ts)"
proof -
  show "joining (ts[i := t]) = joining (take i ts) @ joins t @ joining (drop (Suc i) ts)"
    using assms by (simp add: joining_def upd_conv_take_nth_drop)
  show "joining ts = joining (take i ts) @ joins (ts ! i) @ joining (drop (Suc i) ts)"
    using assms by (subst id_take_nth_drop [OF assms]) (simp add: joining_def)
qed

definition simulates :: "'w manager_process \<Rightarrow> running \<Rightarrow> bool" where
  "simulates s r \<longleftrightarrow> table r = table_of s \<and> begun r = interface_begun s
     \<and> inserting r = joining (responders s) \<and> lines r = input_left s
     \<and> input_ended r = stdin_closed s \<and> screen r = cout s \<and> complaints r = cerr_text s \<and> lives r"

text \<open>The monitoring thread never has a request to wait for: its list starts with a null pointer.\<close>

definition no_requests :: "monitoring_pc \<Rightarrow> bool" where
  "no_requests pc \<longleftrightarrow> (\<forall>fd requests. pc = MonAnswers fd requests \<longrightarrow> requests = [])"

lemma poll_requests_empty:
  assumes "poll_requests E (participant_list s) m = (Inr requests, m')"
  shows "requests = [] \<and> m' = m"
proof (cases "mac_address_index s")
  case Nil
  then show ?thesis using assms by (simp add: participant_list_def ret_def)
next
  case (Cons x xs)
  then show ?thesis using assms by (simp add: participant_list_def undefined_behaviour_def throw_def)
qed

lemma on_host_keeps: "on_host c m = (r, m') \<Longrightarrow> service m' = service m"
  using on_host_service [of c m] by simp

lemma monitor_io_service:
  assumes "monitor_io E pc m = (Inr pc', m')" and "no_requests pc"
  shows "no_requests pc' \<and> service m' =
    (case pc of MonRemove fd a \<Rightarrow> snd (remove_by_mac_address a (service m)) | _ \<Rightarrow> service m)"
  using assms
  by (cases "(E, pc)" rule: monitor_io.cases)
    (auto simp: no_requests_def andthen_result_Inr ret_def andthen_on_service monitoring_sleep_def
      modify_def on_service_def call_def split_beta
      dest!: on_host_keeps poll_requests_empty split: option.splits)

lemma discovery_insert_service:
  "service (snd (discovery_insert packet m)) = snd (enroll (sender_of packet) AWAKEN (service m))"
  by (simp add: discovery_insert_enroll sender_of_def split: prod.splits)

text \<open>A step that goes on is a step of the specification or none.\<close>

lemma simulation_step:
  assumes "process_step ctor E s s'" and "process_ended s' = Running"
    and sim: "simulates s r" and mon: "no_requests (monitor_at s)"
  shows "no_requests (monitor_at s') \<and> (\<exists>r'. (r' = r \<or> manager_step r r') \<and> simulates s' r')"
proof -
  have live: "lives r" and table: "table r = table_of s" using sim by (simp_all add: simulates_def)
  show ?thesis
    using assms(1)
  proof (cases rule: process_step.cases)
    case (discovery_opens fd m)
    then show ?thesis
      using sim mon on_host_keeps [OF discovery_opens(4)] by (intro conjI exI [of _ r]) (auto simp: simulates_def)
  next
    case (discovery_receives fd packet p)
    then show ?thesis
      using sim mon manager_step.request [OF live, of "sender_of packet"]
      by (intro conjI exI [of _ "r\<lparr>inserting := inserting r @ [sender_of packet]\<rparr>"])
        (auto simp: simulates_def joining_def lives_def)
  next
    case (responder_inserts i packet)
    let ?j = "length (joining (take i (responders s)))"
    let ?e = "enroll (sender_of packet) AWAKEN (table r)"
    have i: "inserting r = joining (take i (responders s)) @ [sender_of packet] @ joining (drop (Suc i) (responders s))"
      using sim responder_inserts joining_replace(2) [of i "responders s"] by (simp add: simulates_def)
    have "manager_step r (r\<lparr>table := snd ?e, inserting := take ?j (inserting r) @ drop (Suc ?j) (inserting r),
        changes := changes_after r (fst ?e)\<rparr>)" (is "manager_step r ?r")
      by (rule manager_step.inserts [OF live]) (simp_all add: i)
    moreover have "take ?j (inserting r) @ drop (Suc ?j) (inserting r) =
        joining (take i (responders s)) @ joining (drop (Suc i) (responders s))"
      by (simp add: i)
    then have "simulates s' ?r"
      using sim responder_inserts joining_replace(1) [of i "responders s" "Responding packet"] table
      by (simp add: simulates_def lives_def discovery_insert_service)
    ultimately show ?thesis using mon responder_inserts by auto
  next
    case (responder_responds i packet m)
    then show ?thesis
      using sim mon on_host_keeps [OF responder_responds(5)] joining_replace [of i "responders s"]
      by (intro conjI exI [of _ r]) (auto simp: simulates_def)
  next
    case (monitor_calls pc m)
    note m = monitor_io_service [OF monitor_calls(3) mon]
    show ?thesis
    proof (cases "\<exists>fd a. monitor_at s = MonRemove fd a")
      case True
      then obtain fd a where a: "monitor_at s = MonRemove fd a" by blast
      let ?e = "remove_by_mac_address a (table r)"
      have "manager_step r (r\<lparr>table := snd ?e, changes := changes_after r (fst ?e)\<rparr>)"
        by (rule manager_step.goodbye [OF live]) simp
      then show ?thesis
        using m a sim table monitor_calls(1)
        by (intro conjI exI [of _ "r\<lparr>table := snd ?e, changes := changes_after r (fst ?e)\<rparr>"])
          (auto simp: simulates_def lives_def)
    next
      case False
      then have "service m = table_of s" using m by (cases "monitor_at s") auto
      then show ?thesis using m sim monitor_calls(1) by (intro conjI exI [of _ r]) (auto simp: simulates_def)
    qed
  next
    case (interface_begins t c)
    then show ?thesis
      using sim mon manager_step.begins [OF live, of t c]
      by (intro conjI exI [of _ "r\<lparr>table := t, begun := True, screen := c\<rparr>"])
        (auto simp: simulates_def lives_def on_table_def)
  next
    case (interface_renders t c)
    then show ?thesis
      using sim mon manager_step.renders [OF live, of t c]
      by (intro conjI exI [of _ "r\<lparr>table := t, screen := screen r @ c, rendered := rendered r + 1\<rparr>"])
        (auto simp: simulates_def lives_def on_table_def)
  next
    case (stdin_line l rest t c)
    then show ?thesis
      using sim mon manager_step.line [OF live, of l rest t c]
      by (intro conjI exI [of _ "r\<lparr>table := t, lines := rest, complaints := c,
            changes := changes_after r (line_changes l (table r))\<rparr>"])
        (auto simp: simulates_def lives_def on_table_def)
  next
    case (stdin_ends t)
    then show ?thesis
      using sim mon manager_step.input_ends [OF live, of t]
      by (intro conjI exI [of _ "r\<lparr>table := t, input_ended := True\<rparr>"])
        (auto simp: simulates_def lives_def on_table_def)
  qed (use assms(2) in \<open>simp_all add: ends_def on_table_def\<close>)
qed

lemma running_before: "process_step ctor E s s' \<Longrightarrow> process_ended s = Running"
  by (cases rule: process_step.cases)

lemma simulation:
  "process_reachable ctor E input p s \<Longrightarrow> process_ended s = Running \<Longrightarrow>
    no_requests (monitor_at s) \<and> (\<exists>r. manager_reachable input r \<and> simulates s r)"
proof (induction rule: process_reachable.induct)
  case process_starts
  have "simulates (process_start input p) (manager_start input)"
    by (simp add: simulates_def process_start_def manager_start_def joining_def lives_def)
  then show ?case using at_start by (auto simp: no_requests_def process_start_def)
next
  case (process_steps s s')
  then obtain r where "manager_reachable input r" "simulates s r" "no_requests (monitor_at s)"
    using running_before by blast
  then show ?case
    using simulation_step [OF process_steps(2) process_steps.prems] by_step by blast
next
  case (process_surroundings s w)
  then show ?case by (auto simp: simulates_def process_world_def)
qed

section \<open>The end of the process\<close>

text \<open>The interface is left only by the message that the input has ended.\<close>

lemma leaving_round:
  assumes "live_inv r" and "begun r" and "interface_round (table r) = Some (t, (Inr True, c))"
  shows "input_ended r"
proof -
  obtain m c' where m: "receive (outside (table r)) = (m, c')" by fastforce
  have inv: "channel_steady (outside (table r)) (if input_ended r then 4 else 6)"
    "MANAGER_IFACE_EXIT \<in> set (pending r) \<longleftrightarrow> input_ended r"
    using assms(1,2) by (simp_all add: live_inv_def channel_inv_def)
  have "m \<noteq> NoProducer"
    using inv(1) m by (auto simp: channel_steady_def receive_def Let_def split: StateTag.splits list.splits if_splits)
  then have "m = Received MANAGER_IFACE_EXIT"
    using assms(3) m
    by (auto simp: interface_round_def Let_def split: received.splits ManagerIfaceMsg.splits sum.splits prod.splits)
  then show ?thesis
    using steady_receive [OF inv(1)] m inv(2) by (auto simp: pending_def)
qed

lemma sigint_code: "on_host (manager_sigint E) m = (Inr code, m') \<Longrightarrow> code = 130"
  by (auto simp: on_host_def manager_sigint_def andthen_result_Inr ret_def Let_def split: prod.splits)

definition end_inv :: "'w manager_process \<Rightarrow> bool" where
  "end_inv s \<longleftrightarrow> (process_ended s = Exited 0 \<longrightarrow> stdin_closed s) \<and> (stdin_closed s \<longrightarrow> input_left s = [])"

lemma end_inv_reachable: "process_reachable ctor E input p s \<Longrightarrow> end_inv s"
proof (induction rule: process_reachable.induct)
  case process_starts
  show ?case by (simp add: end_inv_def process_start_def)
next
  case (process_steps s s')
  from process_steps(2) show ?case
  proof (cases rule: process_step.cases)
    case (interface_leaves t c)
    obtain r where r: "manager_reachable input r" "simulates s r"
      using simulation [OF process_steps(1) interface_leaves(2)] by blast
    then have live: "live_inv r" using live_inv_reachable by (auto simp: simulates_def)
    have "input_ended r"
      using leaving_round [OF live] r(2) interface_leaves by (auto simp: simulates_def)
    then show ?thesis
      using process_steps.IH r(2) interface_leaves(1) by (simp add: end_inv_def simulates_def on_table_def)
  next
    case (sigint code m)
    then show ?thesis
      using process_steps.IH sigint_code [OF sigint(3)] by (simp add: end_inv_def)
  qed (use process_steps.IH in \<open>auto simp: end_inv_def ends_def on_table_def\<close>)
qed (simp add: end_inv_def process_world_def)

section \<open>The guard as it is written\<close>




section \<open>A run\<close>

text \<open>The interface begins, the input ends, and the interface is left.\<close>

lemma process_by: "process_reachable ctor E input p s \<Longrightarrow> process_step ctor E s t \<Longrightarrow> t = s' \<Longrightarrow>
    process_reachable ctor E input p s'"
  using process_steps by blast

definition shown_process :: "'w process \<Rightarrow> 'w manager_process" where
  "shown_process p = on_table (table shown)
     ((process_start [] p)\<lparr>interface_begun := True, cout := render_header\<rparr>)"

lemma shown_process_reachable: "process_reachable LockShared E [] p (shown_process p)"
  by (rule process_by [OF process_starts interface_begins])
    (simp_all add: shown_process_def process_start_def shown_def on_table_def manager_interface_start_def
      register_event_handler_def ManagementService_new_def participant_list_def render_def modify_def Let_def)

lemma exited_process:
  "\<exists>s. process_reachable LockShared E [] p s \<and> process_ended s = Exited 0"
proof -
  let ?t = "(table shown)\<lparr>outside := Sender_drop (Sender_drop (snd (send MANAGER_IFACE_EXIT (outside (table shown)))))\<rparr>"
  let ?s = "on_table ?t ((shown_process p)\<lparr>stdin_closed := True\<rparr>)"
  have s: "process_reachable LockShared E [] p ?s"
    by (rule process_by [OF shown_process_reachable stdin_ends [where t = ?t]])
      (simp_all add: shown_process_def process_start_def on_table_def manager_input_thread_def handle_manager_input_def)
  have "interface_round (table_of ?s) = Some (?t\<lparr>outside := snd (receive (outside ?t))\<rparr>, (Inr True, []))"
    by (simp add: on_table_def interface_round_def start_defs receive_def send_def handle_defs Channel_open_def)
  from process_steps [OF s interface_leaves [OF _ _ this]] show ?thesis
    by (auto simp: on_table_def shown_process_def process_start_def)
qed

section \<open>Properties\<close>

text \<open>
  C13: The manager process refines its specification: on every network and in every interleaving,
  a running process is, in its table, its pending insertions, its input, its screen and its
  complaints, a state the specification reaches, in which the network is left open; so what
  holds there of tables, events and the screen holds of the process.
\<close>

theorem manager_process_refines:
  assumes "process_reachable ctor E input p s" and "process_ended s = Running"
  shows "\<exists>r. manager_reachable input r \<and> lives r \<and> table r = table_of s
    \<and> inserting r = joining (responders s) \<and> begun r = interface_begun s \<and> lines r = input_left s
    \<and> input_ended r = stdin_closed s \<and> screen r = cout s \<and> complaints r = cerr_text s"
  using simulation [OF assms] by (auto simp: simulates_def)

theorem manager_process_refines_witness:
  "\<exists>r. manager_reachable [] r \<and> screen r = render_header \<and> lives r"
proof -
  have "process_ended (shown_process (net_with [])) = Running" "cout (shown_process (net_with [])) = render_header"
    by (simp_all add: shown_process_def process_start_def on_table_def)
  then show ?thesis
    using manager_process_refines [OF shown_process_reachable [of "loopback host_a" "net_with []"]] by auto
qed

text \<open>
  The manager returns only at the end of its input: on every network and in every
  interleaving, it exits with 0 only after the input thread has seen the end of the input and
  has handled every line before it.
\<close>

lemma manager_exits_after_input:
  assumes "process_reachable ctor E input p s" and "process_ended s = Exited 0"
  shows "stdin_closed s \<and> input_left s = []"
  using end_inv_reachable [OF assms(1)] assms(2) by (simp add: end_inv_def)

lemma manager_exits_after_input_witness:
  "\<exists>s. process_reachable LockShared (loopback host_a) [] (net_with []) s \<and> stdin_closed s"
  using exited_process [of "loopback host_a" "net_with []"] manager_exits_after_input by blast




text \<open>
  C36: A malformed datagram ends the manager: on every network, when the discovery thread listens and a
  message without a semicolon arrives, after any number of packets that the deserializer does not
  accept and that are skipped, \<open>ServerSocket::receive\<close> throws; nothing catches the exception, so that the
  process can only go on in this thread by being terminated, with that message taken from the socket.
\<close>

theorem malformed_datagram_ends_manager:
  assumes "process_ended s = Running" and "discovery_at s = DListening fd"
    and "\<And>i. i < n \<Longrightarrow> receiver_receive_packet E fd (pk i) (st i) = (Inr (False, pk (Suc i)), st (Suc i))"
    and "pk 0 = Packet_new" and "st 0 = host (core s)"
    and "receiver_receive_string E fd (st n) = (Inr m, p')" and "FIELD_END \<notin> set m"
  shows "\<exists>e. server_receive E fd (host (core s)) = Some (Inl e, p')
    \<and> process_step ctor E s (ends e (s\<lparr>core := (core s)\<lparr>host := p'\<rparr>\<rparr>))"
proof -
  obtain e where "receiver_receive_packet E fd (pk n) (st n) = (Inl e, p')"
    using malformed_message_fails [OF assms(6,7)] by blast
  from server_loop_fails [of n E fd pk st, OF assms(3) this] have e: "server_receive E fd (host (core s)) = Some (Inl e, p')"
    using assms(4,5) by (simp add: server_receive_def)
  then show ?thesis using discovery_throws [OF assms(1,2)] by blast
qed

theorem malformed_datagram_ends_manager_witness:
  "\<exists>e s. process_step LockShared (loopback host_a) s
     (ends e (s\<lparr>core := (core s)\<lparr>host := net_with []\<rparr>\<rparr>)) \<and> process_ended s = Running"
proof -
  let ?ms = "[packet_text (example_packet EXIT), ''hello'']"
  let ?s = "(process_start [] (net_with ?ms))\<lparr>discovery_at := DListening 3\<rparr>"
  let ?pk = "\<lambda>i :: nat. if i = 0 then Packet_new else packet_view (example_packet EXIT) Packet_new"
  let ?st = "\<lambda>i :: nat. net_with (drop i ?ms)"
  have skip: "receiver_receive_packet (loopback host_a) 3 (?pk i) (?st i) = (Inr (False, ?pk (Suc i)), ?st (Suc i))"
    if "i < 1" for i
    using that loopback_receive_packet [OF _ sendable_example, of "net_with ?ms" EXIT "[''hello'']" host_a 3 Packet_new]
    by simp
  have hello: "receiver_receive_string (loopback host_a) 3 (?st 1) = (Inr ''hello'', net_with [])"
    using loopback_receive_string [of "net_with [''hello'']" "''hello''" "[]" host_a 3] by (simp add: STR_BUF_SIZE_def)
  have s: "process_ended ?s = Running" "discovery_at ?s = DListening 3" "?st 0 = host (core ?s)"
    by (simp_all add: process_start_def)
  obtain e where "process_step LockShared (loopback host_a) ?s (ends e (?s\<lparr>core := (core ?s)\<lparr>host := net_with []\<rparr>\<rparr>))"
    using malformed_datagram_ends_manager [where n = 1 and pk = ?pk and st = ?st and s = ?s and ctor = LockShared,
        OF s(1,2) skip _ s(3) hello] by (auto simp: FIELD_END_def)
  then show ?thesis using s(1) by (intro exI [of _ e] exI [of _ ?s] conjI)
qed

end
