(* ===== verification/Network.thy ===== *)
theory Network
  imports Kernel Participant_Runs Manager_Process
begin

text \<open>
  The whole system: a manager and any number of participants on a network, all running the
  program of this repository with all their threads, on the kernels of the theory \<open>Kernel\<close>.
  Datagrams are delivered in any order, once, several times or never.
\<close>

section \<open>The network\<close>

record network =
  node :: "nat \<Rightarrow> kernel participant"
  mgr :: "kernel manager_process"

definition node_kernel :: "kernel participant \<Rightarrow> kernel" where
  "node_kernel s = world (os_state s)"

definition mgr_kernel :: "kernel manager_process \<Rightarrow> kernel" where
  "mgr_kernel s = world (host (core s))"

definition boot_process :: "kernel process" where
  "boot_process = \<lparr>global_seqn = 0, world = boot_kernel\<rparr>"

definition net_start :: "(nat \<Rightarrow> string list) \<Rightarrow> string list \<Rightarrow> network" where
  "net_start inputs minput = \<lparr>node = (\<lambda>i. participant_start (inputs i) boot_process),
     mgr = process_start minput boot_process\<rparr>"

text \<open>A datagram that no socket is bound for is dropped.\<close>

definition deliver :: "string \<Rightarrow> uint16 \<Rightarrow> kernel \<Rightarrow> kernel" where
  "deliver m port w = (if port \<in> snd ` set (bound w)
     then w\<lparr>queues := (queues w)(port := queues w port @ [m])\<rparr> else w)"

definition on_wire :: "network \<Rightarrow> string \<Rightarrow> IpAddress \<Rightarrow> uint16 \<Rightarrow> bool" where
  "on_wire N m dest port \<longleftrightarrow> (m, dest, port) \<in> set (sent (mgr_kernel (mgr N)))
     \<or> (\<exists>i. (m, dest, port) \<in> set (sent (node_kernel (node N i))))"

text \<open>
  The participant \<open>i\<close> has the addresses \<open>addr i\<close>, the manager \<open>M\<close>; \<open>ctor\<close> is what the constructor of the
  manager's shared guard calls. A step of a host that would wait in a blocking call is not taken.
\<close>

inductive net_step :: "(lock_name \<Rightarrow> lock_act) \<Rightarrow> (nat \<Rightarrow> NodeAddresses) \<Rightarrow> NodeAddresses \<Rightarrow> network \<Rightarrow> network \<Rightarrow> bool"
  for ctor addr M where
  node_runs: "net_step ctor addr M N (N\<lparr>node := (node N)(i := s)\<rparr>)"
    if "participant_step (kernel_os (addr i)) (node N i) s" and "\<not> stalled (node_kernel s)"
| mgr_runs: "net_step ctor addr M N (N\<lparr>mgr := s\<rparr>)"
    if "process_step ctor (kernel_os M) (mgr N) s" and "\<not> stalled (mgr_kernel s)"
| to_node: "net_step ctor addr M N (N\<lparr>node := (node N)(i := with_world (deliver m port (node_kernel (node N i))) (node N i))\<rparr>)"
    if "on_wire N m dest port" and "dest = ip (addr i) \<or> dest = BROADCAST_IP"
| to_mgr: "net_step ctor addr M N (N\<lparr>mgr := process_world (deliver m port (mgr_kernel (mgr N))) (mgr N)\<rparr>)"
    if "on_wire N m dest port" and "dest = ip M \<or> dest = BROADCAST_IP"

inductive net_reachable ::
    "(lock_name \<Rightarrow> lock_act) \<Rightarrow> (nat \<Rightarrow> NodeAddresses) \<Rightarrow> NodeAddresses \<Rightarrow> network \<Rightarrow> network \<Rightarrow> bool"
  for ctor addr M N0 where
  net_starts: "net_reachable ctor addr M N0 N0"
| net_steps: "net_reachable ctor addr M N0 N \<Longrightarrow> net_step ctor addr M N N' \<Longrightarrow> net_reachable ctor addr M N0 N'"

section \<open>What the hosts send each other\<close>

definition reply_text :: "NodeAddresses \<Rightarrow> string \<Rightarrow> bool" where
  "reply_text M m \<longleftrightarrow> (\<exists>pk. m = packet_text pk \<and> sender_of pk = M \<and> packet_type (body pk) = DISCOVERY)"

abbreviation exit_body :: PacketBody where
  "exit_body \<equiv> PacketBody_new\<lparr>packet_type := EXIT\<rparr>"

text \<open>
  The traffic of the network: participants send discovery requests, managers send responses to them,
  and both send requests to exit. Nothing goes to the ports for wake-up packets and sleep status.
\<close>

definition from_node :: "NodeAddresses \<Rightarrow> string \<Rightarrow> IpAddress \<Rightarrow> uint16 \<Rightarrow> bool" where
  "from_node a m dest port \<longleftrightarrow> port \<in> {DISCOVERY_MANAGER_PORT, EXIT_PORT}
     \<and> (port = DISCOVERY_MANAGER_PORT \<longrightarrow> own_text a PacketBody_new m)
     \<and> (port = EXIT_PORT \<longrightarrow> own_text a exit_body m)"

definition from_manager :: "NodeAddresses \<Rightarrow> string \<Rightarrow> IpAddress \<Rightarrow> uint16 \<Rightarrow> bool" where
  "from_manager M m dest port \<longleftrightarrow> port \<in> {DISCOVERY_PARTICIPANT_PORT, EXIT_PORT}
     \<and> (port = DISCOVERY_PARTICIPANT_PORT \<longrightarrow> reply_text M m)
     \<and> (port = EXIT_PORT \<longrightarrow> own_text M exit_body m)"

definition comes :: "(nat \<Rightarrow> NodeAddresses) \<Rightarrow> NodeAddresses \<Rightarrow> uint16 \<Rightarrow> string \<Rightarrow> bool" where
  "comes addr M port m \<longleftrightarrow> port \<in> {DISCOVERY_MANAGER_PORT, DISCOVERY_PARTICIPANT_PORT, EXIT_PORT}
     \<and> (port = DISCOVERY_MANAGER_PORT \<longrightarrow> (\<exists>i. own_text (addr i) PacketBody_new m))
     \<and> (port = DISCOVERY_PARTICIPANT_PORT \<longrightarrow> reply_text M m)
     \<and> (port = EXIT_PORT \<longrightarrow> own_text M exit_body m \<or> (\<exists>i. own_text (addr i) exit_body m))"

lemmas port_defs = DISCOVERY_MANAGER_PORT_def DISCOVERY_PARTICIPANT_PORT_def EXIT_PORT_def
  WOL_PARTICIPANT_PORT_def SLEEP_STATUS_PORT_def

lemma ports_differ [simp]:
  "DISCOVERY_MANAGER_PORT \<noteq> DISCOVERY_PARTICIPANT_PORT" "DISCOVERY_PARTICIPANT_PORT \<noteq> DISCOVERY_MANAGER_PORT"
  "DISCOVERY_MANAGER_PORT \<noteq> EXIT_PORT" "EXIT_PORT \<noteq> DISCOVERY_MANAGER_PORT"
  "DISCOVERY_PARTICIPANT_PORT \<noteq> EXIT_PORT" "EXIT_PORT \<noteq> DISCOVERY_PARTICIPANT_PORT"
  "WOL_PARTICIPANT_PORT \<noteq> DISCOVERY_PARTICIPANT_PORT"
  by (simp_all add: port_defs)

lemma no_wake_up_comes: "\<not> comes addr M WOL_PARTICIPANT_PORT m"
  by (simp add: comes_def) (simp add: port_defs)

lemma sent_comes: "from_node (addr i) m dest port \<Longrightarrow> comes addr M port m"
  "from_manager M m dest port \<Longrightarrow> comes addr M port m"
  by (auto simp: from_node_def from_manager_def comes_def)

text \<open>What a host of the network makes of such texts: the addresses, without the host name.\<close>

definition nameless :: "NodeAddresses \<Rightarrow> NodeAddresses" where
  "nameless a = a\<lparr>hostname := []\<rparr>"

lemma read_text:
  assumes "plain_host (sender_of pk)"
    and "fst (packet_deserialize q (PacketDeserializer_new (packet_text pk))) = Inr (done, pk')"
  shows "done \<longleftrightarrow> packet_type (body pk) = DISCOVERY"
    and "done \<Longrightarrow> sender_of pk' = nameless (sender_of pk) \<and> packet_type (body pk') = DISCOVERY"
proof -
  have "header_ok (header pk)"
    using plain_host_sendable [of pk] assms(1) by (simp add: sendable_def sender_of_def)
  then have r: "(done, pk') = (packet_type (body pk) = DISCOVERY, packet_view pk q)"
    using packet_deserialize_text [of pk "PacketDeserializer_new (packet_text pk)" q] assms(2)
    by (auto simp: packet_view_def remaining_def PacketDeserializer_new_def)
  then show "done \<longleftrightarrow> packet_type (body pk) = DISCOVERY" by simp
  show "sender_of pk' = nameless (sender_of pk) \<and> packet_type (body pk') = DISCOVERY" if "done"
    using plain_host_view [of pk q] assms(1) r that
    by (simp add: nameless_def sender_of_def) (simp add: packet_view_def)
qed

text \<open>What a descriptor that is bound to a port reads.\<close>

lemma read_comes:
  assumes "read_from (kernel_arrives cs B fd) done pk" and "(fd, port) \<in> B"
  obtains m q where "cs port m" and "fst (packet_deserialize q (PacketDeserializer_new m)) = Inr (done, pk)"
  using assms by (auto simp: read_from_def kernel_arrives_def)

lemma own_text_obtain:
  assumes "own_text a b m"
  obtains pk where "m = packet_text pk" and "sender_of pk = a" and "body pk = b"
  using assms by (fastforce simp: own_text_def sender_of_def)

lemma read_request:
  assumes "read_from (kernel_arrives (comes addr M) B fd) True pk" and "(fd, DISCOVERY_MANAGER_PORT) \<in> B"
    and "\<forall>i. plain_host (addr i)"
  shows "(\<exists>i. sender_of pk = nameless (addr i)) \<and> packet_type (body pk) = DISCOVERY"
proof -
  obtain m q where m: "comes addr M DISCOVERY_MANAGER_PORT m"
    "fst (packet_deserialize q (PacketDeserializer_new m)) = Inr (True, pk)"
    using assms(1,2) by (rule read_comes)
  obtain i where "own_text (addr i) PacketBody_new m" using m(1) by (auto simp: comes_def)
  then obtain pk' where "m = packet_text pk'" "sender_of pk' = addr i" by (rule own_text_obtain)
  then show ?thesis using read_text(2) [of pk' q True pk] m(2) assms(3) by auto
qed

lemma read_reply:
  assumes "read_from (kernel_arrives (comes addr M) B fd) True pk" and "(fd, DISCOVERY_PARTICIPANT_PORT) \<in> B"
    and "plain_host M"
  shows "sender_of pk = nameless M"
proof -
  obtain m q where m: "comes addr M DISCOVERY_PARTICIPANT_PORT m"
    "fst (packet_deserialize q (PacketDeserializer_new m)) = Inr (True, pk)"
    using assms(1,2) by (rule read_comes)
  then obtain pk' where "m = packet_text pk'" "sender_of pk' = M" by (auto simp: comes_def reply_text_def)
  then show ?thesis using read_text(2) [of pk' q True pk] m(2) assms(3) by auto
qed

text \<open>No packet at the port of good-byes is accepted: all of them are of the type \<open>EXIT\<close>.\<close>

lemma read_goodbye:
  assumes "read_from (kernel_arrives (comes addr M) B fd) True pk" and "(fd, EXIT_PORT) \<in> B"
    and "plain_host M" and "\<forall>i. plain_host (addr i)"
  shows False
proof -
  obtain m q where m: "comes addr M EXIT_PORT m"
    "fst (packet_deserialize q (PacketDeserializer_new m)) = Inr (True, pk)"
    using assms(1,2) by (rule read_comes)
  then obtain a where a: "own_text a exit_body m" "plain_host a" using assms(3,4) by (auto simp: comes_def)
  obtain pk' where pk': "m = packet_text pk'" "sender_of pk' = a" "body pk' = exit_body"
    using a(1) by (rule own_text_obtain)
  then show False using read_text(1) [of pk' q True pk] m(2) a(2) by simp
qed

section \<open>The kernels\<close>

lemma kernel_inv_weaken: "kernel_inv self ok cs B w \<Longrightarrow> B' \<subseteq> B \<Longrightarrow> kernel_inv self ok cs B' w"
  by (auto simp: kernel_inv_def)

lemma kernel_inv_close:
  "kernel_inv self ok cs B (world p) \<Longrightarrow> kernel_inv self ok cs {} (world (UdpReceiverSocket_delete (kernel_os self) fd p))"
  "kernel_inv self ok cs B (world p) \<Longrightarrow> kernel_inv self ok cs {} (world (UdpSenderSocket_delete (kernel_os self) fd p))"
  by (auto simp: kernel_inv_def UdpReceiverSocket_delete_def UdpSenderSocket_delete_def sys_effect_def)

text \<open>Closing a socket leaves those that are bound to other ports.\<close>

lemma kernel_inv_close_other:
  assumes "kernel_inv self ok cs (insert (fd, port) B) (world p)" and "\<forall>(fd', port') \<in> B. port' \<noteq> port"
  shows "kernel_inv self ok cs B (world (UdpReceiverSocket_delete (kernel_os self) fd p))"
proof -
  have "fd' \<noteq> fd" if "(fd', port') \<in> B" for fd' port'
    using assms that by (fastforce simp: kernel_inv_def)
  then have "map_of (filter (\<lambda>b. fst b \<noteq> fd) (bound (world p))) fd' = map_of (bound (world p)) fd'"
    if "(fd', port') \<in> B" for fd' port'
    using that by (simp add: map_of_filter_other)
  then show ?thesis
    using assms(1) by (fastforce simp: kernel_inv_def UdpReceiverSocket_delete_def sys_effect_def)
qed

text \<open>A new receiver socket is bound to its port.\<close>

lemma receiver_new_bound:
  assumes "UdpReceiverSocket_new (kernel_os self) port p = (Inr fd, q)"
    and "kernel_inv self ok cs B (world p)"
  shows "kernel_inv self ok cs (insert (fd, port) B) (world q)"
proof -
  have "kernel_inv self ok cs B (world q)"
    using givesD(1) [OF kernel.gives_receiver_new assms(2) assms(1)] .
  moreover have "map_of (bound (world q)) fd = Some port"
    using assms(1) by (auto simp: UdpReceiverSocket_new_def andthen_sys andthen_assoc kernel_bind_def
        throw_io_def throw_def ret_def split: if_splits)
  ultimately show ?thesis by (simp add: kernel_inv_def)
qed

lemma kernel_inv_deliver:
  assumes "kernel_inv self ok cs B w" and "cs port m" and "length m \<le> 65507"
  shows "kernel_inv self ok cs B (deliver m port w)"
  using assms by (simp add: kernel_inv_def deliver_def)

section \<open>Participants\<close>

text \<open>The sockets a participant has: for the manager's response, for the answer to its good-bye and for
  wake-up packets.\<close>

fun waits_on :: "main_pc \<Rightarrow> (int \<times> uint16) set" where
  "waits_on (MAwait x fd req receiver packet) =
     {(receiver, if x = Joining then DISCOVERY_PARTICIPANT_PORT else EXIT_PORT)}"
| "waits_on (MAnswered x fd receiver packet) = {(receiver, DISCOVERY_PARTICIPANT_PORT)}"
| "waits_on _ = {}"

fun handler_waits :: "handler_pc \<Rightarrow> (int \<times> uint16) set" where
  "handler_waits (HAwait req receiver packet) = {(receiver, EXIT_PORT)}"
| "handler_waits _ = {}"

fun wol_waits :: "wol_pc \<Rightarrow> (int \<times> uint16) set" where
  "wol_waits (WListening fd) = {(fd, WOL_PARTICIPANT_PORT)}"
| "wol_waits _ = {}"

text \<open>
  What it has in its hands: requests it may send, and the addresses of the manager \<open>M\<close>. It never
  has an answer to a good-bye.
\<close>

fun main_ok :: "NodeAddresses \<Rightarrow> NodeAddresses \<Rightarrow> main_pc \<Rightarrow> bool" where
  "main_ok a M (MAwait x fd req receiver packet) =
     (from_node a (sent_packet req) (dest_ip_address req) (dest_port req)
      \<and> (\<forall>b. x = Leaving b \<longrightarrow> b = nameless M))"
| "main_ok a M (MAnswered x fd receiver packet) = (x = Joining \<and> sender_of packet = nameless M)"
| "main_ok a M (MConnected fd b) = (b = nameless M)"
| "main_ok a M (MLoop fd b) = (b = nameless M)"
| "main_ok a M (MLeave fd b) = (b = nameless M)"
| "main_ok a M (MDone fd) = False"
| "main_ok a M _ = True"

fun handler_keeps :: "NodeAddresses \<Rightarrow> handler_pc \<Rightarrow> bool" where
  "handler_keeps a (HAwait req receiver packet) = from_node a (sent_packet req) (dest_ip_address req) (dest_port req)"
| "handler_keeps a HDone = False"
| "handler_keeps a _ = True"

definition handlers_wait :: "kernel participant \<Rightarrow> (int \<times> uint16) set" where
  "handlers_wait s = (\<Union>t. handler_waits (handler_at s t))"

definition node_waits :: "kernel participant \<Rightarrow> (int \<times> uint16) set" where
  "node_waits s = 
     (if ended s = Running then waits_on (main_at s) \<union> handlers_wait s \<union> wol_waits (wol_at s) else {})"

definition clean_exit :: "process_state \<Rightarrow> bool" where
  "clean_exit e \<longleftrightarrow> (\<exists>code. e = Exited code)"

definition node_ok :: "(nat \<Rightarrow> NodeAddresses) \<Rightarrow> NodeAddresses \<Rightarrow> nat \<Rightarrow> kernel participant \<Rightarrow> bool" where
  "node_ok addr M i s \<longleftrightarrow>
     kernel_inv (addr i) (from_node (addr i)) (comes addr M) (node_waits s) (node_kernel s)
     \<and> main_ok (addr i) M (main_at s) \<and> (\<forall>t. handler_keeps (addr i) (handler_at s t))
     \<and> \<not> clean_exit (ended s)"

lemma clean_exit_simps [simp]: "\<not> clean_exit Running" "\<not> clean_exit Killed" "\<not> clean_exit (Terminated e)"
  "clean_exit (Exited code)"
  by (simp_all add: clean_exit_def)

text \<open>The requests of a participant may be sent.\<close>

lemma requests_from_node:
  "own_text a PacketBody_new m \<Longrightarrow> from_node a m dest DISCOVERY_MANAGER_PORT"
  "own_text a exit_body m \<Longrightarrow> from_node a m dest EXIT_PORT"
  by (simp_all add: from_node_def port_defs)

lemma discovery_body_new [simp]: "PacketBody_new\<lparr>packet_type := DISCOVERY\<rparr> = PacketBody_new"
  by (simp add: PacketBody_new_def)

text \<open>Saying good-bye: the request is sent, the socket for the answer is bound to its port.\<close>

lemma exit_request_bound:
  assumes "exit_request (kernel_os a) dest next_pc p = (Inr pc, q)"
    and "kernel_inv a (from_node a) cs B (world p)"
  obtains req receiver where "pc = next_pc req receiver"
    and "from_node a (sent_packet req) (dest_ip_address req) (dest_port req)"
    and "kernel_inv a (from_node a) cs (insert (receiver, EXIT_PORT) B) (world q)"
proof -
  obtain p1 req receiver where steps: "client_request_op (kernel_os a) exit_body dest EXIT_PORT p = (Inr req, p1)"
    "UdpReceiverSocket_new (kernel_os a) EXIT_PORT p1 = (Inr receiver, q)" "pc = next_pc req receiver"
    using assms(1) by (auto simp: exit_request_def andthen_result_Inr Let_def ret_def)
  have "kernel_inv a (from_node a) cs B (world p1)" "own_text a exit_body (sent_packet req)" "dest_port req = EXIT_PORT"
    using givesD [OF kernel.gives_client_request assms(2) steps(1)] by (auto simp: requests_from_node)
  then show thesis using that [OF steps(3)] receiver_new_bound [OF steps(2)] requests_from_node(2) by simp
qed

text \<open>Whatever the main thread calls, the kernel's invariant is kept, also when the call fails.\<close>

lemma node_main_fails:
  assumes "main_io (kernel_os a) pc = Some c" and "c p = (Inl e, q)"
    and "kernel_inv a (from_node a) cs B (world p)" and "main_ok a M pc"
  shows "kernel_inv a (from_node a) cs {} (world q)"
proof -
  have I: "kernel_inv a (from_node a) cs {} (world p)" using assms(3) by (rule kernel_inv_weaken) simp
  note send = kernel.gives_client_request [where self = a and ok = "from_node a" and comes = cs and B = "{}"]
  show ?thesis
    using assms(1)
  proof (cases "(kernel_os a, pc)" rule: main_io.cases)
    case (1 E)
    then have "gives (kernel_inv a (from_node a) cs {}) c (\<lambda>_. True)"
      using assms(1) by (auto simp: ClientSocket_new_def intro!: gives_andthen [OF kernel.gives_sender_new] gives_ret)
    then show ?thesis using givesD(1) I assms(2) by blast
  next
    case (2 E fd)
    then have "gives (kernel_inv a (from_node a) cs {}) c (\<lambda>_. True)"
      using assms(1)
      by (auto simp: discovery_request_def client_enable_broadcast_def Let_def requests_from_node
          intro!: gives_andthen [OF kernel.gives_sender_broadcast] gives_andthen [OF send]
            gives_andthen [OF kernel.gives_receiver_new] gives_ret)
    then show ?thesis using givesD(1) I assms(2) by blast
  next
    case (3 E x fd req receiver packet)
    then have "gives (kernel_inv a (from_node a) cs {}) c (\<lambda>_. True)"
      using assms(1,4)
      by (auto intro!: gives_andthen [OF kernel.gives_response_round] gives_pair gives_ret)
    then show ?thesis using givesD(1) I assms(2) by blast
  next
    case (4 E fd receiver response)
    then show ?thesis
      using assms(1,2) I
      by (auto simp: client_enable_broadcast_def andthen_result_Inl ret_def
          dest!: givesD(1) [OF kernel.gives_sender_broadcast [where B = "{}"], rotated] intro: kernel_inv_close)
  next
    case (5 E fd b)
    then have "gives (kernel_inv a (from_node a) cs {}) c (\<lambda>_. True)"
      using assms(1)
      by (auto simp: exit_request_def Let_def requests_from_node
          intro!: gives_andthen [OF send] gives_andthen [OF kernel.gives_receiver_new] gives_ret)
    then show ?thesis using givesD(1) I assms(2) by blast
  next
    case (6 E b fd receiver response)
    then show ?thesis using assms(4) by simp
  qed auto
qed

text \<open>
  \<open>B\<close> are the sockets of the other threads; before the manager is known none of them is bound to
  the port of discovery responses.
\<close>

lemma node_main_succeeds:
  assumes "main_io (kernel_os a) pc = Some c" and "c p = (Inr pc', q)"
    and "kernel_inv a (from_node a) (comes addr M) (waits_on pc \<union> B) (world p)" and "main_ok a M pc"
    and "plain_host M" and "\<forall>i. plain_host (addr i)" and "\<forall>(fd, port) \<in> B. port \<noteq> DISCOVERY_PARTICIPANT_PORT"
  shows "kernel_inv a (from_node a) (comes addr M) (waits_on pc' \<union> B) (world q) \<and> main_ok a M pc'"
proof -
  let ?I = "kernel_inv a (from_node a) (comes addr M)"
  have I: "?I B (world p)" using assms(3) by (rule kernel_inv_weaken) simp
  show ?thesis
    using assms(1)
  proof (cases "(kernel_os a, pc)" rule: main_io.cases)
    case (1 E)
    then have "gives (?I B) c (\<lambda>pc. waits_on pc = {} \<and> main_ok a M pc)"
      using assms(1) by (auto simp: ClientSocket_new_def intro!: gives_andthen [OF kernel.gives_sender_new] gives_ret)
    from gives_result [OF this assms(2) I] show ?thesis by simp
  next
    case (2 E fd)
    then have c: "c = discovery_request (kernel_os a) fd" using assms(1) by simp
    obtain p1 p2 req r where steps: "client_enable_broadcast (kernel_os a) fd True p = (Inr (), p1)"
      "client_request_op (kernel_os a) PacketBody_new [255, 255, 255, 255] DISCOVERY_MANAGER_PORT p1 = (Inr req, p2)"
      "UdpReceiverSocket_new (kernel_os a) DISCOVERY_PARTICIPANT_PORT p2 = (Inr r, q)"
      "pc' = MAwait Joining fd req r Packet_new"
      using assms(2) by (auto simp: c discovery_request_def andthen_result_Inr Let_def ret_def)
    have p1: "?I B (world p1)"
      using givesD(1) [OF kernel.gives_sender_broadcast I] steps(1) by (simp add: client_enable_broadcast_def)
    have p2: "?I B (world p2)" "own_text a PacketBody_new (sent_packet req)"
      "dest_port req = DISCOVERY_MANAGER_PORT"
      using givesD [OF kernel.gives_client_request p1 steps(2)] by (auto simp: requests_from_node)
    then have "from_node a (sent_packet req) (dest_ip_address req) (dest_port req)"
      by (simp add: requests_from_node)
    then show ?thesis using receiver_new_bound [OF steps(3) p2(1)] steps(4) by simp
  next
    case (3 E x fd req receiver packet)
    let ?W = "waits_on pc \<union> B"
    have gives: "gives (?I ?W) (response_round (kernel_os a) req DEFAULT_TRY_US receiver packet)
        (\<lambda>(done, pk). done \<longrightarrow> read_from (kernel_arrives (comes addr M) ?W receiver) True pk)"
      using assms(4) 3 by (intro kernel.gives_response_round) simp
    obtain d pk where round: "response_round (kernel_os a) req DEFAULT_TRY_US receiver packet p = (Inr (d, pk), q)"
      "pc' = (if d then MAnswered x fd receiver pk else MAwait x fd req receiver pk)"
      using 3 assms(1,2) by (auto simp: andthen_result_Inr ret_def)
    have q: "?I ?W (world q)" "d \<Longrightarrow> read_from (kernel_arrives (comes addr M) ?W receiver) True pk"
      using gives_result [OF gives round(1) assms(3)] by simp_all
    have joined: "x = Joining \<and> sender_of pk = nameless M" if d
    proof (cases "x = Joining")
      case True
      then show ?thesis using read_reply [OF q(2) [OF that] _ assms(5)] 3 by simp
    next
      case False
      then show ?thesis using read_goodbye [OF q(2) [OF that] _ assms(5,6)] 3 by simp
    qed
    show ?thesis
    proof (cases d)
      case True
      then show ?thesis using q(1) round(2) joined 3 by simp
    next
      case False
      then show ?thesis using q(1) round(2) assms(4) 3 by simp
    qed
  next
    case (4 E fd receiver response)
    obtain q1 where q1: "client_enable_broadcast (kernel_os a) fd False
        (UdpReceiverSocket_delete (kernel_os a) receiver p) = (Inr (), q)"
      "pc' = MConnected fd (sender_of response)"
      using 4 assms(1,2) by (auto simp: andthen_result_Inr ret_def sender_of_def)
    have "?I B (world (UdpReceiverSocket_delete (kernel_os a) receiver p))"
      using assms(3) 4 by (intro kernel_inv_close_other [OF _ assms(7)]) simp
    then have "?I B (world q)"
      using givesD(1) [OF kernel.gives_sender_broadcast] q1(1) by (simp add: client_enable_broadcast_def)
    then show ?thesis using q1(2) 4 assms(4) by simp
  next
    case (5 E fd b)
    then have "exit_request (kernel_os a) (ip b) (\<lambda>request receiver.
        MAwait (Leaving b) fd request receiver Packet_new) p = (Inr pc', q)"
      using assms(1,2) by simp
    then obtain req receiver where "pc' = MAwait (Leaving b) fd req receiver Packet_new"
      "from_node a (sent_packet req) (dest_ip_address req) (dest_port req)"
      "?I (insert (receiver, EXIT_PORT) B) (world q)"
      using I by (rule exit_request_bound)
    then show ?thesis using assms(4) 5 by simp
  next
    case (6 E b fd receiver response)
    then show ?thesis using assms(4) by simp
  qed auto
qed

text \<open>The listener for wake-up packets and the signal handlers.\<close>

text \<open>No wake-up packet ever comes: the listener waits, and a call that does return throws.\<close>

lemma wol_listener_waits:
  assumes "kernel_inv a ok (comes addr M) B (world p)" and "(fd, WOL_PARTICIPANT_PORT) \<in> B"
  shows "\<exists>e q. handle_wol (kernel_os a) fd dest port p = (Inl e, q) \<and> kernel_inv a ok (comes addr M) B (world q)"
proof -
  have bound: "map_of (bound (world p)) fd = Some WOL_PARTICIPANT_PORT"
    using assms by (auto simp: kernel_inv_def)
  have none: "queues (world p) WOL_PARTICIPANT_PORT = []"
    using kernel_waiting [OF assms(1)] no_wake_up_comes [of addr M] by (metis list.set_intros(1) neq_Nil_conv)
  let ?q = "p\<lparr>world := (world p)\<lparr>kernel_errno := 11\<rparr>\<rparr>"
    and ?r = "p\<lparr>world := (world p)\<lparr>kernel_errno := 4, stalled := True\<rparr>\<rparr>"
  have "receive_with_block_type (kernel_os a) fd n BLOCKING p =
      (if nonblocking (world p) fd then (Inr None, ?q) else throw_io (kernel_os a) ''recvfrom'' ?r)" for n
    using bound none
    by (simp add: receive_with_block_type_def andthen_assoc andthen_sys kernel_receive_def prog_simps)
  then have "\<exists>e q. receiver_receive (kernel_os a) fd n p = (Inl e, q) \<and> q \<in> {?q, ?r}" for n
    by (cases "nonblocking (world p) fd") (simp_all add: receiver_receive_def andthen_def throw_io_def throw_def)
  then obtain e q where "receiver_receive (kernel_os a) fd MAGIC_PACKET_SIZE p = (Inl e, q)" "q \<in> {?q, ?r}"
    by blast
  moreover from this have "kernel_inv a ok (comes addr M) B (world q)"
    using assms(1) by (auto simp: kernel_inv_def)
  ultimately show ?thesis by (auto simp: handle_wol_def andthen_Inl)
qed

lemma node_wol:
  assumes "wol_io (kernel_os a) pc = Some c" and "c p = (r, q)"
    and "kernel_inv a (from_node a) (comes addr M) (wol_waits pc \<union> B) (world p)"
  shows "kernel_inv a (from_node a) (comes addr M) B (world q)
    \<and> (\<forall>pc'. r = Inr pc' \<longrightarrow> kernel_inv a (from_node a) (comes addr M) (wol_waits pc' \<union> B) (world q))"
proof -
  let ?I = "kernel_inv a (from_node a) (comes addr M)"
  show ?thesis
    using assms(1)
  proof (cases "(kernel_os a, pc)" rule: wol_io.cases)
    case (1 E)
    then have I: "?I B (world p)" using assms(3) by simp
    have "gives (?I B) c (\<lambda>_. True)"
      using assms(1) 1
      by (auto simp: ServerSocket_new_def server_enable_broadcast_def
        intro!: gives_andthen [OF kernel.gives_receiver_new] gives_andthen [OF kernel.gives_receiver_broadcast] gives_ret)
    then have q: "?I B (world q)" using givesD(1) assms(2) I by blast
    moreover have "?I (wol_waits pc' \<union> B) (world q)" if pc': "r = Inr pc'" for pc'
    proof -
      obtain fd p1 where steps: "UdpReceiverSocket_new (kernel_os a) WOL_PARTICIPANT_PORT p = (Inr fd, p1)"
        "receiver_enable_broadcast (kernel_os a) fd True p1 = (Inr (), q)" "pc' = WListening fd"
        using assms(1,2) 1 pc' by (auto simp: ServerSocket_new_def server_enable_broadcast_def andthen_result_Inr ret_def)
      show ?thesis
        using givesD(1) [OF kernel.gives_receiver_broadcast receiver_new_bound [OF steps(1) I] steps(2)] steps(3) by simp
    qed
    ultimately show ?thesis by blast
  next
    case (2 E fd)
    let ?c = "handle_wol (kernel_os a) fd [255, 255, 255, 255] WOL_PARTICIPANT_PORT"
    have c: "c = andthen ?c (\<lambda>_. ret (WListening fd))" "pc = WListening fd" using assms(1) 2 by simp_all
    obtain e q' where q': "?c p = (Inl e, q')" "?I (wol_waits pc \<union> B) (world q')"
      using wol_listener_waits [OF assms(3), of fd "[255, 255, 255, 255]" WOL_PARTICIPANT_PORT] c(2) by auto
    then have "c p = (Inl e, q')" by (simp add: c(1) andthen_Inl)
    then have "r = Inl e" "q = q'" using assms(2) by simp_all
    then show ?thesis using kernel_inv_weaken [OF q'(2), of B] by auto
  qed auto
qed

text \<open>A handler never gets an answer, so it never comes to its end.\<close>

lemma node_handler_fails:
  assumes "handler_io (kernel_os a) dest pc = Some c" and "c p = (Inl e, q)"
    and "kernel_inv a (from_node a) cs B (world p)" and "handler_keeps a pc"
  shows "kernel_inv a (from_node a) cs {} (world q)"
proof -
  let ?I = "kernel_inv a (from_node a) cs {}"
  have close: "gives ?I (modify (UdpReceiverSocket_delete (kernel_os a) fd)) (\<lambda>_. True)" for fd
    using kernel_inv_close(1) by (simp add: gives_def modify_def)
  have "gives ?I c (\<lambda>_. True)"
    using assms(1,4)
    by (cases "(kernel_os a, dest, pc)" rule: handler_io.cases)
      (auto simp: ClientSocket_new_def exit_request_def Let_def requests_from_node
        intro!: gives_andthen [OF kernel.gives_sender_new] gives_andthen [OF kernel.gives_client_request]
          gives_andthen [OF kernel.gives_receiver_new] gives_andthen [OF kernel.gives_response_round]
          gives_andthen [OF close] gives_pair gives_if gives_ret)
  moreover have "?I (world p)" using assms(3) by (rule kernel_inv_weaken) simp
  ultimately show ?thesis using givesD(1) assms(2) by blast
qed

lemma node_handler_succeeds:
  assumes "handler_io (kernel_os a) dest pc = Some c" and "c p = (Inr pc', q)"
    and "kernel_inv a (from_node a) (comes addr M) (handler_waits pc \<union> B) (world p)" and "handler_keeps a pc"
    and "plain_host M" and "\<forall>i. plain_host (addr i)"
  shows "kernel_inv a (from_node a) (comes addr M) (handler_waits pc' \<union> B) (world q) \<and> handler_keeps a pc'"
proof -
  let ?I = "kernel_inv a (from_node a) (comes addr M)"
  show ?thesis
  proof (cases "(kernel_os a, dest, pc)" rule: handler_io.cases)
    case (1 E addr')
    then obtain fd p1 where steps: "ClientSocket_new (kernel_os a) p = (Inr fd, p1)"
      "exit_request (kernel_os a) dest (\<lambda>request receiver. HAwait request receiver Packet_new) p1 = (Inr pc', q)"
      using assms(1,2) by (auto simp: andthen_result_Inr)
    have "?I B (world p)" using assms(3) by (rule kernel_inv_weaken) simp
    then have "?I B (world p1)"
      using givesD(1) [OF kernel.gives_sender_new] steps(1) by (simp add: ClientSocket_new_def)
    from exit_request_bound [OF steps(2) this] show ?thesis by (metis handler_keeps.simps(1) handler_waits.simps(1)
        insert_is_Un)
  next
    case (2 E addr' req receiver packet)
    let ?W = "handler_waits pc \<union> B"
    have gives: "gives (?I ?W) (response_round (kernel_os a) req DEFAULT_TRY_US receiver packet)
        (\<lambda>(done, pk). done \<longrightarrow> read_from (kernel_arrives (comes addr M) ?W receiver) True pk)"
      using assms(4) 2 by (intro kernel.gives_response_round) simp
    obtain d pk q1 where round: "response_round (kernel_os a) req DEFAULT_TRY_US receiver packet p = (Inr (d, pk), q1)"
      "\<not> d \<Longrightarrow> pc' = HAwait req receiver pk \<and> q = q1"
      using 2 assms(1,2) by (auto simp: andthen_result_Inr ret_def split: if_splits)
    have q: "?I ?W (world q1)" "d \<Longrightarrow> read_from (kernel_arrives (comes addr M) ?W receiver) True pk"
      using gives_result [OF gives round(1) assms(3)] by simp_all
    have "\<not> d" using read_goodbye [OF q(2) _ assms(5,6)] 2 by auto
    then show ?thesis using q(1) round(2) assms(4) 2 by simp
  qed (use assms(1) in auto)
qed

text \<open>The sockets of the handlers, when one of them moves.\<close>

definition others_wait :: "kernel participant \<Rightarrow> participant_thread \<Rightarrow> (int \<times> uint16) set" where
  "others_wait s t = (\<Union>t' \<in> UNIV - {t}. handler_waits (handler_at s t'))"

lemma handlers_wait_split:
  "handlers_wait s = handler_waits (handler_at s t) \<union> others_wait s t"
  "handler_at s' = (handler_at s)(t := pc) \<Longrightarrow> handlers_wait s' = handler_waits pc \<union> others_wait s t"
  by (auto simp: handlers_wait_def others_wait_def split: if_splits)

lemma handlers_wait_port: "(fd, port) \<in> handlers_wait s \<Longrightarrow> port = EXIT_PORT"
proof -
  have "(fd, port) \<in> handler_waits pc \<Longrightarrow> port = EXIT_PORT" for pc by (cases pc) simp_all
  then show "(fd, port) \<in> handlers_wait s \<Longrightarrow> port = EXIT_PORT" by (auto simp: handlers_wait_def)
qed

lemma node_ok_step:
  assumes "participant_step (kernel_os (addr i)) s s'" and "node_ok addr M i s" and "plain_host M"
    and "\<forall>i. plain_host (addr i)"
  shows "node_ok addr M i s'"
proof -
  let ?a = "addr i"
  let ?I = "kernel_inv ?a (from_node ?a) (comes addr M)"
  have ok: "?I (node_waits s) (world (os_state s))" "main_ok ?a M (main_at s)"
    "\<And>t. handler_keeps ?a (handler_at s t)" "\<not> clean_exit (ended s)"
    using assms(2) by (simp_all add: node_ok_def node_kernel_def)
  have running: "node_waits s = waits_on (main_at s) \<union> (handlers_wait s \<union> wol_waits (wol_at s))"
    if "ended s = Running"
    using that by (auto simp: node_waits_def)
  have others: "\<forall>(fd, port) \<in> handlers_wait s \<union> wol_waits w. port \<noteq> DISCOVERY_PARTICIPANT_PORT" for w
    by (cases w) (auto dest!: handlers_wait_port)
  have same: "handlers_wait (s\<lparr>main_at := pc, os_state := p, wol_at := w\<rparr>) = handlers_wait s"
    "handlers_wait (s\<lparr>wol_at := w, os_state := p\<rparr>) = handlers_wait s" for pc p w
    by (simp_all add: handlers_wait_def)
  show ?thesis
    using assms(1)
  proof (cases rule: participant_step.cases)
    case (main_calls c pc p)
    have r: "ended s = Running" using main_calls(2) by (simp add: runs_def)
    let ?B = "handlers_wait s \<union> wol_waits (wol_at s)"
    have I: "?I (waits_on pc \<union> ?B) (world p)" and pc: "main_ok ?a M pc"
      using node_main_succeeds [OF main_calls(3,4) _ ok(2) assms(3,4) others] ok(1) running [OF r] by simp_all
    have "node_waits s' \<subseteq> waits_on pc \<union> ?B"
      using main_calls(1) r by (auto simp: node_waits_def same)
    then have "?I (node_waits s') (world p)" by (rule kernel_inv_weaken [OF I])
    then show ?thesis
      using main_calls(1) ok pc r by (simp add: node_ok_def node_kernel_def)
  next
    case (main_throws c e p)
    have "?I {} (world p)" using node_main_fails [OF main_throws(3,4) ok(1,2)] .
    then show ?thesis
      using main_throws(1) ok by (simp add: node_ok_def node_waits_def node_kernel_def)
  next
    case (main_returns fd)
    then show ?thesis using ok(2) by simp
  next
    case (wol_calls c pc p)
    have r: "ended s = Running" using wol_calls(2) by (simp add: runs_def)
    let ?B = "waits_on (main_at s) \<union> handlers_wait s"
    have "?I (wol_waits (wol_at s) \<union> ?B) (world (os_state s))"
      using ok(1) running [OF r] by (simp add: Un_ac)
    then have "?I (wol_waits pc \<union> ?B) (world p)" using node_wol [OF wol_calls(3,4)] by blast
    moreover have "node_waits s' = wol_waits pc \<union> ?B"
      using wol_calls(1) r by (auto simp: node_waits_def same)
    ultimately show ?thesis
      using wol_calls(1) ok r by (simp add: node_ok_def node_kernel_def)
  next
    case (wol_throws c e p)
    have "?I (wol_waits (wol_at s) \<union> {}) (world (os_state s))"
      by (rule kernel_inv_weaken [OF ok(1)]) (use wol_throws(2) running in \<open>auto simp: runs_def\<close>)
    then have "?I {} (world p)" using node_wol [OF wol_throws(3,4)] by blast
    then show ?thesis
      using wol_throws(1) ok by (simp add: node_ok_def node_waits_def node_kernel_def)
  next
    case (interrupted t)
    have r: "ended s = Running" "handler_at s t = HIdle" using interrupted(2) by (simp_all add: runs_def)
    have "handlers_wait s' = handlers_wait s"
      using interrupted(1) r(2) handlers_wait_split(1) [of s t] handlers_wait_split(2) [of s' s t HBegin] by simp
    then show ?thesis
      using interrupted(1) ok r by (auto simp: node_ok_def node_waits_def node_kernel_def)
  next
    case (handler_calls t c pc p)
    let ?B = "waits_on (main_at s) \<union> others_wait s t \<union> wol_waits (wol_at s)"
    have "?I (handler_waits (handler_at s t) \<union> ?B) (world (os_state s))"
      using ok(1) running [OF handler_calls(2)] handlers_wait_split(1) [of s t] by (simp add: Un_ac)
    then have "?I (handler_waits pc \<union> ?B) (world p) \<and> handler_keeps ?a pc"
      using node_handler_succeeds [OF handler_calls(3,4) _ ok(3) assms(3,4)] by blast
    moreover have "node_waits s' = handler_waits pc \<union> ?B"
      using handler_calls(1,2) handlers_wait_split(2) [of s' s t pc]
      by (simp add: node_waits_def Un_ac)
    ultimately show ?thesis
      using handler_calls(1,2) ok by (simp add: node_ok_def node_kernel_def)
  next
    case (handler_throws t c e p)
    have "?I {} (world p)" using node_handler_fails [OF handler_throws(3,4) ok(1,3)] .
    then show ?thesis
      using handler_throws(1) ok by (simp add: node_ok_def node_waits_def node_kernel_def)
  next
    case (handler_exits t)
    then show ?thesis using ok(3) [of t] by simp
  qed (use ok kernel_inv_weaken [OF ok(1), of "{}"] in
      \<open>auto simp: node_ok_def node_waits_def node_kernel_def runs_def handlers_wait_def\<close>)
qed

section \<open>The manager\<close>

fun mgr_waits_on :: "discovery_pc \<Rightarrow> (int \<times> uint16) set" where
  "mgr_waits_on DBegin = {}"
| "mgr_waits_on (DListening fd) = {(fd, DISCOVERY_MANAGER_PORT)}"

text \<open>The addresses of the participants, as the manager gets to know them.\<close>

definition known_as :: "(nat \<Rightarrow> NodeAddresses) \<Rightarrow> NodeAddresses \<Rightarrow> bool" where
  "known_as addr a \<longleftrightarrow> (\<exists>i. a = nameless (addr i))"

definition request_ok :: "(nat \<Rightarrow> NodeAddresses) \<Rightarrow> response_thread \<Rightarrow> bool" where
  "request_ok addr t \<longleftrightarrow> (\<forall>packet. thread_packet t = Some packet \<longrightarrow>
     known_as addr (sender_of packet) \<and> packet_type (body packet) = DISCOVERY)"

definition table_ok :: "(nat \<Rightarrow> NodeAddresses) \<Rightarrow> 'x ManagementService \<Rightarrow> bool" where
  "table_ok addr s \<longleftrightarrow> ms_inv s 
     \<and> (\<forall>n \<in> participants s. known_as addr (addresses s n) \<and> status s n = AWAKEN)"

definition mgr_ok :: "(nat \<Rightarrow> NodeAddresses) \<Rightarrow> NodeAddresses \<Rightarrow> kernel manager_process \<Rightarrow> bool" where
  "mgr_ok addr M s \<longleftrightarrow>
     kernel_inv M (from_manager M) (comes addr M) (mgr_waits_on (discovery_at s)) (mgr_kernel s)
     \<and> list_all (request_ok addr) (responders s) \<and> no_requests (monitor_at s) \<and> table_ok addr (table_of s)"

text \<open>The operations on the table.\<close>

lemma table_ok_enroll:
  assumes "table_ok addr s" and "known_as addr a"
  shows "table_ok addr (snd (enroll a AWAKEN s))"
  using assms enroll_participants [where s = s and a = a and st = AWAKEN] by (fastforce simp: table_ok_def)

lemma table_ok_remove:
  assumes "table_ok addr s"
  shows "table_ok addr (snd (remove_by_mac_address m s))"
proof (cases "get_by_mac_address m s")
  case None
  then show ?thesis using assms by (simp add: remove_by_mac_unknown)
next
  case (Some n)
  have inv: "ms_inv s" using assms by (simp add: table_ok_def)
  have r: "snd (remove_by_mac_address m s) = on_remove n (forget n s)"
    using remove_by_mac_known [OF inv Some] by simp
  have n: "n \<in> participants s" using lookups_are_participants(1) [OF inv Some] .
  show ?thesis
    using assms ms_inv_forget [OF inv n] participants_forget [OF inv n]
    by (simp add: table_ok_def r on_remove_def service_simps)
qed

lemma table_ok_line:
  assumes "table_ok addr s" and "handle_line l s t = (s', t')"
  shows "table_ok addr s'"
proof -
  have "s' = s \<or> s' = snd (wakeup (snd (parse_command l)) s)"
    using handle_line_cases [OF assms(2)] by (auto simp: prod_eq_iff split: if_splits)
  moreover have "table_ok addr (snd (wakeup h s))" for h
    using assms(1) ms_inv_updates(2) [of s h]
    by (auto simp: table_ok_def wakeup_def service_simps split: option.split)
  ultimately show ?thesis using assms(1) by auto
qed

lemma table_ok_outside [simp]:
  "table_ok addr (s\<lparr>outside := c\<rparr>) = table_ok addr s"
  "table_ok addr (s\<lparr>event_handlers := hs\<rparr>) = table_ok addr s"
  by (simp_all add: table_ok_def inv_defs addresses_def status_def)

lemma table_ok_start: "table_ok addr s \<Longrightarrow> table_ok addr (manager_interface_start s)"
  by (simp add: manager_interface_start_def register_event_handler_def Let_def)

lemma table_ok_round: "table_ok addr s \<Longrightarrow> interface_round s = Some (t, r) \<Longrightarrow> table_ok addr t"
  by (auto simp: interface_round_def Let_def split: prod.splits received.splits ManagerIfaceMsg.splits)

lemma table_ok_end: "table_ok addr s \<Longrightarrow> manager_input_thread [] s c = (t, c') \<Longrightarrow> table_ok addr t"
  by (auto simp: manager_input_thread_def handle_manager_input_def)

text \<open>The calls of the monitoring thread, the responses and the signal handler.\<close>

lemma on_host_gives:
  assumes "gives I c Q" and "on_host c m = (r, m')" and "I (world (host m))"
  shows "I (world (host m')) \<and> service m' = service m \<and> (\<forall>x. r = Inr x \<longrightarrow> Q x)"
  using gives_result [OF assms(1) _ assms(3)] assms(2) by (auto simp: on_host_def split: prod.splits)

lemma mgr_monitor:
  assumes "monitor_io (kernel_os M) pc m = (r, m')" and "no_requests pc"
    and "kernel_inv M (from_manager M) cs B (world (host m))" and "table_ok addr (service m)"
  shows "kernel_inv M (from_manager M) cs B (world (host m')) \<and> table_ok addr (service m')"
proof -
  let ?I = "kernel_inv M (from_manager M) cs B"
  show ?thesis
  proof (cases "(kernel_os M, pc)" rule: monitor_io.cases)
    case (1 E)
    have g: "gives ?I (ClientSocket_new (kernel_os M)) (\<lambda>_. True)"
      "gives ?I (ServerSocket_new (kernel_os M) EXIT_PORT) (\<lambda>_. True)"
      using gives_weaken [OF kernel.gives_sender_new] gives_weaken [OF kernel.gives_receiver_new]
      by (simp_all add: ClientSocket_new_def ServerSocket_new_def)
    show ?thesis
    proof (cases r)
      case (Inl e)
      then show ?thesis
        using assms 1 by (auto simp: andthen_result_Inl ret_def dest!: on_host_gives [OF g(1)] on_host_gives [OF g(2)])
    next
      case (Inr x)
      then show ?thesis
        using assms 1 by (auto simp: andthen_result_Inr ret_def dest!: on_host_gives [OF g(1)] on_host_gives [OF g(2)])
    qed
  next
    case (2 E fd)
    have same: "poll_requests (kernel_os M) (participant_list s) m = (x, m'') \<Longrightarrow> m'' = m" for s x m''
      by (cases "mac_address_index s")
        (auto simp: participant_list_def ret_def undefined_behaviour_def throw_def)
    have "m' = m"
      using assms(1) 2 by (auto simp: andthen_def gets_def ret_def dest: same split: prod.splits sum.splits)
    then show ?thesis using assms(3,4) by simp
  next
    case (3 E fd requests)
    then show ?thesis using assms by (auto simp: no_requests_def ret_def)
  next
    case (4 E fd)
    note g = gives_weaken [OF kernel.gives_server_try_receive [where self = M and ok = "from_manager M" and comes = cs and B = B], of fd "\<lambda>_. True"]
    show ?thesis
    proof (cases r)
      case (Inl e)
      then show ?thesis using assms 4 by (auto simp: andthen_result_Inl ret_def dest!: on_host_gives [OF g, rotated])
    next
      case (Inr x)
      then show ?thesis using assms 4 by (auto simp: andthen_result_Inr ret_def dest!: on_host_gives [OF g, rotated])
    qed
  next
    case (5 E fd address)
    then show ?thesis using assms table_ok_remove by (auto simp: andthen_on_service ret_def)
  next
    case (6 E fd)
    then show ?thesis using assms by (auto simp: monitoring_sleep_def ret_def sys_effect_def)
  qed
qed

lemma mgr_says_goodbye: "own_text M exit_body m \<Longrightarrow> from_manager M m dest EXIT_PORT"
  by (simp add: from_manager_def port_defs)

lemma mgr_responds:
  assumes "packet_type (body packet) = DISCOVERY"
  shows "gives (kernel_inv M (from_manager M) cs B) (respond (kernel_os M) packet DISCOVERY_PARTICIPANT_PORT) (\<lambda>_. True)"
proof (rule kernel.gives_respond)
  fix t
  let ?pk = "Packet_new\<lparr>header := (header packet)\<lparr>direction := RESPONSE, sender_addresses := M, timestamp := t\<rparr>,
    body := body packet\<rparr>"
  have "sender_of ?pk = M \<and> packet_type (body ?pk) = DISCOVERY"
    using assms by (simp add: sender_of_def)
  then show "from_manager M (packet_text ?pk) (ip (sender_addresses (header packet))) DISCOVERY_PARTICIPANT_PORT"
    unfolding from_manager_def reply_text_def by (auto simp: port_defs)
qed

lemma mgr_sigint: "gives (kernel_inv M (from_manager M) cs B) (manager_sigint (kernel_os M)) (\<lambda>_. True)"
  by (auto simp: manager_sigint_def ClientSocket_new_def client_enable_broadcast_def Let_def mgr_says_goodbye
      intro!: gives_andthen [OF kernel.gives_sender_new] gives_andthen [OF kernel.gives_sender_broadcast]
        gives_andthen [OF kernel.gives_client_request] gives_ret)

text \<open>The socket of the discovery thread is bound to its port.\<close>

lemma discovery_socket_bound:
  assumes "discovery_socket (kernel_os M) p = (r, q)" and "kernel_inv M (from_manager M) cs {} (world p)"
  shows "kernel_inv M (from_manager M) cs {} (world q)
    \<and> (\<forall>fd. r = Inr fd \<longrightarrow> kernel_inv M (from_manager M) cs {(fd, DISCOVERY_MANAGER_PORT)} (world q))"
proof -
  let ?I = "kernel_inv M (from_manager M) cs"
  obtain r1 p1 where new: "UdpReceiverSocket_new (kernel_os M) DISCOVERY_MANAGER_PORT p = (r1, p1)"
    by fastforce
  have p1: "?I {} (world p1)" using gives_result [OF kernel.gives_receiver_new new assms(2)] by simp
  show ?thesis
  proof (cases r1)
    case (Inl e)
    then show ?thesis
      using assms(1) new p1 by (auto simp: discovery_socket_def ServerSocket_new_def andthen_Inl)
  next
    case (Inr fd)
    then have bound: "?I {(fd, DISCOVERY_MANAGER_PORT)} (world p1)"
      using receiver_new_bound new assms(2) by blast
    obtain r2 where r2: "receiver_enable_broadcast (kernel_os M) fd True p1 = (r2, q)" "r = Inr x \<Longrightarrow> x = fd" for x
      using assms(1) new Inr
      by (auto simp: discovery_socket_def ServerSocket_new_def server_enable_broadcast_def andthen_def ret_def
          split: prod.splits sum.splits)
    have "?I {(fd, DISCOVERY_MANAGER_PORT)} (world q)"
      using gives_result [OF kernel.gives_receiver_broadcast r2(1) bound] by simp
    then show ?thesis using r2(2) by (auto intro: kernel_inv_weaken)
  qed
qed

lemma mgr_ok_step:
  assumes "process_step ctor (kernel_os M) s s'" and "mgr_ok addr M s" and "\<forall>i. plain_host (addr i)"
  shows "mgr_ok addr M s'"
proof -
  let ?I = "kernel_inv M (from_manager M) (comes addr M)"
  have ok: "?I (mgr_waits_on (discovery_at s)) (world (host (core s)))" "list_all (request_ok addr) (responders s)"
    "no_requests (monitor_at s)" "table_ok addr (table_of s)"
    using assms(2) by (simp_all add: mgr_ok_def mgr_kernel_def)
  have replaced: "list_all (request_ok addr) ((responders s)[i := t])" if "request_ok addr t" for i t
    using ok(2) that set_update_subset_insert [of "responders s" i t] by (auto simp: list_all_iff)
  have thread: "request_ok addr (responders s ! i)" if "i < length (responders s)" for i
    using ok(2) that by (simp add: list_all_length)
  show ?thesis
    using assms(1)
  proof (cases rule: process_step.cases)
    case (discovery_opens fd m)
    then obtain q where "discovery_socket (kernel_os M) (host (core s)) = (Inr fd, q)" "m = (core s)\<lparr>host := q\<rparr>"
      by (auto simp: on_host_def split: prod.splits)
    then show ?thesis
      using discovery_socket_bound [of M _ "Inr fd" q "comes addr M"] ok discovery_opens(1,3)
      by (simp add: mgr_ok_def mgr_kernel_def)
  next
    case (discovery_open_throws e m)
    then obtain q where "discovery_socket (kernel_os M) (host (core s)) = (Inl e, q)" "m = (core s)\<lparr>host := q\<rparr>"
      by (auto simp: on_host_def split: prod.splits)
    then show ?thesis
      using discovery_socket_bound [of M _ "Inl e" q "comes addr M"] ok discovery_open_throws(1,3)
      by (simp add: mgr_ok_def mgr_kernel_def ends_def)
  next
    case (discovery_receives fd packet p)
    have r: "?I {(fd, DISCOVERY_MANAGER_PORT)} (world p)
      \<and> read_from (kernel_arrives (comes addr M) {(fd, DISCOVERY_MANAGER_PORT)} fd) True packet"
      using kernel.server_receive_gives [OF discovery_receives(4), where comes = "comes addr M"
          and ok = "from_manager M" and B = "{(fd, DISCOVERY_MANAGER_PORT)}"] ok(1) discovery_receives(3) by simp
    have "(\<exists>i. sender_of packet = nameless (addr i)) \<and> packet_type (body packet) = DISCOVERY"
      by (rule read_request [OF r [THEN conjunct2] _ assms(3)]) simp
    then show ?thesis
      using r ok discovery_receives(1,3)
      by (simp add: mgr_ok_def mgr_kernel_def request_ok_def known_as_def)
  next
    case (discovery_throws fd p e)
    then show ?thesis
      using kernel.server_receive_gives [OF discovery_throws(4), where comes = "comes addr M"
          and ok = "from_manager M" and B = "{(fd, DISCOVERY_MANAGER_PORT)}"] ok
      by (simp add: mgr_ok_def mgr_kernel_def ends_def)
  next
    case (responder_inserts i packet)
    have "request_ok addr (Responding packet)" "known_as addr (sender_of packet)"
      using thread [OF responder_inserts(3)] responder_inserts(4) by (simp_all add: request_ok_def)
    then have "request_ok addr (Responding packet)" "known_as addr (sender_addresses (header packet))"
      by (simp_all add: sender_of_def)
    then show ?thesis
      using ok responder_inserts replaced table_ok_enroll [OF ok(4)]
      by (simp add: mgr_ok_def mgr_kernel_def discovery_insert_service discovery_insert_result)
  next
    case (responder_responds i packet m)
    have type: "packet_type (body packet) = DISCOVERY"
      using thread [OF responder_responds(3)] responder_responds(4) by (simp add: request_ok_def)
    have "request_ok addr Finished" by (simp add: request_ok_def)
    then show ?thesis
      using ok responder_responds(1) replaced on_host_gives [OF mgr_responds [OF type] responder_responds(5) ok(1)]
      by (simp add: mgr_ok_def mgr_kernel_def)
  next
    case (responder_throws i packet e m)
    have type: "packet_type (body packet) = DISCOVERY"
      using thread [OF responder_throws(3)] responder_throws(4) by (simp add: request_ok_def)
    then show ?thesis
      using ok responder_throws(1) on_host_gives [OF mgr_responds [OF type] responder_throws(5) ok(1)]
      by (simp add: mgr_ok_def mgr_kernel_def ends_def)
  next
    case (monitor_calls m pc)
    then show ?thesis
      using mgr_monitor [OF monitor_calls(3) ok(3,1,4)] monitor_io_service [OF monitor_calls(3) ok(3)] ok
      by (simp add: mgr_ok_def mgr_kernel_def)
  next
    case (monitor_throws e m)
    then show ?thesis
      using mgr_monitor [OF monitor_throws(3) ok(3,1,4)] ok
      by (simp add: mgr_ok_def mgr_kernel_def ends_def)
  next
    case (interface_begins t c)
    then show ?thesis using ok table_ok_start by (simp add: mgr_ok_def mgr_kernel_def on_table_def)
  next
    case (interface_begin_fails t e c)
    then show ?thesis using ok table_ok_start by (simp add: mgr_ok_def mgr_kernel_def on_table_def ends_def)
  next
    case (interface_renders t c)
    then show ?thesis using ok table_ok_round by (simp add: mgr_ok_def mgr_kernel_def on_table_def)
  next
    case (interface_leaves t c)
    then show ?thesis using ok table_ok_round by (simp add: mgr_ok_def mgr_kernel_def on_table_def)
  next
    case (interface_throws t e c)
    then show ?thesis using ok table_ok_round by (simp add: mgr_ok_def mgr_kernel_def on_table_def ends_def)
  next
    case (stdin_line l rest t c)
    then show ?thesis using ok table_ok_line by (simp add: mgr_ok_def mgr_kernel_def on_table_def)
  next
    case (stdin_ends t)
    then show ?thesis using ok table_ok_end by (simp add: mgr_ok_def mgr_kernel_def on_table_def)
  next
    case unlocked_reads
    then show ?thesis using ok by (simp add: mgr_ok_def mgr_kernel_def ends_def)
  next
    case (sigint code m)
    then show ?thesis
      using ok on_host_gives [OF mgr_sigint sigint(3) ok(1)] by (simp add: mgr_ok_def mgr_kernel_def)
  next
    case (sigint_throws e m)
    then show ?thesis
      using ok on_host_gives [OF mgr_sigint sigint_throws(3) ok(1)] by (simp add: mgr_ok_def mgr_kernel_def ends_def)
  qed
qed

section \<open>The invariant of the network\<close>

definition net_ok :: "(nat \<Rightarrow> NodeAddresses) \<Rightarrow> NodeAddresses \<Rightarrow> network \<Rightarrow> bool" where
  "net_ok addr M N \<longleftrightarrow> (\<forall>i. node_ok addr M i (node N i)) \<and> mgr_ok addr M (mgr N)"

lemma boot_inv: "loadable a \<Longrightarrow> kernel_inv a ok cs {} boot_kernel"
  by (simp add: kernel_inv_def boot_kernel_def)

lemma net_start_ok:
  assumes "plain_host M" and "\<forall>i. plain_host (addr i)"
  shows "net_ok addr M (net_start inputs minput)"
proof -
  have "loadable (addr i)" "loadable M" for i using assms by (simp_all add: plain_host_def)
  then show ?thesis
    by (simp add: net_ok_def net_start_def node_ok_def mgr_ok_def node_waits_def node_kernel_def mgr_kernel_def
        participant_start_def process_start_def handlers_wait_def boot_process_def boot_inv no_requests_def
        table_ok_def ms_inv_new)
      (simp add: participants_def ManagementService_new_def)
qed

lemma wire_comes:
  assumes "net_ok addr M N" and "on_wire N m dest port"
  shows "comes addr M port m \<and> length m \<le> 65507"
proof -
  have manager: "kernel_inv M (from_manager M) (comes addr M) (mgr_waits_on (discovery_at (mgr N))) (mgr_kernel (mgr N))"
    and nodes: "kernel_inv (addr i) (from_node (addr i)) (comes addr M) (node_waits (node N i)) (node_kernel (node N i))"
    for i
    using assms(1) by (simp_all add: net_ok_def mgr_ok_def node_ok_def)
  consider "(m, dest, port) \<in> set (sent (mgr_kernel (mgr N)))"
    | i where "(m, dest, port) \<in> set (sent (node_kernel (node N i)))"
    using assms(2) by (auto simp: on_wire_def)
  then show ?thesis
  proof cases
    case 1
    then have "from_manager M m dest port \<and> length m \<le> 65507" using manager by (fastforce simp: kernel_inv_def)
    then show ?thesis using sent_comes(2) by blast
  next
    case (2 i)
    then have "from_node (addr i) m dest port \<and> length m \<le> 65507" using nodes [of i] by (fastforce simp: kernel_inv_def)
    then show ?thesis using sent_comes(1) by blast
  qed
qed

lemma node_ok_world:
  assumes "node_ok addr M i s"
    and "kernel_inv (addr i) (from_node (addr i)) (comes addr M) (node_waits s) w"
  shows "node_ok addr M i (with_world w s)"
proof -
  have "node_waits (with_world w s) = node_waits s" "node_kernel (with_world w s) = w"
    by (simp_all add: node_waits_def handlers_wait_def node_kernel_def with_world_def)
  moreover have "main_at (with_world w s) = main_at s" "handler_at (with_world w s) = handler_at s"
    "ended (with_world w s) = ended s"
    by (simp_all add: with_world_def)
  ultimately show ?thesis using assms by (simp add: node_ok_def)
qed

lemma net_ok_step:
  assumes "net_step ctor addr M N N'" and "net_ok addr M N" and "plain_host M" and "\<forall>i. plain_host (addr i)"
  shows "net_ok addr M N'"
  using assms(1)
proof (cases rule: net_step.cases)
  case (node_runs i s)
  have "node_ok addr M i (node N i)" using assms(2) by (simp add: net_ok_def)
  then have "node_ok addr M i s" using node_runs(2) assms(3,4) node_ok_step by blast
  then show ?thesis using node_runs(1) assms(2) by (simp add: net_ok_def)
next
  case (mgr_runs s)
  then show ?thesis using mgr_ok_step [OF mgr_runs(2) _ assms(4)] assms(2) by (simp add: net_ok_def)
next
  case (to_node m dest port i)
  have now: "node_ok addr M i (node N i)" using assms(2) by (simp add: net_ok_def)
  then have "kernel_inv (addr i) (from_node (addr i)) (comes addr M) (node_waits (node N i))
      (deliver m port (node_kernel (node N i)))"
    using kernel_inv_deliver wire_comes [OF assms(2) to_node(2)] unfolding node_ok_def by blast
  then have "node_ok addr M i (with_world (deliver m port (node_kernel (node N i))) (node N i))"
    using now by (rule node_ok_world [rotated])
  then show ?thesis using to_node(1) assms(2) by (simp add: net_ok_def)
next
  case (to_mgr m dest port)
  have now: "mgr_ok addr M (mgr N)" using assms(2) by (simp add: net_ok_def)
  then have "kernel_inv M (from_manager M) (comes addr M) (mgr_waits_on (discovery_at (mgr N)))
      (deliver m port (mgr_kernel (mgr N)))"
    using kernel_inv_deliver wire_comes [OF assms(2) to_mgr(2)] by (simp add: mgr_ok_def)
  then have "mgr_ok addr M (process_world (deliver m port (mgr_kernel (mgr N))) (mgr N))"
    using now by (simp add: mgr_ok_def process_world_def mgr_kernel_def)
  then show ?thesis using to_mgr(1) assms(2) by (simp add: net_ok_def)
qed

lemma net_ok_reachable:
  assumes "net_reachable ctor addr M (net_start inputs minput) N" and "plain_host M" and "\<forall>i. plain_host (addr i)"
  shows "net_ok addr M N"
  using assms(1)
proof (induction rule: net_reachable.induct)
  case net_starts
  show ?case by (rule net_start_ok [OF assms(2,3)])
next
  case (net_steps N N')
  then show ?case using net_ok_step assms(2,3) by blast
qed

text \<open>A table in which no station has a host name has at most one participant.\<close>

lemma one_nameless:
  assumes "ms_inv s" and "\<And>n. n \<in> participants s \<Longrightarrow> hostname (addresses s n) = []"
  shows "\<exists>n. participants s \<subseteq> {n}"
proof -
  have "get_by_hostname [] s = Some n" if "n \<in> participants s" for n
    using that assms(2) participants_iff [OF assms(1), of n] by fastforce
  then show ?thesis by (metis option.inject singletonI subsetI)
qed

end
