(* ===== verification/Network_Runs.thy ===== *)
theory Network_Runs
  imports Network
begin

text \<open>
  That the network of the theory \<open>Network\<close> does what it is for: a run in which a participant finds
  the manager and is in its table, and the properties of all the runs.
\<close>

section \<open>Calls on a kernel\<close>

lemma own_packet_fields [simp]:
  "sender_addresses (header (own_packet a n b)) = a" "body (own_packet a n b) = b"
  by (simp_all add: own_packet_def)

lemma enroll_first:
  fixes a :: NodeAddresses and x :: "'x"
  defines "s \<equiv> snd (enroll a AWAKEN (ManagementService_new x))"
  shows "participants s = {0}" and "status s 0 = AWAKEN" and "addresses s 0 = a"
    and "get_by_mac_address k s = (if k = mac a then Some 0 else None)" and "ms_inv s"
  using ms_inv_run [OF ms_inv_new, of "[Enroll a AWAKEN]" x]
  by (auto simp: s_def service_ops ManagementService_new_def WorkStation_new_def participants_def
      op_ok_def ran_def)

lemma own_packet_short: "plain_host (sender_addresses (header pk)) \<Longrightarrow> length (packet_text pk) \<le> 374"
  using packet_text_short [of pk] by (simp add: plain_host_def loadable_def wf_addresses_def)

lemma kernel_request_send:
  assumes "length (sent_packet req) \<le> 65507"
  shows "request_send (kernel_os a) req p = (Inr (), p\<lparr>world := (world p)\<lparr>new_fd := Suc (new_fd (world p)),
     broadcasting := (if dest_ip_address req = BROADCAST_IP then (broadcasting (world p))(int (new_fd (world p)) := True)
        else broadcasting (world p)),
     sent := sent (world p) @ [(sent_packet req, dest_ip_address req, dest_port req)],
     bound := filter (\<lambda>b. fst b \<noteq> int (new_fd (world p))) (bound (world p))\<rparr>\<rparr>)"
  using assms
  by (simp add: request_send_def with_sender_def UdpSenderSocket_new_def UdpSenderSocket_delete_def
    sender_enable_broadcast_def sender_send_def andthen_assoc andthen_sys sys_effect_def kernel_send_def prog_simps)

lemma kernel_receives:
  assumes "map_of (bound (world p)) fd = Some port" and "queues (world p) port = packet_text pk # ms"
    and "plain_host (sender_addresses (header pk))"
  shows "receiver_receive_packet (kernel_os a) fd q p =
      (Inr (packet_type (body pk) = DISCOVERY, packet_view pk q),
       p\<lparr>world := (world p)\<lparr>queues := (queues (world p))(port := ms)\<rparr>\<rparr>)"
    and "\<not> nonblocking (world p) fd \<Longrightarrow> receiver_try_receive_packet (kernel_os a) fd q p =
      (Inr (Some (packet_type (body pk) = DISCOVERY), packet_view pk q),
       p\<lparr>world := (world p)\<lparr>queues := (queues (world p))(port := ms)\<rparr>\<rparr>)"
proof -
  have l: "length (packet_text pk) \<le> 374" using own_packet_short [OF assms(3)] .
  have ok: "header_ok (header pk)" using plain_host_sendable [OF assms(3)] by (simp add: sendable_def)
  have m: "message_buffer (length (packet_text pk)) (packet_text pk) = packet_text pk"
    "take STR_BUF_SIZE (packet_text pk) = packet_text pk"
    using l by (simp_all add: message_buffer_def STR_BUF_SIZE_def)
  show "receiver_receive_packet (kernel_os a) fd q p =
      (Inr (packet_type (body pk) = DISCOVERY, packet_view pk q),
       p\<lparr>world := (world p)\<lparr>queues := (queues (world p))(port := ms)\<rparr>\<rparr>)"
    using assms(1,2) m
    by (simp add: receiver_receive_packet_def receiver_receive_string_def receiver_receive_def
        receive_with_block_type_def andthen_assoc andthen_sys kernel_receive_def deserialize_message_text [OF ok] prog_simps)
  show "\<not> nonblocking (world p) fd \<Longrightarrow> receiver_try_receive_packet (kernel_os a) fd q p =
      (Inr (Some (packet_type (body pk) = DISCOVERY), packet_view pk q),
       p\<lparr>world := (world p)\<lparr>queues := (queues (world p))(port := ms)\<rparr>\<rparr>)"
    using assms(1,2) m
    by (simp add: receiver_try_receive_packet_def receiver_try_receive_string_def receiver_try_receive_def
        receive_with_block_type_def andthen_assoc andthen_sys kernel_receive_def deserialize_message_text [OF ok] prog_simps
        fun_upd_idem)
qed

lemma kernel_responds:
  assumes "plain_host M" and "ip (sender_addresses (header packet)) \<noteq> BROADCAST_IP"
  shows "respond (kernel_os M) packet port p = (Inr (), p\<lparr>world := (world p)\<lparr>new_fd := Suc (Suc (Suc (new_fd (world p)))),
     sent := sent (world p) @ [(packet_text (packet\<lparr>header := (header packet)\<lparr>direction := RESPONSE,
       sender_addresses := M, timestamp := 1000002\<rparr>\<rparr>), ip (sender_addresses (header packet)), port)],
     bound := filter (\<lambda>b. fst b \<noteq> int (Suc (Suc (new_fd (world p))))) (bound (world p))\<rparr>\<rparr>)"
proof -
  define pk where "pk = packet\<lparr>header := (header packet)\<lparr>direction := RESPONSE,
       sender_addresses := M, timestamp := 1000002\<rparr>\<rparr>"
  have l: "length (packet_text pk) \<le> 374" "loadable M" using own_packet_short [of pk] assms(1)
    by (simp_all add: pk_def plain_host_def)
  have e: "Packet_new\<lparr>header := h, body := body packet\<rparr> = packet\<lparr>header := h\<rparr>" for h
    by simp
  show ?thesis
    using assms(2) l(1)
    by (simp add: e respond_def respond_with_def andthen_assoc andthen_sys Let_def load_host_kernel [OF l(2)] now_def
       with_sender_def UdpSenderSocket_new_def UdpSenderSocket_delete_def sender_send_packet_def sender_send_def
       kernel_send_def sys_effect_def prog_simps packet_text_def pk_def)
qed

section \<open>The steps of a discovery\<close>

definition node_request :: "NodeAddresses \<Rightarrow> client_request" where
  "node_request a = \<lparr>sent_packet = packet_text (own_packet a 0 PacketBody_new), dest_ip_address = BROADCAST_IP,
     dest_port = DISCOVERY_MANAGER_PORT\<rparr>"

lemma discovery_request_kernel:
  assumes "plain_host a"
  shows "\<exists>p. discovery_request (kernel_os a) 3 \<lparr>global_seqn = 0, world = boot_kernel\<lparr>new_fd := 4\<rparr>\<rparr> =
    (Inr (MAwait Joining 3 (node_request a) 7 Packet_new), p)
    \<and> sent (world p) = [(packet_text (own_packet a 0 PacketBody_new), BROADCAST_IP, DISCOVERY_MANAGER_PORT)]
    \<and> bound (world p) = [(7, DISCOVERY_PARTICIPANT_PORT)] \<and> \<not> stalled (world p)
    \<and> nonblocking (world p) = (\<lambda>_. False) \<and> queues (world p) DISCOVERY_PARTICIPANT_PORT = []"
proof -
  have a: "loadable a" "length (packet_text (own_packet a 0 PacketBody_new)) \<le> 374"
    using assms own_packet_short [of "own_packet a 0 PacketBody_new"] by (simp_all add: plain_host_def own_packet_def)
  show ?thesis
    using a(2) [unfolded packet_text_def own_packet_def]
    by (simp add: discovery_request_def client_enable_broadcast_def sender_enable_broadcast_def
        client_request_op_def andthen_assoc andthen_sys Let_def load_host_kernel [OF a(1)] next_seqn_def now_def
        kernel_request_send node_request_def UdpReceiverSocket_new_def prog_simps boot_kernel_def BROADCAST_IP_def
        packet_text_def own_packet_def Packet_new_def kernel_bind_def)
qed

text \<open>The participant that starts sends its request and waits.\<close>

definition awaits :: "NodeAddresses \<Rightarrow> kernel participant \<Rightarrow> bool" where
  "awaits a s \<longleftrightarrow> runs s MainThread \<and> main_at s = MAwait Joining 3 (node_request a) 7 Packet_new
    \<and> sent (node_kernel s) = [(packet_text (own_packet a 0 PacketBody_new), BROADCAST_IP, DISCOVERY_MANAGER_PORT)]
    \<and> bound (node_kernel s) = [(7, DISCOVERY_PARTICIPANT_PORT)] \<and> \<not> stalled (node_kernel s)
    \<and> nonblocking (node_kernel s) = (\<lambda>_. False) \<and> queues (node_kernel s) DISCOVERY_PARTICIPANT_PORT = []"

lemma node_asks:
  assumes "plain_host a"
  shows "\<exists>s s'. participant_step (kernel_os a) (participant_start input boot_process) s
    \<and> \<not> stalled (node_kernel s) \<and> participant_step (kernel_os a) s s' \<and> awaits a s'"
proof -
  let ?s = "participant_start input boot_process" and ?p = "\<lparr>global_seqn = 0, world = boot_kernel\<lparr>new_fd := 4\<rparr>\<rparr>"
  let ?s1 = "?s\<lparr>main_at := MConnect 3, os_state := ?p, wol_at := WBegin\<rparr>"
  obtain p where p: "discovery_request (kernel_os a) 3 ?p =
      (Inr (MAwait Joining 3 (node_request a) 7 Packet_new), p)"
    "sent (world p) = [(packet_text (own_packet a 0 PacketBody_new), BROADCAST_IP, DISCOVERY_MANAGER_PORT)]"
    "bound (world p) = [(7, DISCOVERY_PARTICIPANT_PORT)]" "\<not> stalled (world p)"
    "nonblocking (world p) = (\<lambda>_. False)" "queues (world p) DISCOVERY_PARTICIPANT_PORT = []"
    using discovery_request_kernel [OF assms] by blast
  have "andthen (ClientSocket_new (kernel_os a)) (\<lambda>client_socket. ret (MConnect client_socket)) boot_process =
      (Inr (MConnect 3), ?p)"
    by (simp add: ClientSocket_new_def UdpSenderSocket_new_def andthen_assoc andthen_sys prog_simps boot_process_def
        boot_kernel_def)
  then have 1: "participant_step (kernel_os a) ?s ?s1"
    using main_calls [of ?s "kernel_os a" _ "MConnect 3" ?p] by (simp add: runs_def participant_start_def)
  have 2: "participant_step (kernel_os a) ?s1
      (?s1\<lparr>main_at := MAwait Joining 3 (node_request a) 7 Packet_new, os_state := p, wol_at := WBegin\<rparr>)"
    using main_calls [of ?s1 "kernel_os a" _ _ p] p(1) by (simp add: runs_def participant_start_def)
  have "\<not> stalled (node_kernel ?s1)" by (simp add: node_kernel_def boot_kernel_def)
  moreover have "awaits a (?s1\<lparr>main_at := MAwait Joining 3 (node_request a) 7 Packet_new, os_state := p, wol_at := WBegin\<rparr>)"
    using p(2-6) by (simp add: awaits_def runs_def node_kernel_def participant_start_def)
  ultimately show ?thesis using 1 2 by blast
qed

text \<open>A participant that has an answer of the manager goes into its loop.\<close>

lemma node_joins:
  assumes "runs s MainThread" and "main_at s = MAwait Joining 3 (node_request a) 7 Packet_new"
    and "bound (node_kernel s) = [(7, DISCOVERY_PARTICIPANT_PORT)]" and "\<not> stalled (node_kernel s)"
    and "nonblocking (node_kernel s) = (\<lambda>_. False)"
    and "queues (node_kernel s) DISCOVERY_PARTICIPANT_PORT = [packet_text pk]"
    and "plain_host (sender_of pk)" and "packet_type (body pk) = DISCOVERY"
  shows "\<exists>s1 s2 s3. participant_step (kernel_os a) s s1 \<and> \<not> stalled (node_kernel s1)
    \<and> participant_step (kernel_os a) s1 s2 \<and> \<not> stalled (node_kernel s2)
    \<and> participant_step (kernel_os a) s2 s3 \<and> \<not> stalled (node_kernel s3)
    \<and> ended s3 = Running \<and> main_at s3 = MLoop 3 (nameless (sender_of pk))"
proof -
  let ?E = "kernel_os a" and ?q = "packet_view pk Packet_new"
  have t: "nameless (sender_of pk) = sender_addresses (header ?q)"
    using assms(7) plain_host_view [of pk Packet_new] by (simp add: sender_of_def nameless_def)
  obtain p1 where round: "response_round ?E (node_request a) DEFAULT_TRY_US 7 Packet_new (os_state s) = (Inr (True, ?q), p1)"
    "\<not> stalled (world p1)"
    using kernel_receives(2) [of "os_state s" 7 DISCOVERY_PARTICIPANT_PORT pk "[]" a Packet_new] assms(3-8)
    by (simp add: response_round_def node_kernel_def sender_of_def prog_simps)
  let ?s1 = "s\<lparr>main_at := MAnswered Joining 3 7 ?q, os_state := p1\<rparr>"
  have 1: "participant_step ?E s ?s1"
    using main_calls [of s ?E _ "MAnswered Joining 3 7 ?q" p1] assms(1,2) round(1)
    by (simp add: andthen_Inr ret_def)
  obtain p2 where p2: "andthen (modify (UdpReceiverSocket_delete ?E 7)) (\<lambda>_.
       andthen (client_enable_broadcast ?E 3 False) (\<lambda>_.
       ret (MConnected 3 (sender_addresses (header ?q))))) p1 = (Inr (MConnected 3 (nameless (sender_of pk))), p2)"
    "\<not> stalled (world p2)"
    using round(2) t
    by (simp add: client_enable_broadcast_def sender_enable_broadcast_def UdpReceiverSocket_delete_def sys_effect_def
        andthen_sys prog_simps)
  let ?s2 = "s\<lparr>main_at := MConnected 3 (nameless (sender_of pk)), os_state := p2\<rparr>"
  have 2: "participant_step ?E ?s1 ?s2"
    using main_calls [of ?s1 ?E _ "MConnected 3 (nameless (sender_of pk))" p2] assms(1) p2(1) by (simp add: runs_def)
  let ?s3 = "?s2\<lparr>main_at := MLoop 3 (nameless (sender_of pk)),
      cerr := cerr s @ ''Connected to '' @ render_ip_address (ip (nameless (sender_of pk))) @ newline,
      manager_ip := ip (nameless (sender_of pk)), handles := True, channel := participant_channel, input_at := IReading\<rparr>"
  have 3: "participant_step ?E ?s2 ?s3"
    using main_connected [of ?s2 3 "nameless (sender_of pk)" ?E] assms(1) by (simp add: runs_def)
  show ?thesis
  proof (intro exI conjI)
    show "participant_step ?E s ?s1" "participant_step ?E ?s1 ?s2" "participant_step ?E ?s2 ?s3"
      by (fact 1 2 3)+
  qed (use assms(1) round(2) p2(2) in \<open>simp_all add: node_kernel_def runs_def\<close>)
qed

text \<open>The manager opens its socket.\<close>

definition listens :: "kernel manager_process \<Rightarrow> bool" where
  "listens s \<longleftrightarrow> process_ended s = Running \<and> discovery_at s = DListening 3 \<and> responders s = []
    \<and> table_of s = ManagementService_new Channel_open \<and> bound (mgr_kernel s) = [(3, DISCOVERY_MANAGER_PORT)]
    \<and> queues (mgr_kernel s) DISCOVERY_MANAGER_PORT = [] \<and> \<not> stalled (mgr_kernel s)"

lemma mgr_opens:
  "\<exists>s. process_step LockShared (kernel_os M) (process_start input boot_process) s \<and> listens s"
proof -
  let ?s = "process_start input boot_process :: kernel manager_process"
  obtain m where m: "on_host (discovery_socket (kernel_os M)) (core ?s) = (Inr 3, m)"
    "service m = ManagementService_new Channel_open" "bound (world (host m)) = [(3, DISCOVERY_MANAGER_PORT)]"
    "queues (world (host m)) DISCOVERY_MANAGER_PORT = []" "\<not> stalled (world (host m))"
    by (simp add: on_host_def discovery_socket_def ServerSocket_new_def UdpReceiverSocket_new_def
        server_enable_broadcast_def receiver_enable_broadcast_def andthen_assoc andthen_sys kernel_bind_def prog_simps
        process_start_def boot_process_def boot_kernel_def)
  have "process_step LockShared (kernel_os M) ?s (?s\<lparr>discovery_at := DListening 3, core := m\<rparr>)"
    using m(1) by (intro discovery_opens) (simp_all add: process_start_def)
  moreover have "listens (?s\<lparr>discovery_at := DListening 3, core := m\<rparr>)"
    using m(2-5) by (simp add: listens_def mgr_kernel_def) (simp add: process_start_def)
  ultimately show ?thesis by blast
qed

text \<open>The manager that has a request enters the participant and answers.\<close>

lemma mgr_answers:
  assumes "process_ended s = Running" and "discovery_at s = DListening 3" and "responders s = []"
    and "table_of s = ManagementService_new Channel_open" and "bound (mgr_kernel s) = [(3, DISCOVERY_MANAGER_PORT)]"
    and "queues (mgr_kernel s) DISCOVERY_MANAGER_PORT = [packet_text (own_packet a 0 PacketBody_new)]"
    and "\<not> stalled (mgr_kernel s)" and "plain_host a" and "plain_host M" and "ip a \<noteq> BROADCAST_IP"
  shows "\<exists>s1 s2 s3 pk. process_step LockShared (kernel_os M) s s1 \<and> \<not> stalled (mgr_kernel s1)
    \<and> process_step LockShared (kernel_os M) s1 s2 \<and> \<not> stalled (mgr_kernel s2)
    \<and> process_step LockShared (kernel_os M) s2 s3 \<and> \<not> stalled (mgr_kernel s3) \<and> process_ended s3 = Running
    \<and> table_of s3 = snd (enroll (nameless a) AWAKEN (ManagementService_new Channel_open))
    \<and> (packet_text pk, ip a, DISCOVERY_PARTICIPANT_PORT) \<in> set (sent (mgr_kernel s3))
    \<and> sender_of pk = M \<and> packet_type (body pk) = DISCOVERY"
proof -
  let ?E = "kernel_os M"
  define packet where "packet = packet_view (own_packet a 0 PacketBody_new) Packet_new"
  have pk: "sender_addresses (header packet) = nameless a" "packet_type (body packet) = DISCOVERY"
    using plain_host_view [of "own_packet a 0 PacketBody_new" Packet_new] assms(8)
    by (simp_all add: packet_def own_packet_def sender_of_def nameless_def packet_view_def)
  obtain p where p: "server_receive ?E 3 (host (core s)) = Some (Inr packet, p)" "\<not> stalled (world p)"
    using kernel_receives(1) [of "host (core s)" 3 DISCOVERY_MANAGER_PORT "own_packet a 0 PacketBody_new" "[]" M Packet_new]
      assms(5-8)
    by (simp add: server_receive_def mgr_kernel_def server_receive_loop.simps packet_def own_packet_def)
  let ?s1 = "s\<lparr>core := (core s)\<lparr>host := p\<rparr>, responders := [Inserting packet]\<rparr>"
  have 1: "process_step LockShared ?E s ?s1"
    using discovery_receives [of s 3 ?E packet p] p(1) assms(1-3) by simp
  define c where "c = snd (discovery_insert packet ((core s)\<lparr>host := p\<rparr>))"
  have c: "host c = p" "service c = snd (enroll (nameless a) AWAKEN (ManagementService_new Channel_open))"
    using assms(4) pk(1) by (simp_all add: c_def discovery_insert_result)
  let ?s2 = "s\<lparr>core := c, responders := [Responding packet]\<rparr>"
  have 2: "process_step LockShared ?E ?s1 ?s2"
    using responder_inserts [of ?s1 0 packet LockShared ?E] assms(1) by (simp add: c_def)
  let ?pk = "packet\<lparr>header := (header packet)\<lparr>direction := RESPONSE, sender_addresses := M, timestamp := 1000002\<rparr>\<rparr>"
  obtain q where q: "on_host (respond ?E packet DISCOVERY_PARTICIPANT_PORT) c = (Inr (), c\<lparr>host := q\<rparr>)"
    "\<not> stalled (world q)" "(packet_text ?pk, ip a, DISCOVERY_PARTICIPANT_PORT) \<in> set (sent (world q))"
    using kernel_responds [OF assms(9), of packet DISCOVERY_PARTICIPANT_PORT p] assms(10) pk(1) p(2) c(1)
    by (simp add: on_host_def nameless_def)
  let ?s3 = "s\<lparr>core := c\<lparr>host := q\<rparr>, responders := [Finished]\<rparr>"
  have 3: "process_step LockShared ?E ?s2 ?s3"
    using responder_responds [of ?s2 0 packet ?E "c\<lparr>host := q\<rparr>"] assms(1) q(1) by simp
  have "sender_of ?pk = M" "packet_type (body ?pk) = DISCOVERY"
    using pk(2) by (simp_all add: sender_of_def)
  then show ?thesis
    using 1 2 3 p(2) q c assms(1)
    by (intro exI [of _ ?s1] exI [of _ ?s2] exI [of _ ?s3] exI [of _ ?pk]) (simp add: mgr_kernel_def)
qed

section \<open>Runs of the network\<close>

lemma net_node:
  "net_reachable LockShared addr M N0 N \<Longrightarrow> node N i = t \<Longrightarrow> participant_step (kernel_os (addr i)) t s \<Longrightarrow>
    \<not> stalled (node_kernel s) \<Longrightarrow>
    \<exists>N'. net_reachable LockShared addr M N0 N' \<and> node N' i = s \<and> mgr N' = mgr N"
  by (rule exI [of _ "N\<lparr>node := (node N)(i := s)\<rparr>"]) (auto intro: net_steps node_runs)

lemma net_mgr:
  "net_reachable LockShared addr M N0 N \<Longrightarrow> mgr N = t \<Longrightarrow> process_step LockShared (kernel_os M) t s \<Longrightarrow> \<not> stalled (mgr_kernel s) \<Longrightarrow>
    \<exists>N'. net_reachable LockShared addr M N0 N' \<and> node N' = node N \<and> mgr N' = s"
  by (rule exI [of _ "N\<lparr>mgr := s\<rparr>"]) (auto intro: net_steps mgr_runs)

lemma discovery_run:
  assumes "plain_host M" and "plain_host (addr i)" and "ip (addr i) \<noteq> BROADCAST_IP"
  shows "\<exists>N. net_reachable LockShared addr M (net_start inputs minput) N
    \<and> ended (node N i) = Running \<and> main_at (node N i) = MLoop 3 (nameless M)
    \<and> process_ended (mgr N) = Running
    \<and> table_of (mgr N) = snd (enroll (nameless (addr i)) AWAKEN (ManagementService_new Channel_open))"
proof -
  let ?N0 = "net_start inputs minput" and ?a = "addr i"
  let ?R = "net_reachable LockShared addr M ?N0"
  let ?m = "packet_text (own_packet ?a 0 PacketBody_new)"
  have N0: "?R ?N0" "node ?N0 i = participant_start (inputs i) boot_process" "mgr ?N0 = process_start minput boot_process"
    by (simp_all add: net_starts net_start_def)
  obtain s1 s2 where s: "participant_step (kernel_os ?a) (participant_start (inputs i) boot_process) s1"
    "\<not> stalled (node_kernel s1)" "participant_step (kernel_os ?a) s1 s2" "awaits ?a s2"
    using node_asks [OF assms(2)] by blast
  obtain N1 where N1: "?R N1" "node N1 i = s1" "mgr N1 = mgr ?N0" using net_node [OF N0(1,2) s(1,2)] by blast
  have "\<not> stalled (node_kernel s2)" using s(4) by (simp add: awaits_def)
  from net_node [OF N1(1,2) s(3) this] obtain N2 where N2: "?R N2" "node N2 i = s2" "mgr N2 = mgr ?N0"
    using N1(3) by auto
  obtain t where t: "process_step LockShared (kernel_os M) (process_start minput boot_process) t" "listens t"
    using mgr_opens by blast
  have "\<not> stalled (mgr_kernel t)" using t(2) by (simp add: listens_def)
  from net_mgr [OF N2(1) _ t(1) this] obtain N3 where N3: "?R N3" "node N3 i = s2" "mgr N3 = t"
    using N2(2,3) N0(3) by auto
  define t' where "t' = process_world (deliver ?m DISCOVERY_MANAGER_PORT (mgr_kernel t)) t"
  have "on_wire N3 ?m BROADCAST_IP DISCOVERY_MANAGER_PORT"
    using s(4) N3(2) by (auto simp: on_wire_def awaits_def intro!: exI [of _ i])
  then have "net_step LockShared addr M N3 (N3\<lparr>mgr := t'\<rparr>)" using to_mgr N3(3) by (auto simp: t'_def)
  then have N4: "?R (N3\<lparr>mgr := t'\<rparr>)" by (rule net_steps [OF N3(1)])
  have t': "process_ended t' = Running" "discovery_at t' = DListening 3" "responders t' = []"
    "table_of t' = ManagementService_new Channel_open" "bound (mgr_kernel t') = [(3, DISCOVERY_MANAGER_PORT)]"
    "queues (mgr_kernel t') DISCOVERY_MANAGER_PORT = [?m]" "\<not> stalled (mgr_kernel t')"
    using t(2) by (simp_all add: t'_def listens_def process_world_def mgr_kernel_def deliver_def)
  from mgr_answers [OF t' assms(2,1,3)] obtain m1 m2 m3 pk where
    m: "process_step LockShared (kernel_os M) t' m1" "\<not> stalled (mgr_kernel m1)" "process_step LockShared (kernel_os M) m1 m2"
      "\<not> stalled (mgr_kernel m2)" "process_step LockShared (kernel_os M) m2 m3" "\<not> stalled (mgr_kernel m3)"
    and m3: "process_ended m3 = Running" "table_of m3 = snd (enroll (nameless ?a) AWAKEN (ManagementService_new Channel_open))"
      "(packet_text pk, ip ?a, DISCOVERY_PARTICIPANT_PORT) \<in> set (sent (mgr_kernel m3))"
    and pk: "sender_of pk = M" "packet_type (body pk) = DISCOVERY"
    by blast
  obtain N5 where N5: "?R N5" "node N5 i = s2" "mgr N5 = m1" using net_mgr [OF N4 _ m(1,2)] N3(2) by auto
  obtain N6 where N6: "?R N6" "node N6 i = s2" "mgr N6 = m2" using net_mgr [OF N5(1,3) m(3,4)] N5(2) by auto
  obtain N7 where N7: "?R N7" "node N7 i = s2" "mgr N7 = m3" using net_mgr [OF N6(1,3) m(5,6)] N6(2) by auto
  define s3 where "s3 = with_world (deliver (packet_text pk) DISCOVERY_PARTICIPANT_PORT (node_kernel s2)) s2"
  have "on_wire N7 (packet_text pk) (ip ?a) DISCOVERY_PARTICIPANT_PORT"
    using m3(3) N7(3) by (simp add: on_wire_def)
  then have "net_step LockShared addr M N7 (N7\<lparr>node := (node N7)(i := s3)\<rparr>)" using to_node N7(2) by (auto simp: s3_def)
  then have N8: "?R (N7\<lparr>node := (node N7)(i := s3)\<rparr>)" by (rule net_steps [OF N7(1)])
  have s3: "runs s3 MainThread" "main_at s3 = MAwait Joining 3 (node_request ?a) 7 Packet_new"
    "bound (node_kernel s3) = [(7, DISCOVERY_PARTICIPANT_PORT)]" "\<not> stalled (node_kernel s3)"
    "nonblocking (node_kernel s3) = (\<lambda>_. False)"
    "queues (node_kernel s3) DISCOVERY_PARTICIPANT_PORT = [packet_text pk]"
    using s(4) by (simp_all add: s3_def awaits_def runs_def with_world_def node_kernel_def deliver_def)
  have "plain_host (sender_of pk)" using pk(1) assms(1) by simp
  from node_joins [OF s3 this pk(2)] obtain s4 s5 s6 where
    n: "participant_step (kernel_os ?a) s3 s4" "\<not> stalled (node_kernel s4)" "participant_step (kernel_os ?a) s4 s5"
      "\<not> stalled (node_kernel s5)" "participant_step (kernel_os ?a) s5 s6" "\<not> stalled (node_kernel s6)"
    and s6: "ended s6 = Running" "main_at s6 = MLoop 3 (nameless M)"
    using pk(1) by blast
  obtain N9 where N9: "?R N9" "node N9 i = s4" "mgr N9 = m3" using net_node [OF N8 _ n(1,2)] N7(3) by auto
  obtain N10 where N10: "?R N10" "node N10 i = s5" "mgr N10 = m3" using net_node [OF N9(1,2) n(3,4)] N9(3) by auto
  obtain N11 where N11: "?R N11" "node N11 i = s6" "mgr N11 = m3" using net_node [OF N10(1,2) n(5,6)] N10(3) by auto
  show ?thesis using N11 s6 m3 by blast
qed

section \<open>Properties\<close>

lemma hosts_plain: "plain_host host_a" "plain_host host_b"
  by (simp_all add: plain_host_def loadable_def host_a_def host_b_def is_mac_def is_ip_def BACKSLASH_def)

lemma host_a_not_broadcast: "ip host_a \<noteq> BROADCAST_IP"
  by (simp add: host_a_def BROADCAST_IP_def)

text \<open>
  C3: Discovery can complete, once the shared guard locks: in the network of a manager whose
  \<open>SharedLockGuard\<close> calls \<open>lock_shared\<close> (with the constructor in the code the first insertion is
  undefined) and of any number of participants, all freshly started, there is a run after which the
  participant \<open>i\<close> is in its loop with the manager's MAC and IP address, and the manager's table has
  that one station, awake, found by the participant's MAC address, with its addresses and without
  its host name; nothing has ended either process. Both hosts are plain: they have a MAC and an IP
  address, the latter not 127.0.0.1, and a host name of at most 255 characters without a backslash and
  a zero byte; and the participant's IP address is not that of the broadcast.
\<close>

theorem network_discovery:
  assumes "plain_host M" and "plain_host (addr i)" and "ip (addr i) \<noteq> BROADCAST_IP"
  shows "\<exists>N. net_reachable LockShared addr M (net_start inputs minput) N
    \<and> ended (node N i) = Running \<and> main_at (node N i) = MLoop 3 (nameless M)
    \<and> process_ended (mgr N) = Running
    \<and> participants (table_of (mgr N)) = {0} \<and> status (table_of (mgr N)) 0 = AWAKEN
    \<and> addresses (table_of (mgr N)) 0 = nameless (addr i)
    \<and> get_by_mac_address (mac (addr i)) (table_of (mgr N)) = Some 0"
proof -
  obtain N where N: "net_reachable LockShared addr M (net_start inputs minput) N" "ended (node N i) = Running"
    "main_at (node N i) = MLoop 3 (nameless M)" "process_ended (mgr N) = Running"
    "table_of (mgr N) = snd (enroll (nameless (addr i)) AWAKEN (ManagementService_new Channel_open))"
    using discovery_run [where addr = addr and i = i, OF assms] by blast
  have "mac (addr i) = mac (nameless (addr i))" by (simp add: nameless_def)
  then have "get_by_mac_address (mac (addr i)) (table_of (mgr N)) = Some 0"
    unfolding N(5) by (simp only: enroll_first(4) refl if_True)
  moreover have "participants (table_of (mgr N)) = {0}" "status (table_of (mgr N)) 0 = AWAKEN"
    "addresses (table_of (mgr N)) 0 = nameless (addr i)"
    unfolding N(5) by (rule enroll_first)+
  ultimately show ?thesis using N(1-4) by (intro exI [of _ N] conjI)
qed

theorem network_discovery_witness:
  "\<exists>N. net_reachable LockShared (\<lambda>_. host_a) host_b (net_start (\<lambda>_. []) []) N
    \<and> main_at (node N 7) = MLoop 3 (nameless host_b)
    \<and> get_by_mac_address (mac host_a) (table_of (mgr N)) = Some 0"
  using network_discovery [where addr = "\<lambda>_. host_a" and M = host_b and i = 7 and inputs = "\<lambda>_. []" and minput = "[]",
      OF hosts_plain(2,1) host_a_not_broadcast] by blast

text \<open>
  C4: Agreement, in every run of the whole network on plain hosts: a participant in its loop is connected to the
  manager of the network and has its true MAC and IP address; and every station in the manager's
  table is a participant of the network, with its true MAC and IP address. No interleaving of the
  threads, of signals, of lost, repeated or late datagrams makes either side believe otherwise.
\<close>

theorem network_agreement:
  assumes "net_reachable ctor addr M (net_start inputs minput) N"
    and "plain_host M" and "\<forall>i. plain_host (addr i)"
  shows "(main_at (node N i) = MLoop fd a \<longrightarrow> a = nameless M)
    \<and> (\<forall>n \<in> participants (table_of (mgr N)). \<exists>j. addresses (table_of (mgr N)) n = nameless (addr j))"
proof -
  have "net_ok addr M N" by (rule net_ok_reachable [OF assms])
  then have "main_ok (addr i) M (main_at (node N i))" "table_ok addr (table_of (mgr N))"
    by (simp_all add: net_ok_def node_ok_def mgr_ok_def)
  then show ?thesis by (auto simp: table_ok_def known_as_def)
qed

theorem network_agreement_witness:
  "\<exists>N :: network. main_at (node N 0) = MLoop 3 (nameless host_b) \<and> participants (table_of (mgr N)) = {0}
    \<and> addresses (table_of (mgr N)) 0 = nameless host_a"
proof -
  obtain N where N: "net_reachable LockShared (\<lambda>_. host_a) host_b (net_start (\<lambda>_. []) []) N"
    "main_at (node N 0) = MLoop 3 (nameless host_b)"
    "table_of (mgr N) = snd (enroll (nameless host_a) AWAKEN (ManagementService_new Channel_open))"
    using discovery_run [where addr = "\<lambda>_. host_a" and i = 0, OF hosts_plain(2,1) host_a_not_broadcast] by blast
  have "participants (table_of (mgr N)) = {0}" unfolding N(3) by (rule enroll_first)
  then show ?thesis
    using network_agreement [OF N(1) hosts_plain(2), of 0 3 "nameless host_b"] hosts_plain(1) N(2)
    by (intro exI [of _ N]) auto
qed

text \<open>
  C6: No participant ever exits, in every run of the whole network, with either constructor of the
  shared guard, on plain hosts: no exit code is ever returned, the main thread never comes out of
  \<open>disconnect_to_manager\<close> and no signal handler comes to its end. Both wait for an answer to the good-bye,
  and no datagram that any process of the network sends to that port is accepted, in whatever order
  they arrive. A participant can only be ended from outside or by a failure: it can be killed by a
  signal before it has its handler, and a call that throws terminates it.
\<close>

theorem network_never_exits:
  assumes "net_reachable ctor addr M (net_start inputs minput) N"
    and "plain_host M" and "\<forall>i. plain_host (addr i)"
  shows "ended (node N i) \<noteq> Exited code \<and> main_at (node N i) \<noteq> MDone fd \<and> handler_at (node N i) t \<noteq> HDone"
proof -
  have "net_ok addr M N" by (rule net_ok_reachable [OF assms])
  then have ok: "main_ok (addr i) M (main_at (node N i))" "handler_keeps (addr i) (handler_at (node N i) t)"
    "\<not> clean_exit (ended (node N i))"
    by (simp_all add: net_ok_def node_ok_def)
  have "ended (node N i) \<noteq> Exited code" using ok(3) by (auto simp: clean_exit_def)
  moreover have "main_at (node N i) \<noteq> MDone fd" using ok(1) by auto
  moreover have "handler_at (node N i) t \<noteq> HDone" using ok(2) by auto
  ultimately show ?thesis by simp
qed

theorem network_never_exits_witness:
  "\<exists>N :: network. main_at (node N 0) = MLoop 3 (nameless host_b) \<and> ended (node N 0) \<noteq> Exited 0
    \<and> handler_at (node N 0) MainThread \<noteq> HDone"
proof -
  obtain N where N: "net_reachable LockShared (\<lambda>_. host_a) host_b (net_start (\<lambda>_. [''exit'']) []) N"
    "main_at (node N 0) = MLoop 3 (nameless host_b)"
    using discovery_run [where addr = "\<lambda>_. host_a" and i = 0, OF hosts_plain(2,1) host_a_not_broadcast] by blast
  have "\<forall>i :: nat. plain_host host_a" using hosts_plain(1) by simp
  from network_never_exits [OF N(1) hosts_plain(2) this, of 0 0 3 MainThread] show ?thesis
    using N(2) by (intro exI [of _ N] conjI) simp_all
qed

text \<open>
  C7: Nobody is ever asleep, and nobody is ever woken up, in every run of the whole network on plain hosts: every
  station in the manager's table is \<open>AWAKEN\<close> at all times, so the wake-up command fails for every
  host name; and whatever any process of the network sends goes to one of the three ports of
  discovery requests, discovery responses and good-byes, so that no wake-up packet, no request for
  a sleep status and no answer to one is ever on the network.
\<close>

theorem network_never_wakes:
  assumes "net_reachable ctor addr M (net_start inputs minput) N"
    and "plain_host M" and "\<forall>i. plain_host (addr i)"
  shows "(\<forall>n \<in> participants (table_of (mgr N)). status (table_of (mgr N)) n = AWAKEN)
    \<and> wakeup name (table_of (mgr N)) = (False, table_of (mgr N))
    \<and> (on_wire N m dest port \<longrightarrow> port \<in> {DISCOVERY_MANAGER_PORT, DISCOVERY_PARTICIPANT_PORT, EXIT_PORT})"
proof -
  let ?s = "table_of (mgr N)"
  have ok: "net_ok addr M N" by (rule net_ok_reachable [OF assms])
  then have t: "ms_inv ?s" "\<forall>n \<in> participants ?s. status ?s n = AWAKEN"
    by (simp_all add: net_ok_def mgr_ok_def table_ok_def)
  have "status ?s n = AWAKEN" if "get_by_hostname name ?s = Some n" for n
    using t(2) lookups_are_participants(3) [OF t(1) that] by simp
  then have "wakeup name ?s = (False, ?s)" by (auto simp: wakeup_def split: option.split)
  moreover have "port \<in> {DISCOVERY_MANAGER_PORT, DISCOVERY_PARTICIPANT_PORT, EXIT_PORT}"
    if "on_wire N m dest port"
    using wire_comes [OF ok that] by (simp add: comes_def)
  ultimately show ?thesis using t(2) by blast
qed

theorem network_never_wakes_witness:
  "\<exists>N :: network. participants (table_of (mgr N)) = {0} \<and> status (table_of (mgr N)) 0 = AWAKEN
    \<and> \<not> fst (wakeup [] (table_of (mgr N)))"
proof -
  obtain N where N: "net_reachable LockShared (\<lambda>_. host_a) host_b (net_start (\<lambda>_. []) []) N"
    "table_of (mgr N) = snd (enroll (nameless host_a) AWAKEN (ManagementService_new Channel_open))"
    using discovery_run [where addr = "\<lambda>_. host_a" and i = 0, OF hosts_plain(2,1) host_a_not_broadcast] by blast
  have "\<forall>i :: nat. plain_host host_a" using hosts_plain(1) by simp
  from network_never_wakes [OF N(1) hosts_plain(2) this, of "[]"]
  have "\<forall>n \<in> participants (table_of (mgr N)). status (table_of (mgr N)) n = AWAKEN"
    "\<not> fst (wakeup [] (table_of (mgr N)))"
    by simp_all
  moreover have "participants (table_of (mgr N)) = {0}" unfolding N(2) by (rule enroll_first)
  ultimately show ?thesis by (intro exI [of _ N]) simp
qed

lemma lookup_by_mac:
  assumes "ms_inv s" and "get_by_mac_address a s = Some n"
  shows "n \<in> participants s \<and> mac (addresses s n) = a"
  using assms lookups_are_participants(1) std_map.keyed_lookup [OF ms_invD(4)]
  by (simp add: get_by_mac_address_def) blast

text \<open>
  C5: The manager knows one participant at a time, in every run of the whole network on plain hosts: of two
  participants with different MAC addresses, at least one is not found in the table, also while
  both are connected and wait for it. The host names are lost on the way, and the table has
  one station for each host name.
\<close>

theorem network_knows_one:
  assumes "net_reachable ctor addr M (net_start inputs minput) N"
    and "plain_host M" and "\<forall>i. plain_host (addr i)" and "mac (addr i) \<noteq> mac (addr j)"
  shows "get_by_mac_address (mac (addr i)) (table_of (mgr N)) = None
    \<or> get_by_mac_address (mac (addr j)) (table_of (mgr N)) = None"
proof -
  let ?s = "table_of (mgr N)"
  have "net_ok addr M N" by (rule net_ok_reachable [OF assms(1-3)])
  then have t: "table_ok addr ?s" by (simp add: net_ok_def mgr_ok_def)
  then have "hostname (addresses ?s n) = []" if "n \<in> participants ?s" for n
    using that by (auto simp: table_ok_def known_as_def nameless_def)
  then obtain n where one: "participants ?s \<subseteq> {n}"
    using one_nameless [of ?s] t by (auto simp: table_ok_def)
  have known: "m = mac (addresses ?s n)" if "get_by_mac_address m ?s = Some n'" for m n'
    using lookup_by_mac [OF _ that] t one by (auto simp: table_ok_def)
  then show ?thesis using assms(4) by (metis option.exhaust)
qed

text \<open>Two participants; the manager has the one with the MAC address of \<open>host_a\<close>.\<close>

definition two_hosts :: "nat \<Rightarrow> NodeAddresses" where
  "two_hosts i = (if i = 0 then host_a else host_b\<lparr>mac := [9, 9, 9, 9, 9, 9]\<rparr>)"

lemma two_hosts: "two_hosts 0 = host_a" "mac (two_hosts 1) = [9, 9, 9, 9, 9, 9]" "plain_host (two_hosts i)"
  "mac host_a \<noteq> [9, 9, 9, 9, 9, 9]"
  using hosts_plain by (simp_all add: two_hosts_def plain_host_def loadable_def is_mac_def) (simp_all add: host_a_def)

theorem network_knows_one_witness:
  "\<exists>N :: network. main_at (node N 0) = MLoop 3 (nameless host_b) \<and> get_by_mac_address (mac host_a) (table_of (mgr N)) = Some 0
    \<and> get_by_mac_address [9, 9, 9, 9, 9, 9] (table_of (mgr N)) = None"
proof -
  have "ip (two_hosts 0) \<noteq> BROADCAST_IP" using host_a_not_broadcast by (simp add: two_hosts)
  then obtain N where N: "net_reachable LockShared two_hosts host_b (net_start (\<lambda>_. []) []) N"
    "main_at (node N 0) = MLoop 3 (nameless host_b)"
    "table_of (mgr N) = snd (enroll (nameless host_a) AWAKEN (ManagementService_new Channel_open))"
    using discovery_run [where addr = two_hosts and i = 0, OF hosts_plain(2) two_hosts(3)] two_hosts(1) by metis
  have here: "get_by_mac_address (mac host_a) (table_of (mgr N)) = Some 0"
    unfolding N(3) by (simp add: enroll_first(4) nameless_def)
  have "\<forall>i. plain_host (two_hosts i)" "mac (two_hosts 0) \<noteq> mac (two_hosts 1)" using two_hosts by simp_all
  from network_knows_one [OF N(1) hosts_plain(2) this] show ?thesis
    using here N(2) two_hosts(1,2) by (intro exI [of _ N]) auto
qed

end
