(* ===== verification/Spec2Isabelle.thy ===== *)
theory Spec2Isabelle
  imports Table_Linearizability Packet_Properties Channel_Refinement Socket_Properties Wake_Up Network_Runs
begin

text \<open>
  A verification development for SleepManager, a C++ program of one manager and several
  participants in a local network. The manager keeps a table of participants that discovered
  it, polls their sleep status, and prints the table; a participant discovers the manager,
  listens for wake-up packets and says good-bye when its user leaves.

  Parts of the program and their theories (files below \<open>src/\<close> and \<open>include/\<close>):

  \<^item> \<open>Prelude\<close>: machine words and computations with a state that may throw; an exception is a
    value \<open>Inl\<close>, and undefined behaviour the code can reach is the failure \<open>Undefined\<close>.
    \<open>Failures\<close>: the exception classes (\<open>io_exception.cpp\<close>, \<open>address.h\<close>, \<open>packet.h\<close>).
    \<open>Text_Streams\<close> and \<open>Std_Map\<close>: what the program uses of string streams, \<open>stoull\<close>,
    \<open>to_string\<close> and \<open>std::map\<close>.
  \<^item> \<open>Address\<close> (\<open>address.cpp\<close>): the text form of MAC and IPv4 addresses. Lemmas: round trips,
    what malformed texts do. Locale \<open>octet_text\<close>, interpreted for both kinds of address.
  \<^item> \<open>Management\<close> (\<open>management.cpp\<close>): stations as references into a heap, three ordered indexes,
    event handlers. \<open>Management_Invariant\<close>: the invariant and what each operation does;
    \<open>Management_Table\<close>: histories of operations, the abstract table from host names to
    participants and the refinement, the contract of the removals (locale \<open>removable\<close>);
    \<open>Management_Properties\<close>: the properties. The operations are modelled as the critical
    sections the lock calls are meant to make; \<open>Locking\<close> (\<open>lock.h\<close>) models the lock calls
    themselves and shows that the guard for readers is broken: its constructor unlocks. So for readers
    this is the intended and not the guaranteed behaviour; what the code does is in the programs of
    \<open>Service_Threads\<close> and in the steps of \<open>Manager_Process\<close>, which have the constructor as a
    parameter \<open>ctor\<close>, \<open>UnlockShared\<close> for the code and \<open>LockShared\<close> for the guard as it is meant. \<open>Lock_Programs\<close>: programs of lock calls and accesses
    to shared data, run by any number of threads, and the discipline that excludes races
    and deadlocks (locale \<open>guarded_calls\<close>); \<open>Service_Threads\<close>: the operations as such programs,
    statement by statement, with the guard of the code and with one that locks;
    \<open>Service_Table\<close>: what the operations keep of the table holds between two holders of its lock,
    and what the locks do not prevent; \<open>Table_Linearizability\<close>: the table is an atomic object, on
    which every call acts in one moment between its beginning and its end.
  \<^item> \<open>Packet\<close> (\<open>packet.cpp\<close>): headers, bodies, serializer, deserializer. \<open>Packet_Roundtrip\<close>: the
    contract of a field (locale \<open>packet_field\<close>) for the four kinds of field;
    \<open>Packet_Properties\<close>: whole packets.
  \<^item> \<open>Channel\<close> (\<open>channel.h\<close>): the operations one after the other, with the contract of a queue
    (locale \<open>message_queue\<close>); \<open>Channel_Steps\<close>: the single steps of senders, receiver and
    destructors in every interleaving, with three ways in which a receiver comes to wait for ever;
    \<open>Channel_Refinement\<close>: the steps implement the operations.
  \<^item> \<open>Os\<close>: the system calls as the fields of the record \<open>os\<close>, a parameter of everything that uses
    them, over any type of worlds; \<open>Host\<close>: \<open>NodeAddresses::load_host\<close>; \<open>Socket\<close>
    (\<open>socket.cpp\<close>): sockets, server and client. \<open>Loopback\<close> is one executable instance of \<open>os\<close>,
    for witnesses and for the statements about a concrete network; \<open>Socket_Properties\<close>: what
    servers and clients accept and return, and when they never return.
  \<^item> \<open>Discovery\<close> (\<open>discovery.cpp\<close>): the receiving thread and the response threads as a step
    relation; \<open>Monitoring\<close> (\<open>monitoring.cpp\<close>): a tick of the monitoring thread; \<open>Interface\<close>
    (\<open>interface.cpp\<close>): commands, the printed table, the loop of the manager's interface;
    \<open>Participant\<close> (\<open>participant.cpp\<close>, \<open>manager.cpp\<close>, \<open>main.cpp\<close>): the processes, one thread
    after the other; \<open>Wake_Up\<close>: what the listener for wake-up packets does to a participant.
  \<^item> \<open>Participant_Steps\<close>, \<open>Participant_Runs\<close>: the participant with all its threads and its signal
    handler, interleaved in any order on any \<open>os\<close>: when it exits, and to whom it says good-bye.
  \<^item> \<open>Manager_Steps\<close>: the manager's threads interleaved, with the network left open, at the
    granularity of operations on the service and the channel; this is a specification and not read
    from the code. \<open>Manager_Process\<close>: the manager as the code has it, with its calls of the operating
    system and the guard of its readers, a refinement of the specification; what the guard of the
    code makes of it, and what a malformed datagram does.
  \<^item> \<open>World_Invariants\<close>: what the operations on sockets keep of the outside world (locale
    \<open>kept_world\<close>); \<open>Kernel\<close>: a second instance of \<open>os\<close>, with bound ports and queues, that
    interprets the locale; \<open>Network\<close>: a manager and any number of participants on such kernels,
    with datagrams that are lost, repeated and reordered, and the invariant of that system;
    \<open>Network_Runs\<close>: a run that completes a discovery, and the properties of all runs: who knows
    whom, who can leave, that nobody sleeps or is woken up, and which ports carry any traffic.
  \<^item> This theory: conversations in which both sides run, on \<open>Loopback\<close>, and whom a participant
    takes for its manager.

  How the parts interact: discovery and monitoring threads and the interface share the service;
  the service's event handler sends on the interface's channel; the processes exchange packet
  texts through the sockets.

  Loops that may not end are \<open>partial_function (option)\<close>, with the result \<open>None\<close> when they do not
  end: \<open>server_receive\<close>, \<open>receive_response\<close>, \<open>exit_loop\<close>. The endless loops of threads are their
  first \<open>n\<close> rounds (\<open>monitoring_ticks\<close>, \<open>interface_rounds\<close>, \<open>listen_wol_rounds\<close>) for arbitrary \<open>n\<close>,
  so no bound is lost; the retries of \<open>receive_bounded\<close> recurse on the counter of the code.

  The steps of the processes are one system call sequence of a thread each: one round of a
  response loop, one operation on the service, one line of the input. Installing the signal
  handler, starting the thread for the input and the first printed table are parts of one step.

  Not modelled: the interleaving inside of such steps; the memory of \<open>std::shared_ptr\<close> beyond
  the count the channel reads;
  what \<open>std::sort\<close> does with equal IP addresses (the model keeps their order);
  characters outside of ASCII in \<open>toupper\<close> and \<open>iswspace\<close>, which the locale \<open>"C"\<close> leaves alone.
  Whether the stack is unwound when an exception ends a thread is left open by C++; the model
  runs the destructors of sockets with a scope in the socket operations only.
\<close>

section \<open>Both sides of a conversation\<close>

lemma server_receives_request:
  assumes "plain_host a" and "idle_flags p" and "inbox (world p) = packet_text (own_packet a n PacketBody_new) # ms"
  shows "server_receive (loopback b) fd p =
    Some (Inr (packet_view (own_packet a n PacketBody_new) Packet_new), p\<lparr>world := (world p)\<lparr>inbox := ms\<rparr>\<rparr>)"
proof -
  have "sendable (own_packet a n PacketBody_new)" using assms(1) by (simp add: plain_host_sendable)
  then show ?thesis
    using assms(2,3) unfolding server_receive_def
    by (subst server_receive_loop.simps) (auto simp: loopback_receive_packet idle_flags_def)
qed

text \<open>The reply of the manager at \<open>b\<close> to a received packet.\<close>

definition reply_to :: "NodeAddresses \<Rightarrow> Packet \<Rightarrow> Packet" where
  "reply_to b packet = packet\<lparr>header := (header packet)\<lparr>direction := RESPONSE,
     sender_addresses := b, timestamp := 1000002\<rparr>\<rparr>"

lemma participant_reads_reply:
  assumes "plain_host a" and "plain_host b" and "packet_type (body packet) = DISCOVERY"
    and "inbox (world p) = [packet_text (reply_to b packet)]" and "idle_flags p"
  shows "\<exists>q. connect_to_manager (loopback a) fd p = Some (Inr (b\<lparr>hostname := []\<rparr>), q)
    \<and> outbox (world q) = outbox (world p) @
        [(packet_text (own_packet a (global_seqn p) PacketBody_new), BROADCAST_IP, DISCOVERY_MANAGER_PORT)]"
proof -
  have r: "sender_addresses (header (reply_to b packet)) = b" "packet_type (body (reply_to b packet)) = DISCOVERY"
    using assms(3) by (simp_all add: reply_to_def)
  have s: "sendable (reply_to b packet)" using assms(2) r by (simp add: plain_host_sendable)
  have a: "loadable a" using assms(1) by (simp add: plain_host_def)
  have "sender_addresses (header_view (header (reply_to b packet))) = b\<lparr>hostname := []\<rparr>"
    using assms(2) r by (simp add: header_view_def plain_host_def escape_loop_no_backslash)
  then show ?thesis
    using connect_loopback [OF a assms(4) s assms(5) r(2), of fd] by auto
qed

section \<open>Properties\<close>

text \<open>
  The discovery conversation, end to end, between a participant and a manager whose table is
  empty: the request the participant sends, when the manager receives it, is accepted, puts
  exactly one station into the table, awake, with the participant's MAC and IP address and an
  empty host name, and makes the manager send one packet to the participant's address; when
  the participant receives these bytes, \<open>connect_to_manager\<close>, which sends that request, returns
  the MAC and IP address of the manager.
\<close>

lemma discovery_conversation:
  assumes "plain_host a" and "plain_host b"
  shows "\<exists>packet m' reply.
    server_receive (loopback b) fd
      (net_with [packet_text (own_packet a (global_seqn p) PacketBody_new)]) = Some (Inr packet, net_with [])
    \<and> discovery_response (loopback b) packet (fresh_manager (net_with [])) = (Inr (), m')
    \<and> outbox (world (host m')) = [(reply, ip a, DISCOVERY_PARTICIPANT_PORT)]
    \<and> participants (service m') = {0} \<and> status (service m') 0 = AWAKEN
    \<and> addresses (service m') 0 = a\<lparr>hostname := []\<rparr>
    \<and> (inbox (world p) = [reply] \<and> idle_flags p \<longrightarrow> (\<exists>q.
        connect_to_manager (loopback a) fd' p = Some (Inr (b\<lparr>hostname := []\<rparr>), q)
        \<and> outbox (world q) = outbox (world p) @
            [(packet_text (own_packet a (global_seqn p) PacketBody_new), BROADCAST_IP, DISCOVERY_MANAGER_PORT)]))"
proof -
  let ?packet = "packet_view (own_packet a (global_seqn p) PacketBody_new) Packet_new"
  have sender: "sender_of ?packet = a\<lparr>hostname := []\<rparr>"
    using plain_host_view [of "own_packet a (global_seqn p) PacketBody_new"] assms(1) by simp
  have type: "packet_type (body ?packet) = DISCOVERY" by (simp add: packet_view_def)
  have "loadable b" using assms(2) by (simp add: plain_host_def)
  then obtain m' where m': "discovery_response (loopback b) ?packet (fresh_manager (net_with [])) = (Inr (), m')"
    "service m' = snd (enroll (a\<lparr>hostname := []\<rparr>) AWAKEN (ManagementService_new ()))"
    "outbox (world (host m')) = [(packet_text (reply_to b ?packet), ip a, DISCOVERY_PARTICIPANT_PORT)]"
    using discovery_response_loopback [of b ?packet "fresh_manager (net_with [])"] sender
    by (auto simp: fresh_manager_def reply_to_def net_with_def boot_def quiet_net_def)
  have table: "participants (service m') = {0}" "status (service m') 0 = AWAKEN"
    "addresses (service m') 0 = a\<lparr>hostname := []\<rparr>"
    unfolding m'(2) by (rule enroll_first)+
  have received: "server_receive (loopback b) fd
      (net_with [packet_text (own_packet a (global_seqn p) PacketBody_new)]) = Some (Inr ?packet, net_with [])"
    by (subst server_receives_request [OF assms(1)]) simp_all
  have reply: "inbox (world p) = [packet_text (reply_to b ?packet)] \<and> idle_flags p \<longrightarrow> (\<exists>q.
      connect_to_manager (loopback a) fd' p = Some (Inr (b\<lparr>hostname := []\<rparr>), q)
      \<and> outbox (world q) = outbox (world p) @
          [(packet_text (own_packet a (global_seqn p) PacketBody_new), BROADCAST_IP, DISCOVERY_MANAGER_PORT)])"
    using participant_reads_reply [OF assms type] by blast
  show ?thesis using received m' table reply by blast
qed

lemma discovery_conversation_witness:
  "\<exists>packet m'. server_receive (loopback host_b) 3 (net_with [packet_text (own_packet host_a 0 PacketBody_new)])
      = Some (Inr packet, net_with [])
    \<and> discovery_response (loopback host_b) packet (fresh_manager (net_with [])) = (Inr (), m')
    \<and> addresses (service m') 0 = \<lparr>mac = [1, 2, 3, 4, 5, 6], ip = [10, 0, 0, 1], hostname = []\<rparr>"
proof -
  have "global_seqn (net_with []) = 0" by (simp add: net_with_def boot_def)
  then show ?thesis
    using discovery_conversation [OF hosts_plain, of 3 "net_with []"] by (auto simp: host_a_def)
qed

text \<open>
  The good-bye, end to end: when the exit request of an enrolled participant reaches the
  manager's exit port, the monitoring loop takes it and the participant is gone from the table,
  but no packet is sent; and a participant that gets no packet never returns from
  \<open>disconnect_to_manager\<close>.
\<close>

lemma goodbye_conversation:
  assumes "plain_host a" and "silent p"
    and "inbox (world q) = [packet_text (own_packet a n (PacketBody_new\<lparr>packet_type := EXIT\<rparr>))]"
    and "idle_flags q"
  shows "(\<exists>m'. exit_loop (loopback b) fd
        \<lparr>host = q, service = snd (enroll (a\<lparr>hostname := []\<rparr>) AWAKEN (ManagementService_new x))\<rparr> = Some (Inr (), m')
      \<and> get_by_mac_address (mac a) (service m') = None
      \<and> outbox (world (host m')) = outbox (world q))
    \<and> disconnect_to_manager (loopback a) dest p = None"
proof -
  let ?pk = "own_packet a n (PacketBody_new\<lparr>packet_type := EXIT\<rparr>)"
  let ?s = "snd (enroll (a\<lparr>hostname := []\<rparr>) AWAKEN (ManagementService_new x))"
  let ?m = "\<lparr>host = q, service = ?s\<rparr>"
  have mac: "map (\<lambda>pk. mac (sender_of pk)) [?pk] = [mac a]" by (simp add: sender_of_def)
  have "list_all sendable [?pk]" using assms(1) by (simp add: plain_host_sendable)
  then obtain m' where m': "exit_loop (loopback b) fd ?m = Some (Inr (), m')"
    "service m' = by_mac.remove_all [mac a] ?s" "outbox (world (host m')) = outbox (world q)"
    using exit_loop_loopback [of ?m "[?pk]" b fd] assms(3,4) mac by auto
  have "get_by_mac_address (mac a) (service m') = None"
    unfolding m'(2) by (subst by_mac.remove_all_look [OF enroll_first(5)]) simp
  moreover have "disconnect_to_manager (loopback a) dest p = None"
    using assms(1,2) silent_unanswered by (intro disconnect_unanswered) (simp_all add: plain_host_def)
  ultimately show ?thesis using m' by blast
qed

lemma goodbye_conversation_witness:
  "disconnect_to_manager (loopback host_a) [10, 0, 0, 2] (net_with []) = None"
  using goodbye_conversation [where a = host_a and n = 1 and p = "net_with []" and b = host_b and fd = 3
      and x = "()" and dest = "[10, 0, 0, 2]"
      and q = "net_with [packet_text (own_packet host_a 1 (PacketBody_new\<lparr>packet_type := EXIT\<rparr>))]"]
  by (simp add: silent_def hosts_plain)

text \<open>
  C27: Whoever answers first is the manager: after any packets of other types, the sender of the
  first packet of the type \<open>DISCOVERY\<close> that arrives is taken for the manager, whether it is a
  request or a response, and whatever its sequence number and its time stamp are. The request is
  sent once, and once more for each of the packets before.
\<close>

theorem first_sender_is_manager:
  assumes "plain_host a" and "plain_host (sender_of pk)" and "packet_type (body pk) = DISCOVERY"
    and "\<forall>other \<in> set others. sendable other \<and> packet_type (body other) \<noteq> DISCOVERY"
    and "inbox (world p) = map packet_text (others @ [pk]) @ ms" and "idle_flags p"
  shows "\<exists>q. connect_to_manager (loopback a) fd p = Some (Inr (nameless (sender_of pk)), q)
    \<and> inbox (world q) = ms \<and> outbox (world q) = outbox (world p) @ replicate (Suc (length others))
        (packet_text (own_packet a (global_seqn p) PacketBody_new), BROADCAST_IP, DISCOVERY_MANAGER_PORT)"
proof -
  have a: "loadable a" and pk: "sendable pk"
    using assms(1,2) by (simp_all add: plain_host_def plain_host_sendable sender_of_def)
  have "sender_addresses (header_view (header pk)) = nameless (sender_of pk)"
    using assms(2) by (simp add: header_view_def plain_host_def escape_loop_no_backslash nameless_def sender_of_def)
  moreover have "list_all sendable (others @ [pk])" "list_all (\<lambda>other. packet_type (body other) \<noteq> DISCOVERY) others"
    using assms(4) pk by (simp_all add: list_all_iff)
  ultimately show ?thesis using connect_after [OF a assms(5) _ _ assms(3,6), of fd] by auto
qed

theorem first_sender_is_manager_witness:
  "\<exists>q. connect_to_manager (loopback host_a) 3
      (net_with (map packet_text [own_packet host_a 4 (PacketBody_new\<lparr>packet_type := EXIT\<rparr>), own_packet host_b 77 PacketBody_new]))
      = Some (Inr (nameless host_b), q) \<and> length (outbox (world q)) = 2"
proof -
  let ?exit = "own_packet host_a 4 (PacketBody_new\<lparr>packet_type := EXIT\<rparr>)" and ?pk = "own_packet host_b 77 PacketBody_new"
  have "sendable ?exit" using hosts_plain by (simp add: plain_host_sendable)
  moreover have "plain_host (sender_of ?pk)" "packet_type (body ?pk) = DISCOVERY"
    using hosts_plain by (simp_all add: sender_of_def PacketBody_new_def)
  moreover have "outbox (world (net_with ms)) = []" for ms by (simp add: net_with_def boot_def quiet_net_def)
  ultimately show ?thesis
    using first_sender_is_manager [OF hosts_plain(1), of ?pk "[?exit]" "net_with (map packet_text [?exit, ?pk])" "[]" 3]
    by (auto simp: sender_of_def)
qed

end
